(* ===== verification/Prelude.thy ===== *)
theory Prelude
  imports Main "HOL-Library.Word"
begin

text \<open>
  Shared vocabulary of the development: the machine integers of the Rust sources, the outcome
  type of code that may panic, checked and panicking integer arithmetic, slices and little-endian
  byte strings, and UTF-8 text.  The kernel image is built by \<^verbatim>\<open>tools/xtask\<close> with the
  \<^verbatim>\<open>dev\<close> profile, so an overflowing \<open>+\<close>, \<open>-\<close>, \<open>*\<close> or \<open><<\<close> panics; that is what
  the \<open>_or_panic\<close> operations say.  A \<open>usize\<close> that only counts or indexes is a \<open>nat\<close> with its
  64-bit bound written out; a register, a header field or an address is a word of its width.
\<close>

unbundle bit_operations_syntax

type_synonym u8 = "8 word"
type_synonym u16 = "16 word"
type_synonym u32 = "32 word"
type_synonym u64 = "64 word"
type_synonym rstr = "u8 list"
type_synonym rchar = nat

named_theorems run_simps \<open>evaluation of the outcome type\<close>
named_theorems list_simps \<open>slices, updates and searches on lists\<close>


section \<open>Outcomes: code that may panic\<close>

datatype 'a run = Done 'a | Panic

definition run_bind :: "'a run \<Rightarrow> ('a \<Rightarrow> 'b run) \<Rightarrow> 'b run" where
  "run_bind m f = (case m of Done x \<Rightarrow> f x | Panic \<Rightarrow> Panic)"

fun run_fold :: "('a \<Rightarrow> 's \<Rightarrow> 's run) \<Rightarrow> 'a list \<Rightarrow> 's \<Rightarrow> 's run" where
  "run_fold f [] s = Done s"
| "run_fold f (x # xs) s = run_bind (f x s) (run_fold f xs)"

definition run_guard :: "bool \<Rightarrow> unit run" where
  "run_guard b = (if b then Done () else Panic)"

definition run_the :: "'a option \<Rightarrow> 'a run" where
  "run_the x = (case x of None \<Rightarrow> Panic | Some v \<Rightarrow> Done v)"

definition run_ok :: "'a run \<Rightarrow> bool" where
  "run_ok m \<longleftrightarrow> m \<noteq> Panic"

lemma run_bind_simps [simp, run_simps]:
  "run_bind (Done x) f = f x"
  "run_bind Panic f = Panic"
  by (simp_all add: run_bind_def)

lemma run_bind_eq_Done [run_simps]:
  "run_bind m f = Done y \<longleftrightarrow> (\<exists>x. m = Done x \<and> f x = Done y)"
  by (cases m) auto

lemma run_bind_assoc: "run_bind (run_bind m f) g = run_bind m (\<lambda>x. run_bind (f x) g)"
  by (cases m) auto

lemma run_bind_cong [fundef_cong]:
  "m = m' \<Longrightarrow> (\<And>x. m' = Done x \<Longrightarrow> f x = f' x) \<Longrightarrow> run_bind m f = run_bind m' f'"
  by (cases m') auto

lemma run_guard_simps [simp, run_simps]:
  "run_guard True = Done ()" "run_guard False = Panic"
  by (simp_all add: run_guard_def)

lemma run_guard_eq_Done [simp]: "run_guard b = Done u \<longleftrightarrow> b"
  by (simp add: run_guard_def)

lemma run_the_simps [simp, run_simps]: "run_the (Some v) = Done v" "run_the None = Panic"
  by (simp_all add: run_the_def)

lemma run_the_eq_Done [simp]: "run_the x = Done v \<longleftrightarrow> x = Some v"
  by (cases x) auto

lemma run_ok_simps [simp]: "run_ok (Done x)" "\<not> run_ok Panic"
  by (simp_all add: run_ok_def)

lemma run_ok_iff: "run_ok m \<longleftrightarrow> (\<exists>x. m = Done x)"
  by (cases m) auto

lemma run_fold_append:
  "run_fold f (xs @ ys) s = run_bind (run_fold f xs s) (run_fold f ys)"
proof (induction xs arbitrary: s)
  case (Cons x xs)
  then show ?case by (cases "f x s") auto
qed simp

text \<open>An invariant that every step of a loop keeps holds at its end, and a loop whose steps do
  not panic under the invariant does not panic.\<close>

lemma run_fold_invariant:
  assumes "I s" and "\<And>x s. x \<in> set xs \<Longrightarrow> I s \<Longrightarrow> \<exists>s'. f x s = Done s' \<and> I s'"
  shows "\<exists>s'. run_fold f xs s = Done s' \<and> I s'"
  using assms
proof (induction xs arbitrary: s)
  case (Cons x xs)
  from Cons.prems(2)[of x s] Cons.prems(1) obtain t where "f x s = Done t" "I t" by auto
  with Cons.IH[of t] Cons.prems(2) show ?case by auto
qed simp

lemma run_fold_Done:
  "(\<And>x s. x \<in> set xs \<Longrightarrow> f x s = Done (g x s)) \<Longrightarrow> run_fold f xs s = Done (fold g xs s)"
  by (induction xs arbitrary: s) auto

lemma run_fold_keeps:
  assumes "run_fold f xs s = Done s'" and "I s"
    and "\<And>x s t. x \<in> set xs \<Longrightarrow> I s \<Longrightarrow> f x s = Done t \<Longrightarrow> I t"
  shows "I s'"
  using assms
proof (induction xs arbitrary: s)
  case (Cons x xs)
  from Cons.prems(1) obtain t where t: "f x s = Done t" "run_fold f xs t = Done s'"
    by (auto simp: run_bind_eq_Done)
  with Cons.prems have "I t" by auto
  with Cons.IH[OF t(2)] Cons.prems(3) show ?case by auto
qed simp


section \<open>Results: the question mark\<close>

definition ok_or :: "'a option \<Rightarrow> 'e \<Rightarrow> 'e + 'a" where
  "ok_or x e = (case x of Some v \<Rightarrow> Inr v | None \<Rightarrow> Inl e)"

text \<open>\<open>let x = m?; f(x)\<close> in a function that cannot panic, and in one that can.\<close>

definition attempt :: "'e + 'a \<Rightarrow> ('a \<Rightarrow> 'e + 'b) \<Rightarrow> 'e + 'b" where
  "attempt m f = (case m of Inl e \<Rightarrow> Inl e | Inr x \<Rightarrow> f x)"

definition attempt_run :: "('e + 'a) run \<Rightarrow> ('a \<Rightarrow> ('e + 'b) run) \<Rightarrow> ('e + 'b) run" where
  "attempt_run m f = run_bind m (\<lambda>r. case r of Inl e \<Rightarrow> Done (Inl e) | Inr x \<Rightarrow> f x)"

lemma attempt_simps [simp, run_simps]:
  "ok_or (Some v) e = Inr v" "ok_or None e = Inl e"
  "attempt (Inr x) f = f x" "attempt (Inl e) f = Inl e"
  "attempt_run (Done (Inr x)) g = g x" "attempt_run (Done (Inl e)) g = Done (Inl e)" "attempt_run Panic g = Panic"
  by (simp_all add: ok_or_def attempt_def attempt_run_def)

lemma attempt_eq_Inr [run_simps]: "attempt m f = Inr y \<longleftrightarrow> (\<exists>x. m = Inr x \<and> f x = Inr y)"
  by (cases m) auto

lemma attempt_run_eq_Inr [run_simps]:
  "attempt_run m f = Done (Inr y) \<longleftrightarrow> (\<exists>x. m = Done (Inr x) \<and> f x = Done (Inr y))"
proof (cases m)
  case (Done r)
  then show ?thesis by (cases r) (auto simp: attempt_run_def)
qed simp

lemma attempt_run_eq_Panic [run_simps]:
  "attempt_run m f = Panic \<longleftrightarrow> m = Panic \<or> (\<exists>x. m = Done (Inr x) \<and> f x = Panic)"
  by (cases m) (auto simp: attempt_run_def split: sum.splits)

lemma ok_or_eq_Inr [run_simps]: "ok_or x e = Inr v \<longleftrightarrow> x = Some v"
  by (cases x) auto


section \<open>Integer arithmetic\<close>

abbreviation usize_limit :: nat where "usize_limit \<equiv> 18446744073709551616"

definition usize_add :: "nat \<Rightarrow> nat \<Rightarrow> nat run" where
  "usize_add a b = (if a + b < usize_limit then Done (a + b) else Panic)"

definition usize_sub :: "nat \<Rightarrow> nat \<Rightarrow> nat run" where
  "usize_sub a b = (if b \<le> a then Done (a - b) else Panic)"

definition usize_mul :: "nat \<Rightarrow> nat \<Rightarrow> nat run" where
  "usize_mul a b = (if a * b < usize_limit then Done (a * b) else Panic)"

definition usize_checked_add :: "nat \<Rightarrow> nat \<Rightarrow> nat option" where
  "usize_checked_add a b = (if a + b < usize_limit then Some (a + b) else None)"

definition usize_checked_mul :: "nat \<Rightarrow> nat \<Rightarrow> nat option" where
  "usize_checked_mul a b = (if a * b < usize_limit then Some (a * b) else None)"

definition add_or_panic :: "'a::len word \<Rightarrow> 'a word \<Rightarrow> 'a word run" where
  "add_or_panic a b = (if unat a + unat b < 2 ^ LENGTH('a) then Done (a + b) else Panic)"

definition sub_or_panic :: "'a::len word \<Rightarrow> 'a word \<Rightarrow> 'a word run" where
  "sub_or_panic a b = (if b \<le> a then Done (a - b) else Panic)"

definition mul_or_panic :: "'a::len word \<Rightarrow> 'a word \<Rightarrow> 'a word run" where
  "mul_or_panic a b = (if unat a * unat b < 2 ^ LENGTH('a) then Done (a * b) else Panic)"

definition checked_add :: "'a::len word \<Rightarrow> 'a word \<Rightarrow> 'a word option" where
  "checked_add a b = (if unat a + unat b < 2 ^ LENGTH('a) then Some (a + b) else None)"

definition checked_sub :: "'a::len word \<Rightarrow> 'a word \<Rightarrow> 'a word option" where
  "checked_sub a b = (if b \<le> a then Some (a - b) else None)"

definition checked_mul :: "'a::len word \<Rightarrow> 'a word \<Rightarrow> 'a word option" where
  "checked_mul a b = (if unat a * unat b < 2 ^ LENGTH('a) then Some (a * b) else None)"

lemma unat_add_no_wrap:
  fixes a b :: "'a::len word"
  shows "unat a + unat b < 2 ^ LENGTH('a) \<Longrightarrow> unat (a + b) = unat a + unat b"
  by (simp add: unat_word_ariths)

lemma unat_mul_no_wrap:
  fixes a b :: "'a::len word"
  shows "unat a * unat b < 2 ^ LENGTH('a) \<Longrightarrow> unat (a * b) = unat a * unat b"
  by (simp add: unat_word_ariths)

lemma add_or_panic_Done:
  fixes a b :: "'a::len word"
  shows "add_or_panic a b = Done c \<Longrightarrow> unat c = unat a + unat b"
  by (auto simp: add_or_panic_def unat_add_no_wrap split: if_splits)

lemma sub_or_panic_Done:
  fixes a b :: "'a::len word"
  shows "sub_or_panic a b = Done c \<Longrightarrow> unat c = unat a - unat b \<and> unat b \<le> unat a"
  by (auto simp: sub_or_panic_def unat_sub word_le_nat_alt split: if_splits)

lemma mul_or_panic_Done:
  fixes a b :: "'a::len word"
  shows "mul_or_panic a b = Done c \<Longrightarrow> unat c = unat a * unat b"
  by (auto simp: mul_or_panic_def unat_mul_no_wrap split: if_splits)

lemma checked_add_Some:
  fixes a b :: "'a::len word"
  shows "checked_add a b = Some c \<Longrightarrow> unat c = unat a + unat b"
  by (auto simp: checked_add_def unat_add_no_wrap split: if_splits)

lemma checked_mul_Some:
  fixes a b :: "'a::len word"
  shows "checked_mul a b = Some c \<Longrightarrow> unat c = unat a * unat b"
  by (auto simp: checked_mul_def unat_mul_no_wrap split: if_splits)

lemma checked_sub_Some:
  fixes a b :: "'a::len word"
  shows "checked_sub a b = Some c \<Longrightarrow> unat c = unat a - unat b \<and> unat b \<le> unat a"
  by (auto simp: checked_sub_def unat_sub word_le_nat_alt split: if_splits)

lemmas checked_arith =
  checked_add_Some checked_mul_Some checked_sub_Some
  add_or_panic_Done sub_or_panic_Done mul_or_panic_Done

lemma usize_arith_Done [run_simps]:
  "usize_add a b = Done c \<longleftrightarrow> c = a + b \<and> a + b < usize_limit"
  "usize_sub a b = Done c \<longleftrightarrow> c = a - b \<and> b \<le> a"
  "usize_mul a b = Done c \<longleftrightarrow> c = a * b \<and> a * b < usize_limit"
  "usize_checked_add a b = Some c \<longleftrightarrow> c = a + b \<and> a + b < usize_limit"
  "usize_checked_mul a b = Some c \<longleftrightarrow> c = a * b \<and> a * b < usize_limit"
  by (auto simp: usize_add_def usize_sub_def usize_mul_def usize_checked_add_def
      usize_checked_mul_def)

lemma unat_u64_limit [simp]: "unat (w :: u64) < usize_limit"
  using unsigned_less[of w, where ?'a = nat] by simp

lemma unat_of_nat_u64 [simp]: "n < usize_limit \<Longrightarrow> unat (of_nat n :: u64) = n"
  by (simp add: unat_of_nat)

lemma unat_of_nat_u32: "n < 4294967296 \<Longrightarrow> unat (of_nat n :: u32) = n"
  by (simp add: unat_of_nat)

lemma unat_of_nat_u16: "n < 65536 \<Longrightarrow> unat (of_nat n :: u16) = n"
  by (simp add: unat_of_nat)

lemma unat_of_nat_u8: "n < 256 \<Longrightarrow> unat (of_nat n :: u8) = n"
  by (simp add: unat_of_nat)

lemma unat_u8_less [simp]: "unat (w :: u8) < 256"
  using unsigned_less[of w, where ?'a = nat] by simp

end
