(* ===== verification/Bytes.thy ===== *)
theory Bytes
  imports Prelude
begin

text \<open>
  Byte strings: slices with Rust's bounds checks, \<open>copy_from_slice\<close>, little-endian integers
  (\<open>u64::from_le_bytes\<close>, \<open>to_le_bytes\<close>), searches, and UTF-8 as \<open>core::str::from_utf8\<close> and
  \<open>str::chars\<close> implement it.  A Rust \<open>str\<close> is its byte string; a \<open>char\<close> is its scalar value.
\<close>


section \<open>Slices and searches\<close>

definition sub_slice :: "nat \<Rightarrow> nat \<Rightarrow> 'a list \<Rightarrow> 'a list" where
  "sub_slice i j xs = take (j - i) (drop i xs)"

definition slice_or_panic :: "nat \<Rightarrow> nat \<Rightarrow> 'a list \<Rightarrow> 'a list run" where
  "slice_or_panic i j xs = (if i \<le> j \<and> j \<le> length xs then Done (sub_slice i j xs) else Panic)"

definition index_or_panic :: "nat \<Rightarrow> 'a list \<Rightarrow> 'a run" where
  "index_or_panic i xs = (if i < length xs then Done (xs ! i) else Panic)"

definition copy_at :: "nat \<Rightarrow> 'a list \<Rightarrow> 'a list \<Rightarrow> 'a list" where
  "copy_at i src dst = take i dst @ src @ drop (i + length src) dst"

fun position :: "('a \<Rightarrow> bool) \<Rightarrow> 'a list \<Rightarrow> nat option" where
  "position P [] = None"
| "position P (x # xs) = (if P x then Some 0 else map_option Suc (position P xs))"

definition remove_at :: "nat \<Rightarrow> 'a list \<Rightarrow> 'a list" where
  "remove_at i xs = take i xs @ drop (Suc i) xs"

lemma length_sub_slice [simp, list_simps]:
  "j \<le> length xs \<Longrightarrow> length (sub_slice i j xs) = j - i"
  by (simp add: sub_slice_def)

lemma nth_sub_slice [simp, list_simps]:
  "i + k < j \<Longrightarrow> j \<le> length xs \<Longrightarrow> sub_slice i j xs ! k = xs ! (i + k)"
  by (simp add: sub_slice_def)

lemma sub_slice_append_skip [list_simps]:
  "length xs \<le> i \<Longrightarrow> sub_slice i j (xs @ ys) = sub_slice (i - length xs) (j - length xs) ys"
  by (simp add: sub_slice_def)

lemma sub_slice_append_first [list_simps]:
  "j \<le> length xs \<Longrightarrow> sub_slice i j (xs @ ys) = sub_slice i j xs"
  by (simp add: sub_slice_def)

lemma sub_slice_whole [simp, list_simps]: "sub_slice 0 (length xs) xs = xs"
  by (simp add: sub_slice_def)

lemma length_copy_at [simp, list_simps]:
  "i + length src \<le> length dst \<Longrightarrow> length (copy_at i src dst) = length dst"
  by (simp add: copy_at_def)

lemma nth_copy_at [list_simps]:
  assumes "i + length src \<le> length dst" and "k < length dst"
  shows "copy_at i src dst ! k =
    (if i \<le> k \<and> k < i + length src then src ! (k - i) else dst ! k)"
  using assms by (auto simp: copy_at_def nth_append min_def)

lemma take_copy_at_0 [simp, list_simps]: "take (length src) (copy_at 0 src dst) = src"
  by (simp add: copy_at_def)

lemma drop_copy_at_0 [simp, list_simps]:
  "drop (length src) (copy_at 0 src dst) = drop (length src) dst"
  by (simp add: copy_at_def)

lemma position_None_iff [list_simps]: "position P xs = None \<longleftrightarrow> (\<forall>x\<in>set xs. \<not> P x)"
  by (induction xs) auto

lemma position_SomeD:
  "position P xs = Some i \<Longrightarrow> i < length xs \<and> P (xs ! i) \<and> (\<forall>k<i. \<not> P (xs ! k))"
proof (induction xs arbitrary: i)
  case (Cons x xs)
  show ?case
  proof (cases "P x")
    case False
    with Cons.prems obtain j where j: "position P xs = Some j" "i = Suc j" by auto
    with Cons.IH[OF j(1)] False show ?thesis by (auto simp: less_Suc_eq_0_disj)
  qed (use Cons.prems in auto)
qed simp

lemma position_append_skip:
  "\<forall>x\<in>set xs. \<not> P x \<Longrightarrow> position P (xs @ y # ys) =
    (if P y then Some (length xs) else map_option (\<lambda>n. length xs + Suc n) (position P ys))"
  by (induction xs) (auto simp: option.map_comp comp_def)

lemma find_Some_position:
  "List.find P xs = Some x \<Longrightarrow> \<exists>i. position P xs = Some i \<and> xs ! i = x"
  by (induction xs) (auto split: if_splits)

lemma find_None_position: "List.find P xs = None \<longleftrightarrow> position P xs = None"
  by (induction xs) auto


section \<open>Little-endian integers\<close>

fun le_nat :: "u8 list \<Rightarrow> nat" where
  "le_nat [] = 0"
| "le_nat (b # bs) = unat b + 256 * le_nat bs"

fun le_bytes :: "nat \<Rightarrow> nat \<Rightarrow> u8 list" where
  "le_bytes 0 v = []"
| "le_bytes (Suc n) v = of_nat (v mod 256) # le_bytes n (v div 256)"

definition le_u16 :: "u8 list \<Rightarrow> u16" where "le_u16 bs = of_nat (le_nat bs)"
definition le_u32 :: "u8 list \<Rightarrow> u32" where "le_u32 bs = of_nat (le_nat bs)"
definition le_u64 :: "u8 list \<Rightarrow> u64" where "le_u64 bs = of_nat (le_nat bs)"

lemma length_le_bytes [simp]: "length (le_bytes n v) = n"
  by (induction n arbitrary: v) auto

lemma le_nat_bound: "le_nat bs < 256 ^ length bs"
proof (induction bs)
  case (Cons b bs)
  have "le_nat (b # bs) < 256 * Suc (le_nat bs)"
    using unat_u8_less[of b] by (simp only: le_nat.simps mult_Suc_right)
  also have "\<dots> \<le> 256 * 256 ^ length bs" using Cons by (intro mult_le_mono2 Suc_leI)
  finally show ?case by simp
qed simp

lemma le_nat_le_bytes: "le_nat (le_bytes n v) = v mod 256 ^ n"
proof (induction n arbitrary: v)
  case (Suc n)
  have "le_nat (le_bytes (Suc n) v) = v mod 256 + 256 * (v div 256 mod 256 ^ n)"
    by (simp add: Suc unat_of_nat)
  also have "\<dots> = v mod (256 * 256 ^ n)"
    by (simp add: mod_mult2_eq)
  finally show ?case by simp
qed simp

lemma le_bytes_le_nat: "le_bytes (length bs) (le_nat bs) = bs"
  by (induction bs) (auto simp: mod_add_eq)

lemma unat_le_u64: "length bs \<le> 8 \<Longrightarrow> unat (le_u64 bs) = le_nat bs"
proof -
  assume "length bs \<le> 8"
  then have "(256::nat) ^ length bs \<le> 256 ^ 8" by (rule power_increasing) simp
  with le_nat_bound[of bs] have "le_nat bs < usize_limit" by simp
  then show ?thesis by (simp add: le_u64_def)
qed

lemma le_u64_le_bytes: "v < usize_limit \<Longrightarrow> le_u64 (le_bytes 8 v) = of_nat v"
  by (simp add: le_u64_def le_nat_le_bytes)


section \<open>UTF-8\<close>

definition ascii :: "string \<Rightarrow> rstr" where
  "ascii s = map of_char s"

definition is_cont :: "u8 \<Rightarrow> bool" where
  "is_cont b \<longleftrightarrow> 0x80 \<le> b \<and> b \<le> 0xBF"

text \<open>The next scalar of a byte string and the bytes after it: Table 3-7 of the Unicode standard,
  the table \<open>core::str::from_utf8\<close> decides.\<close>

fun utf8_next :: "rstr \<Rightarrow> (rchar \<times> rstr) option" where
  "utf8_next [] = None"
| "utf8_next (a # r) =
     (if a < 0x80 then Some (unat a, r)
      else if 0xC2 \<le> a \<and> a \<le> 0xDF then
        (case r of b # r1 \<Rightarrow>
           if is_cont b then Some ((unat a - 0xC0) * 64 + (unat b - 0x80), r1) else None
         | [] \<Rightarrow> None)
      else if 0xE0 \<le> a \<and> a \<le> 0xEF then
        (case r of b # c # r1 \<Rightarrow>
           if is_cont b \<and> is_cont c \<and> (a = 0xE0 \<longrightarrow> 0xA0 \<le> b) \<and> (a = 0xED \<longrightarrow> b \<le> 0x9F)
           then Some ((unat a - 0xE0) * 4096 + (unat b - 0x80) * 64 + (unat c - 0x80), r1)
           else None
         | _ \<Rightarrow> None)
      else if 0xF0 \<le> a \<and> a \<le> 0xF4 then
        (case r of b # c # d # r1 \<Rightarrow>
           if is_cont b \<and> is_cont c \<and> is_cont d
              \<and> (a = 0xF0 \<longrightarrow> 0x90 \<le> b) \<and> (a = 0xF4 \<longrightarrow> b \<le> 0x8F)
           then Some ((unat a - 0xF0) * 262144 + (unat b - 0x80) * 4096
                      + (unat c - 0x80) * 64 + (unat d - 0x80), r1)
           else None
         | _ \<Rightarrow> None)
      else None)"

lemma utf8_next_shorter: "utf8_next bs = Some (c, r) \<Longrightarrow> length r < length bs"
  by (cases bs) (auto split: if_splits list.splits)

function chars_of :: "rstr \<Rightarrow> rchar list option" where
  "chars_of bs =
     (if bs = [] then Some []
      else case utf8_next bs of
          None \<Rightarrow> None
        | Some (c, r) \<Rightarrow> (case chars_of r of None \<Rightarrow> None | Some cs \<Rightarrow> Some (c # cs)))"
  by pat_completeness auto
termination
  by (relation "measure length") (auto dest: utf8_next_shorter)

declare chars_of.simps [simp del]

definition from_utf8 :: "u8 list \<Rightarrow> rstr option" where
  "from_utf8 bs = (if chars_of bs = None then None else Some bs)"

definition is_scalar :: "rchar \<Rightarrow> bool" where
  "is_scalar c \<longleftrightarrow> c < 0xD800 \<or> (0xE000 \<le> c \<and> c < 0x110000)"

definition encode_utf8 :: "rchar \<Rightarrow> rstr" where
  "encode_utf8 c =
     (if c < 0x80 then [of_nat c]
      else if c < 0x800 then [of_nat (0xC0 + c div 64), of_nat (0x80 + c mod 64)]
      else if c < 0x10000 then
        [of_nat (0xE0 + c div 4096), of_nat (0x80 + c div 64 mod 64), of_nat (0x80 + c mod 64)]
      else
        [of_nat (0xF0 + c div 262144), of_nat (0x80 + c div 4096 mod 64),
         of_nat (0x80 + c div 64 mod 64), of_nat (0x80 + c mod 64)])"

definition encode_str :: "rchar list \<Rightarrow> rstr" where
  "encode_str cs = concat (map encode_utf8 cs)"

definition is_control :: "rchar \<Rightarrow> bool" where
  "is_control c \<longleftrightarrow> c < 0x20 \<or> (0x7F \<le> c \<and> c \<le> 0x9F)"

lemma word8_le_nat:
  "(a :: u8) \<le> b \<longleftrightarrow> unat a \<le> unat b" "(a :: u8) < b \<longleftrightarrow> unat a < unat b"
  "(a :: u8) = b \<longleftrightarrow> unat a = unat b"
  by (simp_all add: word_le_nat_alt word_less_nat_alt word_unat_eq_iff)

lemma base64_digits:
  "c = c div 4096 * 4096 + c div 64 mod 64 * 64 + c mod (64::nat)"
  "c = c div 262144 * 262144 + c div 4096 mod 64 * 4096 + c div 64 mod 64 * 64 + c mod 64"
proof -
  have q: "c = c div 64 * 64 + c mod 64" "c div 64 = c div 4096 * 64 + c div 64 mod 64"
    "c div 4096 = c div 262144 * 64 + c div 4096 mod 64"
    using div_mult_mod_eq[of c 64] div_mult_mod_eq[of "c div 64" 64]
      div_mult_mod_eq[of "c div 4096" 64]
    by (simp_all flip: div_mult2_eq)
  show "c = c div 4096 * 4096 + c div 64 mod 64 * 64 + c mod 64"
    using q by linarith
  show "c = c div 262144 * 262144 + c div 4096 mod 64 * 4096 + c div 64 mod 64 * 64 + c mod 64"
    using q by linarith
qed

lemma utf8_next_encode:
  assumes "is_scalar c"
  shows "utf8_next (encode_utf8 c @ r) = Some (c, r)"
proof -
  consider "c < 0x80" | "0x80 \<le> c" "c < 0x800" | "0x800 \<le> c" "c < 0x10000"
    | "0x10000 \<le> c" "c < 0x110000"
    using assms by (fastforce simp: is_scalar_def)
  then show ?thesis
  proof cases
    case 1
    then show ?thesis
      by (simp add: encode_utf8_def word8_le_nat unat_of_nat_u8)
  next
    case 2
    then have "c div 64 < 32" "2 \<le> c div 64" by simp_all
    with 2 show ?thesis
      by (simp add: encode_utf8_def word8_le_nat unat_of_nat_u8 is_cont_def del: of_nat_add)
  next
    case 3
    define h m l where "h = c div 4096" and "m = c div 64 mod 64" and "l = c mod 64"
    have c: "c = h * 4096 + m * 64 + l" and b: "m < 64" "l < 64"
      using base64_digits(1)[of c] by (simp_all add: h_def m_def l_def)
    have e: "encode_utf8 c = [of_nat (0xE0 + h), of_nat (0x80 + m), of_nat (0x80 + l)]"
      using 3 by (simp add: encode_utf8_def h_def m_def l_def del: of_nat_add)
    have "h < 16" "h = 0 \<Longrightarrow> 32 \<le> m" "h = 13 \<Longrightarrow> m \<le> 31"
      using 3 b c assms by (auto simp: is_scalar_def)
    then show ?thesis using b unfolding e
      by (simp add: word8_le_nat unat_of_nat_u8 is_cont_def c del: of_nat_add)
  next
    case 4
    define h k m l where "h = c div 262144" and "k = c div 4096 mod 64"
      and "m = c div 64 mod 64" and "l = c mod 64"
    have c: "c = h * 262144 + k * 4096 + m * 64 + l" and b: "k < 64" "m < 64" "l < 64"
      using base64_digits(2)[of c] by (simp_all add: h_def k_def m_def l_def)
    have e: "encode_utf8 c =
        [of_nat (0xF0 + h), of_nat (0x80 + k), of_nat (0x80 + m), of_nat (0x80 + l)]"
      using 4 by (simp add: encode_utf8_def h_def k_def m_def l_def del: of_nat_add)
    have "h < 5" "h = 0 \<Longrightarrow> 16 \<le> k" "h = 4 \<Longrightarrow> k \<le> 15"
      using 4 b c by auto
    then show ?thesis using b unfolding e
      by (simp add: word8_le_nat unat_of_nat_u8 is_cont_def c del: of_nat_add)
  qed
qed

lemma encode_utf8_nonempty [simp]: "encode_utf8 c \<noteq> []"
  by (simp add: encode_utf8_def)

lemma encode_str_simps [simp]:
  "encode_str [] = []" "encode_str (c # cs) = encode_utf8 c @ encode_str cs"
  by (simp_all add: encode_str_def)

lemma chars_of_encode_str:
  "\<forall>c\<in>set cs. is_scalar c \<Longrightarrow> chars_of (encode_str cs) = Some cs"
proof (induction cs)
  case Nil
  then show ?case by (simp add: chars_of.simps)
next
  case (Cons c cs)
  then show ?case
    by (subst chars_of.simps) (simp add: utf8_next_encode)
qed

lemma from_utf8_encode_str:
  "\<forall>c\<in>set cs. is_scalar c \<Longrightarrow> from_utf8 (encode_str cs) = Some (encode_str cs)"
  by (simp add: from_utf8_def chars_of_encode_str)

lemma from_utf8_Some [simp]: "from_utf8 bs = Some s \<Longrightarrow> s = bs"
  by (simp add: from_utf8_def split: if_splits)

lemma chars_of_ascii_bytes:
  "\<forall>b\<in>set bs. b < 0x80 \<Longrightarrow> chars_of bs = Some (map unat bs)"
proof (induction bs)
  case Nil
  then show ?case by (simp add: chars_of.simps)
next
  case (Cons b bs)
  then show ?case by (subst chars_of.simps) simp
qed

lemma from_utf8_ascii_bytes: "\<forall>b\<in>set bs. b < 0x80 \<Longrightarrow> from_utf8 bs = Some bs"
  by (simp add: from_utf8_def chars_of_ascii_bytes)

lemma is_scalar_usize: "is_scalar c \<Longrightarrow> c < usize_limit"
  by (auto simp: is_scalar_def)

lemma utf8_value_bound:
  fixes a b c d :: u8
  shows "unat a < usize_limit"
    "(unat a - i) * 64 + (unat b - j) < usize_limit"
    "(unat a - i) * 4096 + (unat b - j) * 64 + (unat c - k) < usize_limit"
    "(unat a - i) * 262144 + (unat b - j) * 4096 + (unat c - k) * 64 + (unat d - l) < usize_limit"
  using unat_u8_less[of a] unat_u8_less[of b] unat_u8_less[of c] unat_u8_less[of d]
  by linarith+

lemma utf8_next_bound: "utf8_next bs = Some (c, r) \<Longrightarrow> c < usize_limit"
  by (cases bs) (auto split: if_splits list.splits intro: utf8_value_bound simp del: One_nat_def)

lemma chars_of_bound: "chars_of bs = Some cs \<Longrightarrow> \<forall>c\<in>set cs. c < usize_limit"
proof (induction bs arbitrary: cs rule: chars_of.induct)
  case (1 bs)
  show ?case
  proof (cases "bs = []")
    case False
    with 1(2) obtain c r ds where "utf8_next bs = Some (c, r)" "chars_of r = Some ds" "cs = c # ds"
      by (subst (asm) chars_of.simps) (auto split: option.splits)
    with 1(1)[of "(c, r)" c r ds] False utf8_next_bound[of bs c r] show ?thesis by simp
  qed (use 1(2) in \<open>simp add: chars_of.simps\<close>)
qed


section \<open>Memory\<close>

text \<open>Byte-addressed memory, a slice made from a raw pointer, and a store through one.\<close>

type_synonym memory = "u64 \<Rightarrow> u8"

definition read_mem :: "memory \<Rightarrow> u64 \<Rightarrow> nat \<Rightarrow> u8 list" where
  "read_mem mem addr n = map (\<lambda>i. mem (addr + of_nat i)) [0..<n]"

definition write_mem :: "u64 \<Rightarrow> u8 list \<Rightarrow> memory \<Rightarrow> memory" where
  "write_mem addr bs mem = (\<lambda>a. if unat (a - addr) < length bs then bs ! unat (a - addr) else mem a)"

lemma length_read_mem [simp]: "length (read_mem mem p n) = n"
  by (simp add: read_mem_def)

lemma take_read_mem: "k \<le> n \<Longrightarrow> read_mem mem p k = take k (read_mem mem p n)"
  by (simp add: read_mem_def take_map)

lemma write_mem_outside: "length bs \<le> unat (a - p) \<Longrightarrow> write_mem p bs mem a = mem a"
  by (simp add: write_mem_def)

lemma read_write_mem: "length bs < usize_limit \<Longrightarrow> read_mem (write_mem p bs mem) p (length bs) = bs"
  by (auto simp: read_mem_def write_mem_def intro!: nth_equalityI)

lemma write_mem_inside:
  "k < length bs \<Longrightarrow> length bs \<le> usize_limit \<Longrightarrow> write_mem p bs mem (p + of_nat k) = bs ! k"
  by (simp add: write_mem_def)

lemma write_mem_at:
  assumes "d + length bs \<le> usize_limit" "i < usize_limit"
  shows "write_mem (p + of_nat d) bs mem (p + of_nat i)
    = (if d \<le> i \<and> i < d + length bs then bs ! (i - d) else mem (p + of_nat i))"
proof (cases "d \<le> i")
  case True
  then have "(p + of_nat i) - (p + of_nat d) = (of_nat (i - d) :: u64)" by simp
  moreover have "unat (of_nat (i - d) :: u64) = i - d" using assms(2) by (intro unat_of_nat_u64) simp
  ultimately have e: "unat ((p + of_nat i) - (p + of_nat d)) = i - d" by (simp only:)
  show ?thesis unfolding write_mem_def e using True by auto
next
  case False
  have "(p + of_nat i) - (p + of_nat d) = (of_nat (usize_limit - (d - i)) :: u64)"
    using False assms(1) by (simp add: of_nat_diff)
  moreover have "unat (of_nat (usize_limit - (d - i)) :: u64) = usize_limit - (d - i)"
    using False assms(1) by (intro unat_of_nat_u64) simp
  ultimately have e: "unat ((p + of_nat i) - (p + of_nat d)) = usize_limit - (d - i)" by (simp only:)
  show ?thesis unfolding write_mem_def e using False assms(1) by auto
qed

lemma read_mem_inside:
  assumes "k + n \<le> length bs" "length bs < usize_limit"
  shows "read_mem (write_mem p bs mem) (p + of_nat k) n = sub_slice k (k + n) bs"
proof (rule nth_equalityI)
  fix i assume "i < length (read_mem (write_mem p bs mem) (p + of_nat k) n)"
  then have i: "i < n" by simp
  have "write_mem p bs mem (p + of_nat k + of_nat i) = bs ! (k + i)"
    using write_mem_inside[of "k + i" bs p mem] assms i by (simp add: add.assoc)
  with i assms show "read_mem (write_mem p bs mem) (p + of_nat k) n ! i = sub_slice k (k + n) bs ! i"
    by (simp add: read_mem_def)
qed (use assms in simp)

lemma sub_slice_sub_slice:
  "a \<le> b \<Longrightarrow> j \<le> b - a \<Longrightarrow> sub_slice i j (sub_slice a b xs) = sub_slice (a + i) (a + j) xs"
  by (simp add: sub_slice_def drop_take min_def add.commute)

end
