(* ===== verification/Fifo.thy ===== *)
theory Fifo
  imports Bytes
begin

text \<open>
  The queue interface.  The kernel keeps a \<open>VecDeque\<close> in three places: the keyboard buffer, the
  terminal's queue of lines and the scheduler's ready queue.  A client sees an operation that takes
  the oldest element out and, for a bounded queue, one that puts an element in while there is room.
\<close>

fun drain :: "('s \<Rightarrow> 'a option \<times> 's) \<Rightarrow> nat \<Rightarrow> 's \<Rightarrow> 'a list \<times> 's" where
  "drain pop 0 s = ([], s)"
| "drain pop (Suc n) s =
     (case pop s of (None, s') \<Rightarrow> ([], s')
      | (Some x, s') \<Rightarrow> (case drain pop n s' of (xs, t) \<Rightarrow> (x # xs, t)))"

locale fifo =
  fixes contents :: "'s \<Rightarrow> 'a list"
    and pop :: "'s \<Rightarrow> 'a option \<times> 's"
  assumes pop_empty: "contents s = [] \<Longrightarrow> pop s = (None, s)"
    and pop_nonempty: "contents s = x # xs \<Longrightarrow> \<exists>s'. pop s = (Some x, s') \<and> contents s' = xs"
begin

lemma drain_in_order:
  "fst (drain pop n s) = take n (contents s) \<and> contents (snd (drain pop n s)) = drop n (contents s)"
proof (induction n arbitrary: s)
  case (Suc n)
  show ?case
  proof (cases "contents s")
    case Nil
    then show ?thesis by (simp add: pop_empty)
  next
    case (Cons x xs)
    with pop_nonempty obtain s' where "pop s = (Some x, s')" "contents s' = xs" by blast
    with Suc[of s'] Cons show ?thesis by (simp add: split_beta)
  qed
qed simp

lemma drain_all: "length (contents s) \<le> n \<Longrightarrow> fst (drain pop n s) = contents s"
  by (simp add: drain_in_order)

end

locale bounded_fifo = fifo contents pop
  for contents :: "'s \<Rightarrow> 'a list" and pop :: "'s \<Rightarrow> 'a option \<times> 's" +
  fixes push :: "'a \<Rightarrow> 's \<Rightarrow> 's"
    and capacity :: nat
  assumes push_room: "length (contents s) < capacity \<Longrightarrow> contents (push x s) = contents s @ [x]"
    and push_full: "capacity \<le> length (contents s) \<Longrightarrow> push x s = s"
begin

lemma push_bound: "length (contents s) \<le> capacity \<Longrightarrow> length (contents (push x s)) \<le> capacity"
  by (cases "length (contents s) < capacity") (simp_all add: push_room push_full)

lemma push_all:
  "length (contents s) \<le> capacity \<Longrightarrow>
   contents (fold push xs s) = contents s @ take (capacity - length (contents s)) xs"
proof (induction xs arbitrary: s)
  case (Cons x xs)
  show ?case
  proof (cases "length (contents s) < capacity")
    case True
    then have "capacity - length (contents s) = Suc (capacity - length (contents (push x s)))"
      by (simp add: push_room)
    with Cons.IH[OF push_bound[OF Cons.prems], of x] True show ?thesis by (simp add: push_room)
  next
    case False
    with Cons.IH[OF Cons.prems] show ?thesis by (simp add: push_full)
  qed
qed simp

lemma push_then_drain:
  "contents s = [] \<Longrightarrow> fst (drain pop capacity (fold push xs s)) = take capacity xs"
  using drain_all[of "fold push xs s" capacity] push_all[of s xs] by simp

end

end
