(* ===== verification/Console.thy ===== *)
theory Console
  imports Bytes
begin

text \<open>
  The frame buffer driver, the PSF2 font and the text console
  (\<^verbatim>\<open>kernel/src/drivers/video/mod.rs\<close>, \<^verbatim>\<open>psf.rs\<close>).  Video memory is a function from
  pixel index to the 32-bit cell at \<open>fb.addr + 4 * index\<close>: every access of the driver is to such
  a cell, and the address arithmetic that reaches it is part of each operation.  The statics
  \<open>FRAMEBUFFER\<close> and \<open>CONSOLE\<close> are the fields of the record \<open>screen\<close>.
\<close>


section \<open>PSF2 fonts\<close>

record psf2_header =
  psf_magic :: "u8 list"
  psf_version :: u32
  psf_header_size :: u32
  psf_flags :: u32
  psf_length :: u32
  psf_char_size :: u32
  psf_height :: u32
  psf_width :: u32

record psf2_font =
  font_header :: psf2_header
  font_glyphs :: "u8 list"

definition psf2_read_header :: "u8 list \<Rightarrow> psf2_header" where
  "psf2_read_header data =
     \<lparr>psf_magic = sub_slice 0 4 data,
      psf_version = le_u32 (sub_slice 4 8 data),
      psf_header_size = le_u32 (sub_slice 8 12 data),
      psf_flags = le_u32 (sub_slice 12 16 data),
      psf_length = le_u32 (sub_slice 16 20 data),
      psf_char_size = le_u32 (sub_slice 20 24 data),
      psf_height = le_u32 (sub_slice 24 28 data),
      psf_width = le_u32 (sub_slice 28 32 data)\<rparr>"

definition psf2_font_new :: "u8 list \<Rightarrow> psf2_font option run" where
  "psf2_font_new data =
     (if length data < 32 then Done None
      else let header = psf2_read_header data in
        if psf_magic header \<noteq> [0x72, 0xb5, 0x4a, 0x86] then Done None
        else
          let glyphs_start = unat (psf_header_size header) in
          run_bind (mul_or_panic (psf_length header) (psf_char_size header)) (\<lambda>n.
          run_bind (usize_add glyphs_start (unat n)) (\<lambda>glyphs_end.
            if length data < glyphs_end then Done None
            else run_bind (slice_or_panic glyphs_start glyphs_end data) (\<lambda>glyphs.
              Done (Some \<lparr>font_header = header, font_glyphs = glyphs\<rparr>)))))"

definition get_glyph :: "psf2_font \<Rightarrow> rchar \<Rightarrow> u8 list option run" where
  "get_glyph font c =
     (if unat (psf_length (font_header font)) \<le> c then Done None
      else run_bind (usize_mul c (unat (psf_char_size (font_header font)))) (\<lambda>start.
        run_bind (usize_add start (unat (psf_char_size (font_header font)))) (\<lambda>end.
        run_bind (slice_or_panic start end (font_glyphs font)) (\<lambda>glyph. Done (Some glyph)))))"


section \<open>The frame buffer\<close>

record boot_framebuffer =
  bfb_addr :: u64
  bfb_size :: u64
  bfb_width :: u32
  bfb_height :: u32
  bfb_pitch :: u32
  bfb_format :: u32

record framebuffer =
  fb_addr :: u64
  fb_width :: u32
  fb_height :: u32
  fb_pitch :: u32
  fb_format :: u32

type_synonym vram = "nat \<Rightarrow> u32"

definition framebuffer_new :: "boot_framebuffer \<Rightarrow> framebuffer" where
  "framebuffer_new b =
     \<lparr>fb_addr = bfb_addr b, fb_width = bfb_width b, fb_height = bfb_height b,
      fb_pitch = bfb_pitch b, fb_format = bfb_format b\<rparr>"

definition encode_color :: "u32 \<Rightarrow> u32 \<Rightarrow> u32" where
  "encode_color format color =
     (if format = 1 then color
      else let red = drop_bit 16 (color AND 0x00ff0000);
               green = color AND 0x0000ff00;
               blue = push_bit 16 (color AND 0x000000ff)
           in blue OR green OR red)"

definition set_pixel :: "framebuffer \<Rightarrow> u32 \<Rightarrow> u32 \<Rightarrow> u32 \<Rightarrow> vram \<Rightarrow> vram run" where
  "set_pixel fb x y color m =
     (if fb_width fb \<le> x \<or> fb_height fb \<le> y then Done m
      else run_bind (mul_or_panic y (fb_pitch fb)) (\<lambda>r.
        run_bind (add_or_panic r x) (\<lambda>i.
        run_bind (add_or_panic (fb_addr fb) (of_nat (unat i * 4))) (\<lambda>ptr.
          Done (m(unat i := encode_color (fb_format fb) color))))))"

definition fb_clear :: "framebuffer \<Rightarrow> u32 \<Rightarrow> vram \<Rightarrow> vram run" where
  "fb_clear fb color m =
     run_bind (mul_or_panic (fb_height fb) (fb_pitch fb)) (\<lambda>n.
       run_fold (\<lambda>i m. run_bind (add_or_panic (fb_addr fb) (of_nat (i * 4)))
                    (\<lambda>ptr. Done (m(i := color)))) [0..<unat n] m)"

definition draw_rect :: "framebuffer \<Rightarrow> u32 \<Rightarrow> u32 \<Rightarrow> u32 \<Rightarrow> u32 \<Rightarrow> u32 \<Rightarrow> vram \<Rightarrow> vram run" where
  "draw_rect fb x y w h color m =
     run_bind (add_or_panic y h) (\<lambda>y_end.
       run_fold (\<lambda>i m. run_bind (add_or_panic x w) (\<lambda>x_end.
           run_fold (\<lambda>j. set_pixel fb (of_nat j) (of_nat i) color) [unat x..<unat x_end] m))
         [unat y..<unat y_end] m)"


section \<open>The text console\<close>

record text_console =
  con_font :: psf2_font
  cursor_x :: u32
  cursor_y :: u32
  foreground :: u32
  background :: u32

abbreviation font_width :: "text_console \<Rightarrow> u32" where
  "font_width con \<equiv> psf_width (font_header (con_font con))"

abbreviation font_height :: "text_console \<Rightarrow> u32" where
  "font_height con \<equiv> psf_height (font_header (con_font con))"

definition text_console_new :: "psf2_font \<Rightarrow> text_console" where
  "text_console_new font =
     \<lparr>con_font = font, cursor_x = 0, cursor_y = 0,
      foreground = 0xFFFFFF, background = 0x001a2a\<rparr>"

definition scroll :: "framebuffer \<Rightarrow> text_console \<times> vram \<Rightarrow> (text_console \<times> vram) run" where
  "scroll fb s = (case s of (con, m) \<Rightarrow>
     run_bind (mul_or_panic (fb_pitch fb) (font_height con)) (\<lambda>line.
     run_bind (usize_mul (unat line) 4) (\<lambda>line_size.
     run_bind (mul_or_panic (fb_pitch fb) (fb_height fb)) (\<lambda>total.
     run_bind (usize_mul (unat total) 4) (\<lambda>total_size.
     run_bind (add_or_panic (fb_addr fb) (of_nat line_size)) (\<lambda>src.
     run_bind (usize_sub total_size line_size) (\<lambda>n.
       let moved = (\<lambda>i. if i < n div 4 then m (i + line_size div 4) else m i) in
     run_bind (add_or_panic (fb_addr fb) (of_nat n)) (\<lambda>last_line_ptr.
       let cleared = (\<lambda>i. if n div 4 \<le> i \<and> i < n div 4 + line_size div 4
                          then background con else moved i) in
     run_bind (sub_or_panic (fb_height fb) (font_height con)) (\<lambda>cy.
       Done (con\<lparr>cursor_y := cy\<rparr>, cleared))))))))))"

definition newline_locked :: "framebuffer \<Rightarrow> text_console \<times> vram \<Rightarrow> (text_console \<times> vram) run" where
  "newline_locked fb s = (case s of (con, m) \<Rightarrow>
     let con = con\<lparr>cursor_x := 0\<rparr> in
     run_bind (mul_or_panic 2 (font_height con)) (\<lambda>fh2.
     run_bind (add_or_panic (cursor_y con) fh2) (\<lambda>below.
       if fb_height fb < below then scroll fb (con, m)
       else run_bind (add_or_panic (cursor_y con) (font_height con)) (\<lambda>cy.
         Done (con\<lparr>cursor_y := cy\<rparr>, m)))))"

definition con_newline ::
  "framebuffer option \<Rightarrow> text_console \<times> vram \<Rightarrow> (text_console \<times> vram) run" where
  "con_newline fbo s = (case fbo of None \<Rightarrow> Done s | Some fb \<Rightarrow> newline_locked fb s)"

definition draw_glyph_pixel ::
  "framebuffer \<Rightarrow> text_console \<Rightarrow> u8 list \<Rightarrow> u32 \<Rightarrow> u32 \<Rightarrow> u32 \<Rightarrow> vram \<Rightarrow> vram run" where
  "draw_glyph_pixel fb con glyph bytes_per_line row col m =
     run_bind (mul_or_panic row bytes_per_line) (\<lambda>r.
     run_bind (add_or_panic r (col div 8)) (\<lambda>byte_idx.
     run_bind (sub_or_panic 7 (col mod 8)) (\<lambda>bit_idx.
     run_bind (index_or_panic (unat byte_idx) glyph) (\<lambda>byte.
       let is_set = (drop_bit (unat bit_idx) byte AND 1 = 1);
           color = (if is_set then foreground con else background con) in
     run_bind (add_or_panic (cursor_x con) col) (\<lambda>x.
     run_bind (add_or_panic (cursor_y con) row) (\<lambda>y.
       set_pixel fb x y color m))))))"

definition draw_glyph ::
  "framebuffer \<Rightarrow> text_console \<Rightarrow> u8 list \<Rightarrow> u32 \<Rightarrow> vram \<Rightarrow> vram run" where
  "draw_glyph fb con glyph bytes_per_line m =
     run_fold (\<lambda>row. run_fold (\<lambda>col.
         draw_glyph_pixel fb con glyph bytes_per_line (of_nat row) (of_nat col))
       [0..<unat (font_width con)]) [0..<unat (font_height con)] m"

definition con_write_char ::
  "framebuffer option \<Rightarrow> rchar \<Rightarrow> text_console \<times> vram \<Rightarrow> (text_console \<times> vram) run" where
  "con_write_char fbo c s =
     (if c = 10 then con_newline fbo s
      else run_bind (get_glyph (con_font (fst s)) c) (\<lambda>g. case g of
        None \<Rightarrow> Done s
      | Some glyph \<Rightarrow>
        run_bind (add_or_panic (font_width (fst s)) 7) (\<lambda>w7.
          let bytes_per_line = w7 div 8 in
          case fbo of None \<Rightarrow> Done s
          | Some fb \<Rightarrow>
            run_bind (add_or_panic (cursor_x (fst s)) (font_width (fst s))) (\<lambda>right.
            run_bind (if fb_width fb < right then newline_locked fb s else Done s) (\<lambda>(con, m).
            run_bind (draw_glyph fb con glyph bytes_per_line m) (\<lambda>m'.
            run_bind (add_or_panic (cursor_x con) (font_width con)) (\<lambda>cx.
              Done (con\<lparr>cursor_x := cx\<rparr>, m'))))))))"

definition con_backspace ::
  "framebuffer option \<Rightarrow> text_console \<times> vram \<Rightarrow> (text_console \<times> vram) run" where
  "con_backspace fbo s = (case s of (con, m) \<Rightarrow>
     if font_width con \<le> cursor_x con then
       let con = con\<lparr>cursor_x := cursor_x con - font_width con\<rparr> in
       case fbo of None \<Rightarrow> Done (con, m)
       | Some fb \<Rightarrow> run_bind (draw_rect fb (cursor_x con) (cursor_y con)
                      (font_width con) (font_height con) (background con) m)
                    (\<lambda>m'. Done (con, m'))
     else Done (con, m))"

definition con_write_str ::
  "framebuffer option \<Rightarrow> rchar list \<Rightarrow> text_console \<times> vram \<Rightarrow> (text_console \<times> vram) run" where
  "con_write_str fbo cs s = run_fold (con_write_char fbo) cs s"


section \<open>The statics and the module's entry points\<close>

record screen =
  scr_fb :: "framebuffer option"
  scr_console :: "text_console option"
  scr_vram :: vram

text \<open>\<open>if let Some(ref mut console) = *CONSOLE.lock()\<close>: an operation on the console, if there is
  one.\<close>

definition with_console ::
  "(framebuffer option \<Rightarrow> text_console \<times> vram \<Rightarrow> (text_console \<times> vram) run) \<Rightarrow> screen \<Rightarrow> screen run"
  where
  "with_console f scr = (case scr_console scr of
       None \<Rightarrow> Done scr
     | Some con \<Rightarrow> run_bind (f (scr_fb scr) (con, scr_vram scr)) (\<lambda>(con', m').
         Done (scr\<lparr>scr_console := Some con', scr_vram := m'\<rparr>)))"

definition video_init :: "boot_framebuffer \<Rightarrow> screen \<Rightarrow> screen run" where
  "video_init info scr =
     (if bfb_addr info = 0 then Done scr
      else let f = framebuffer_new info in
        run_bind (fb_clear f 0x001a2a (scr_vram scr)) (\<lambda>m1.
        run_bind (draw_rect f 20 20 100 100 0x00aaff m1) (\<lambda>m2.
        run_bind (draw_rect f 140 20 100 100 0xffaa00 m2) (\<lambda>m3.
        run_bind (draw_rect f 260 20 100 100 0x00ffaa m3) (\<lambda>m4.
          Done (scr\<lparr>scr_fb := Some f, scr_vram := m4\<rparr>))))))"

definition init_console :: "u8 list \<Rightarrow> screen \<Rightarrow> screen run" where
  "init_console data scr =
     run_bind (psf2_font_new data) (\<lambda>font. case font of
       None \<Rightarrow> Done scr
     | Some f \<Rightarrow> Done (scr\<lparr>scr_console := Some (text_console_new f)\<rparr>))"

definition video_write_str :: "rchar list \<Rightarrow> screen \<Rightarrow> screen run" where
  "video_write_str cs = with_console (\<lambda>fbo. con_write_str fbo cs)"

definition video_write_char :: "rchar \<Rightarrow> screen \<Rightarrow> screen run" where
  "video_write_char c = with_console (\<lambda>fbo. con_write_char fbo c)"

end
