(* ===== verification/Console_Screen.thy ===== *)
theory Console_Screen
  imports Console
begin

text \<open>
  The text console stays on the screen: geometry of frame buffer and font, what each drawing
  operation does to video memory, the invariant every console operation keeps, and the properties
  of the console.
\<close>


section \<open>Geometry\<close>

definition fb_wf :: "framebuffer \<Rightarrow> bool" where
  "fb_wf fb \<longleftrightarrow> unat (fb_width fb) \<le> unat (fb_pitch fb)
     \<and> unat (fb_height fb) * unat (fb_pitch fb) < 2 ^ 32
     \<and> unat (fb_addr fb) + 4 * (unat (fb_height fb) * unat (fb_pitch fb)) < 2 ^ 64
     \<and> unat (fb_width fb) < 2 ^ 31 \<and> unat (fb_height fb) < 2 ^ 30"

definition font_wf :: "psf2_font \<Rightarrow> bool" where
  "font_wf font \<longleftrightarrow>
     length (font_glyphs font)
       = unat (psf_length (font_header font)) * unat (psf_char_size (font_header font))
     \<and> unat (psf_height (font_header font)) * ((unat (psf_width (font_header font)) + 7) div 8)
       \<le> unat (psf_char_size (font_header font))"

definition console_inv :: "framebuffer \<Rightarrow> text_console \<Rightarrow> bool" where
  "console_inv fb con \<longleftrightarrow> fb_wf fb \<and> font_wf (con_font con)
     \<and> unat (font_width con) \<le> unat (fb_width fb)
     \<and> unat (font_height con) \<le> unat (fb_height fb)
     \<and> unat (cursor_x con) \<le> unat (fb_width fb)
     \<and> unat (cursor_y con) + unat (font_height con) \<le> unat (fb_height fb)"

abbreviation fb_cells :: "framebuffer \<Rightarrow> nat" where
  "fb_cells fb \<equiv> unat (fb_height fb) * unat (fb_pitch fb)"

lemma pixel_in_range:
  assumes "fb_wf fb" "x < unat (fb_width fb)" "y < unat (fb_height fb)"
  shows "y * unat (fb_pitch fb) + x < fb_cells fb"
proof -
  have "y * unat (fb_pitch fb) + x < Suc y * unat (fb_pitch fb)"
    using assms by (simp add: fb_wf_def)
  also have "\<dots> \<le> fb_cells fb" using assms by (intro mult_le_mono1) simp
  finally show ?thesis .
qed

lemma fb_addr_ok:
  assumes "fb_wf fb" "n \<le> 4 * fb_cells fb"
  shows "add_or_panic (fb_addr fb) (of_nat n) = Done (fb_addr fb + of_nat n)"
proof -
  have b: "unat (fb_addr fb) + n < usize_limit"
    using assms by (auto simp: fb_wf_def)
  then have "unat (of_nat n :: u64) = n" by (intro unat_of_nat_u64) simp
  with b show ?thesis by (simp add: add_or_panic_def)
qed

lemma set_pixel_Done:
  assumes "fb_wf fb"
  shows "set_pixel fb x y color m =
    Done (if x < fb_width fb \<and> y < fb_height fb
          then m(unat y * unat (fb_pitch fb) + unat x := encode_color (fb_format fb) color)
          else m)"
proof (cases "x < fb_width fb \<and> y < fb_height fb")
  case True
  then have xy: "unat x < unat (fb_width fb)" "unat y < unat (fb_height fb)"
    by (auto simp: word_less_nat_alt)
  note r = pixel_in_range[OF assms xy]
  have b: "fb_cells fb < 2 ^ 32" "unat (fb_addr fb) + 4 * fb_cells fb < 2 ^ 64"
    using assms by (auto simp: fb_wf_def)
  have m1: "unat y * unat (fb_pitch fb) < 2 ^ 32" using r b by linarith
  then have u1: "unat (y * fb_pitch fb) = unat y * unat (fb_pitch fb)"
    by (intro unat_mul_no_wrap) simp
  define i where "i = y * fb_pitch fb + x"
  have u2: "unat i = unat y * unat (fb_pitch fb) + unat x"
    using r b by (subst i_def, subst unat_add_no_wrap) (auto simp: u1)
  have s: "mul_or_panic y (fb_pitch fb) = Done (y * fb_pitch fb)"
    "add_or_panic (y * fb_pitch fb) x = Done i"
    using m1 r b by (simp_all add: mul_or_panic_def add_or_panic_def u1 i_def)
  have "add_or_panic (fb_addr fb) (of_nat (unat i * 4)) = Done (fb_addr fb + of_nat (unat i * 4))"
    using r by (intro fb_addr_ok[OF assms]) (simp add: u2)
  then have "set_pixel fb x y color m = Done (m(unat i := encode_color (fb_format fb) color))"
    using True s by (simp add: set_pixel_def not_le[symmetric])
  with True u2 show ?thesis by simp
next
  case False
  then show ?thesis by (auto simp: set_pixel_def not_less)
qed


section \<open>Drawing a glyph\<close>

lemma cell_split:
  "X < p \<Longrightarrow> i = Y * p + X \<longleftrightarrow> i div p = Y \<and> i mod p = (X :: nat)"
  by (auto simp: div_mult_mod_eq[symmetric])

lemma fold_row:
  "cx + n \<le> p \<Longrightarrow> fold (\<lambda>col m. m(Y * p + (cx + col) := c col)) [0..<n] m =
     (\<lambda>i. if i div p = Y \<and> cx \<le> i mod p \<and> i mod p < cx + n then c (i mod p - cx) else m i)"
proof (induction n)
  case (Suc n)
  then show ?case
    by (auto simp: fun_eq_iff cell_split[of "cx + n" p])
qed (auto simp: fun_eq_iff)

lemma fold_rows:
  "fold (\<lambda>row m i. if i div p = Y + row \<and> P (i mod p) then c row (i mod p) else m i) [0..<n] m =
     (\<lambda>i. if Y \<le> i div p \<and> i div p < Y + n \<and> P (i mod p)
          then c (i div p - Y) (i mod p) else m i)"
  by (induction n) (auto simp: fun_eq_iff)

definition glyph_bit :: "nat \<Rightarrow> u8 list \<Rightarrow> nat \<Rightarrow> nat \<Rightarrow> bool" where
  "glyph_bit w glyph row col = bit (glyph ! (row * ((w + 7) div 8) + col div 8)) (7 - col mod 8)"

definition glyph_color :: "framebuffer \<Rightarrow> text_console \<Rightarrow> u8 list \<Rightarrow> nat \<Rightarrow> nat \<Rightarrow> u32" where
  "glyph_color fb con glyph row col = encode_color (fb_format fb)
     (if glyph_bit (unat (font_width con)) glyph row col then foreground con else background con)"

lemma and_one_bit: "drop_bit n (b :: u8) AND 1 = 1 \<longleftrightarrow> bit b n"
  by (simp add: and_one_eq bit_iff_odd_drop_bit odd_iff_mod_2_eq_one)

lemma glyph_index_in_range:
  assumes "col < w" "row < h" "h * ((w + 7) div 8) \<le> n"
  shows "row * ((w + 7) div 8) + col div 8 < (n :: nat)"
proof -
  have "col div 8 < (w + 7) div 8" using assms(1) by auto
  then have "row * ((w + 7) div 8) + col div 8 < Suc row * ((w + 7) div 8)" by simp
  also have "\<dots> \<le> h * ((w + 7) div 8)" using assms(2) by (intro mult_le_mono1) simp
  finally show ?thesis using assms(3) by simp
qed

lemma draw_glyph_pixel_Done:
  assumes inv: "console_inv fb con" and glyph: "length glyph = unat (psf_char_size (font_header (con_font con)))"
    and fit: "unat (cursor_x con) + unat (font_width con) \<le> unat (fb_width fb)"
    and bpl: "unat bpl = (unat (font_width con) + 7) div 8"
    and row: "row < unat (font_height con)" and col: "col < unat (font_width con)"
  shows "draw_glyph_pixel fb con glyph bpl (of_nat row) (of_nat col) m =
    Done (m((unat (cursor_y con) + row) * unat (fb_pitch fb) + (unat (cursor_x con) + col)
      := glyph_color fb con glyph row col))"
proof -
  have wf: "fb_wf fb" using inv by (simp add: console_inv_def)
  have big: "unat (font_height con) < 2 ^ 32" "unat (font_width con) < 2 ^ 32"
    "length glyph < 2 ^ 32"
    using unsigned_less[of "font_height con", where ?'a = nat]
      unsigned_less[of "font_width con", where ?'a = nat]
      unsigned_less[of "psf_char_size (font_header (con_font con))", where ?'a = nat] glyph
    by simp_all
  have u: "unat (of_nat row :: u32) = row" "unat (of_nat col :: u32) = col"
    using big row col by (simp_all add: unat_of_nat_u32)
  have dm: "unat (of_nat col div 8 :: u32) = col div 8" "unat (of_nat col mod 8 :: u32) = col mod 8"
    by (simp_all add: unat_div unat_mod u)
  have idx: "row * ((unat (font_width con) + 7) div 8) + col div 8 < length glyph"
    using inv glyph by (intro glyph_index_in_range[OF col row]) (simp add: console_inv_def font_wf_def)
  have i1: "mul_or_panic (of_nat row) bpl = Done (of_nat row * bpl)"
    and i1': "unat (of_nat row * bpl) = row * unat bpl"
    using idx big by (simp_all add: mul_or_panic_def u bpl unat_mul_no_wrap)
  define bi where "bi = of_nat row * bpl + of_nat col div 8"
  have i2: "add_or_panic (of_nat row * bpl) (of_nat col div 8) = Done bi"
    and i2': "unat bi = row * unat bpl + col div 8"
    using idx big by (simp_all add: add_or_panic_def i1' dm bpl bi_def unat_add_no_wrap)
  have le7: "(of_nat col mod 8 :: u32) \<le> 7" by (simp add: word_le_nat_alt dm)
  have i3: "sub_or_panic 7 (of_nat col mod 8 :: u32) = Done (7 - of_nat col mod 8)"
    and i3': "unat (7 - of_nat col mod 8 :: u32) = 7 - col mod 8"
    using le7 by (simp_all add: sub_or_panic_def unat_sub dm)
  let ?k = "row * ((unat (font_width con) + 7) div 8) + col div 8"
  have i4: "index_or_panic ?k glyph = Done (glyph ! ?k)"
    using idx by (simp add: index_or_panic_def)
  define x y where "x = cursor_x con + of_nat col" and "y = cursor_y con + of_nat row"
  have b: "unat (cursor_x con) + col < 2 ^ 32" "unat (cursor_y con) + row < 2 ^ 32"
    using inv fit row col by (auto simp: console_inv_def fb_wf_def)
  have i5: "add_or_panic (cursor_x con) (of_nat col) = Done x" "unat x = unat (cursor_x con) + col"
    and i6: "add_or_panic (cursor_y con) (of_nat row) = Done y" "unat y = unat (cursor_y con) + row"
    using b by (simp_all add: add_or_panic_def u x_def y_def unat_add_no_wrap)
  have vis: "x < fb_width fb" "y < fb_height fb"
    using inv fit row col by (auto simp: word_less_nat_alt i5 i6 console_inv_def)
  show ?thesis
    by (simp add: draw_glyph_pixel_def i1 i2 i3 i4 i5 i6 i3' and_one_bit Let_def
        set_pixel_Done[OF wf] vis glyph_color_def glyph_bit_def i2' bpl)
qed

lemma draw_glyph_Done:
  assumes inv: "console_inv fb con" and glyph: "length glyph = unat (psf_char_size (font_header (con_font con)))"
    and fit: "unat (cursor_x con) + unat (font_width con) \<le> unat (fb_width fb)"
    and bpl: "unat bpl = (unat (font_width con) + 7) div 8"
  shows "draw_glyph fb con glyph bpl m = Done (\<lambda>i.
    let y = i div unat (fb_pitch fb); x = i mod unat (fb_pitch fb) in
    if unat (cursor_y con) \<le> y \<and> y < unat (cursor_y con) + unat (font_height con)
       \<and> unat (cursor_x con) \<le> x \<and> x < unat (cursor_x con) + unat (font_width con)
    then glyph_color fb con glyph (y - unat (cursor_y con)) (x - unat (cursor_x con)) else m i)"
proof -
  let ?p = "unat (fb_pitch fb)" and ?cx = "unat (cursor_x con)" and ?cy = "unat (cursor_y con)"
  let ?w = "unat (font_width con)" and ?h = "unat (font_height con)"
  have p: "?cx + ?w \<le> ?p" using inv fit by (auto simp: console_inv_def fb_wf_def)
  have row: "run_fold (\<lambda>col. draw_glyph_pixel fb con glyph bpl (of_nat row) (of_nat col)) [0..<?w] m =
      Done (\<lambda>i. if i div ?p = ?cy + row \<and> (?cx \<le> i mod ?p \<and> i mod ?p < ?cx + ?w)
                then glyph_color fb con glyph row (i mod ?p - ?cx) else m i)"
    if "row < ?h" for row m
    using fold_row[OF p, of "?cy + row" "glyph_color fb con glyph row" m]
    by (subst run_fold_Done[where g = "\<lambda>col m. m((?cy + row) * ?p + (?cx + col)
          := glyph_color fb con glyph row col)"])
       (auto intro!: draw_glyph_pixel_Done assms that)
  show ?thesis unfolding draw_glyph_def
    by (subst run_fold_Done[OF row])
       (auto simp: fold_rows[where P = "\<lambda>x. ?cx \<le> x \<and> x < ?cx + ?w"
          and c = "\<lambda>row x. glyph_color fb con glyph row (x - ?cx)"] fun_eq_iff Let_def)
qed


section \<open>The console stays on the screen\<close>

definition console_step ::
  "framebuffer \<Rightarrow> text_console \<times> vram \<Rightarrow> text_console \<times> vram \<Rightarrow> bool" where
  "console_step fb s s' \<longleftrightarrow> console_inv fb (fst s')
     \<and> (\<forall>i\<ge>fb_cells fb. snd s' i = snd s i)
     \<and> con_font (fst s') = con_font (fst s)
     \<and> foreground (fst s') = foreground (fst s) \<and> background (fst s') = background (fst s)"

lemma console_step_refl: "console_inv fb (fst s) \<Longrightarrow> console_step fb s s"
  by (simp add: console_step_def)

lemma console_step_trans:
  "console_step fb s t \<Longrightarrow> console_step fb t u \<Longrightarrow> console_step fb s u"
  by (simp add: console_step_def)

lemma scroll_Done:
  assumes inv: "console_inv fb con"
  shows "scroll fb (con, m) = Done (con\<lparr>cursor_y := fb_height fb - font_height con\<rparr>,
    \<lambda>i. if i < (unat (fb_height fb) - unat (font_height con)) * unat (fb_pitch fb)
        then m (i + unat (font_height con) * unat (fb_pitch fb))
        else if i < fb_cells fb then background con else m i)"
proof -
  let ?p = "unat (fb_pitch fb)" and ?h = "unat (fb_height fb)" and ?fh = "unat (font_height con)"
  have wf: "fb_wf fb" and fh: "?fh \<le> ?h" using inv by (auto simp: console_inv_def)
  then have le: "?fh * ?p \<le> ?h * ?p" and b: "?h * ?p < 2 ^ 32"
    by (auto simp: fb_wf_def)
  have s1: "mul_or_panic (fb_pitch fb) (font_height con) = Done (fb_pitch fb * font_height con)"
    "unat (fb_pitch fb * font_height con) = ?fh * ?p"
    using le_less_trans[OF le b]
    by (simp_all add: mul_or_panic_def unat_mul_no_wrap mult.commute[of ?p])
  have s2: "mul_or_panic (fb_pitch fb) (fb_height fb) = Done (fb_pitch fb * fb_height fb)"
    "unat (fb_pitch fb * fb_height fb) = ?h * ?p"
    using b by (simp_all add: mul_or_panic_def unat_mul_no_wrap mult.commute[of ?p])
  have s3: "usize_mul (?fh * ?p) 4 = Done (?fh * ?p * 4)" "usize_mul (?h * ?p) 4 = Done (?h * ?p * 4)"
    using le_less_trans[OF le b] b by (simp_all add: usize_mul_def mult.commute[of ?p])
  have s4: "add_or_panic (fb_addr fb) (of_nat (?fh * ?p * 4)) = Done (fb_addr fb + of_nat (?fh * ?p * 4))"
    using le by (intro fb_addr_ok[OF wf]) simp
  have s5: "usize_sub (?h * ?p * 4) (?fh * ?p * 4) = Done ((?h - ?fh) * ?p * 4)"
    using le by (simp add: usize_sub_def diff_mult_distrib)
  have s6: "add_or_panic (fb_addr fb) (of_nat ((?h - ?fh) * ?p * 4))
      = Done (fb_addr fb + of_nat ((?h - ?fh) * ?p * 4))"
    using le by (intro fb_addr_ok[OF wf]) (simp add: diff_mult_distrib)
  have s7: "sub_or_panic (fb_height fb) (font_height con) = Done (fb_height fb - font_height con)"
    using fh by (simp add: sub_or_panic_def word_le_nat_alt)
  have eq: "(?h - ?fh) * ?p + ?fh * ?p = ?h * ?p" using fh
    by (metis add_mult_distrib le_add_diff_inverse2)
  show ?thesis unfolding scroll_def prod.case
    by (simp only: s1 s2 s3 s4 s5 s6 s7 run_bind_simps Let_def)
       (simp add: fun_eq_iff eq)
qed

lemma newline_locked_step:
  assumes inv: "console_inv fb con"
  shows "\<exists>con' m'. newline_locked fb (con, m) = Done (con', m') \<and> cursor_x con' = 0
    \<and> console_step fb (con, m) (con', m')"
proof -
  let ?con = "con\<lparr>cursor_x := 0\<rparr>"
  have inv0: "console_inv fb ?con" using inv by (simp add: console_inv_def)
  have b: "unat (fb_height fb) < 2 ^ 30" "unat (font_height con) \<le> unat (fb_height fb)"
    "unat (cursor_y con) + unat (font_height con) \<le> unat (fb_height fb)"
    using inv by (auto simp: console_inv_def fb_wf_def)
  have s1: "mul_or_panic 2 (font_height con) = Done (2 * font_height con)"
    "unat (2 * font_height con) = 2 * unat (font_height con)"
    using b by (simp_all add: mul_or_panic_def unat_mul_no_wrap)
  define below where "below = cursor_y con + 2 * font_height con"
  have s2: "add_or_panic (cursor_y con) (2 * font_height con) = Done below"
    "unat below = unat (cursor_y con) + 2 * unat (font_height con)"
    using b s1(2) by (simp_all add: add_or_panic_def unat_add_no_wrap below_def)
  show ?thesis
  proof (cases "fb_height fb < below")
    case True
    have "console_inv fb (?con\<lparr>cursor_y := fb_height fb - font_height con\<rparr>)"
      using inv0 b by (simp add: console_inv_def unat_sub word_le_nat_alt)
    with True show ?thesis
      by (auto simp: newline_locked_def s1 s2 scroll_Done[OF inv0] console_step_def)
         (use diff_mult_distrib in auto)
  next
    case False
    then have f: "unat (cursor_y con) + 2 * unat (font_height con) \<le> unat (fb_height fb)"
      by (simp add: word_less_nat_alt s2)
    then have "add_or_panic (cursor_y con) (font_height con) = Done (cursor_y con + font_height con)"
      "unat (cursor_y con + font_height con) = unat (cursor_y con) + unat (font_height con)"
      using b by (simp_all add: add_or_panic_def unat_add_no_wrap)
    with False f inv0 show ?thesis
      by (auto simp: newline_locked_def s1 s2 console_step_def console_inv_def)
  qed
qed

lemma get_glyph_Done:
  assumes "font_wf font" "c < usize_limit"
  shows "get_glyph font c = Done (if c < unat (psf_length (font_header font))
    then Some (sub_slice (c * unat (psf_char_size (font_header font)))
      (c * unat (psf_char_size (font_header font)) + unat (psf_char_size (font_header font)))
      (font_glyphs font)) else None)"
proof (cases "c < unat (psf_length (font_header font))")
  case True
  let ?n = "unat (psf_length (font_header font))" and ?s = "unat (psf_char_size (font_header font))"
  have le: "Suc c * ?s \<le> ?n * ?s" using True by (intro mult_le_mono1) simp
  have "?n * ?s \<le> (2 ^ 32 - 1) * (2 ^ 32 - 1)"
    using unsigned_less[of "psf_length (font_header font)", where ?'a = nat]
      unsigned_less[of "psf_char_size (font_header font)", where ?'a = nat]
    by (intro mult_le_mono) simp_all
  then have "Suc c * ?s < usize_limit" using le by simp
  with True le assms show ?thesis
    by (simp add: get_glyph_def usize_mul_def usize_add_def slice_or_panic_def font_wf_def
        add.commute)
qed (simp add: get_glyph_def)


lemma con_write_char_draw:
  assumes inv: "console_inv fb con" and c: "c \<noteq> 10" "c < usize_limit"
    and glyph: "get_glyph (con_font con) c = Done (Some glyph)"
    and start: "(if fb_width fb < cursor_x con + font_width con then newline_locked fb (con, m)
                 else Done (con, m)) = Done (con1, m1)"
  shows "console_inv fb con1 \<and> con_font con1 = con_font con
    \<and> unat (cursor_x con1) + unat (font_width con1) \<le> unat (fb_width fb)
    \<and> length glyph = unat (psf_char_size (font_header (con_font con1)))
    \<and> con_write_char (Some fb) c (con, m) =
        run_bind (draw_glyph fb con1 glyph ((font_width con1 + 7) div 8) m1)
          (\<lambda>m'. Done (con1\<lparr>cursor_x := cursor_x con1 + font_width con1\<rparr>, m'))"
proof -
  have b: "unat (fb_width fb) < 2 ^ 31" "unat (font_width con) \<le> unat (fb_width fb)"
    "unat (cursor_x con) \<le> unat (fb_width fb)" and fw: "font_wf (con_font con)"
    using inv by (auto simp: console_inv_def fb_wf_def)
  have s1: "add_or_panic (font_width con) 7 = Done (font_width con + 7)"
    using b by (simp add: add_or_panic_def)
  have s2: "add_or_panic (cursor_x con) (font_width con) = Done (cursor_x con + font_width con)"
    and s2': "unat (cursor_x con + font_width con) = unat (cursor_x con) + unat (font_width con)"
    using b by (simp_all add: add_or_panic_def unat_add_no_wrap)
  have 1: "console_inv fb con1 \<and> con_font con1 = con_font con
    \<and> unat (cursor_x con1) + unat (font_width con1) \<le> unat (fb_width fb)"
  proof (cases "fb_width fb < cursor_x con + font_width con")
    case True
    with start newline_locked_step[OF inv, of m] b show ?thesis
      by (auto simp: console_step_def)
  next
    case False
    with start inv show ?thesis
      by (auto simp: word_less_nat_alt s2')
  qed
  then have s3: "add_or_panic (cursor_x con1) (font_width con1) = Done (cursor_x con1 + font_width con1)"
    using b by (simp add: add_or_panic_def)
  have len: "length glyph = unat (psf_char_size (font_header (con_font con1)))"
    using glyph[unfolded get_glyph_Done[OF fw c(2)]] fw 1
    by (auto simp: font_wf_def mult_le_mono1 Suc_leI split: if_splits
        intro!: length_sub_slice[THEN trans])
       (metis Suc_leI mult_Suc mult_le_mono1 add.commute)
  have f1: "con_font con1 = con_font con" using 1 by simp
  show ?thesis using 1 len
    by (simp add: con_write_char_def c glyph s1 s2 start s3[unfolded f1] f1)
qed

lemma bytes_per_line:
  assumes "unat (w :: u32) < 2 ^ 31"
  shows "unat ((w + 7) div 8) = (unat w + 7) div 8"
proof -
  have "unat (w + 7) = unat w + 7" using assms by (subst unat_add_no_wrap) simp_all
  then show ?thesis by (simp add: unat_div)
qed

lemma con_write_char_step:
  assumes inv: "console_inv fb con" and c: "c < usize_limit"
  shows "\<exists>s'. con_write_char (Some fb) c (con, m) = Done s' \<and> console_step fb (con, m) s'"
proof (cases "c = 10")
  case True
  with newline_locked_step[OF inv, of m] show ?thesis
    by (auto simp: con_write_char_def con_newline_def)
next
  case False
  have fw: "font_wf (con_font con)" using inv by (simp add: console_inv_def)
  show ?thesis
  proof (cases "get_glyph (con_font con) c = Done None")
    case True
    with False inv show ?thesis
      by (auto simp: con_write_char_def console_step_def)
  next
    case no: False
    then obtain glyph where g: "get_glyph (con_font con) c = Done (Some glyph)"
      using get_glyph_Done[OF fw c] by (auto split: if_splits)
    obtain con1 m1 where st: "(if fb_width fb < cursor_x con + font_width con
        then newline_locked fb (con, m) else Done (con, m)) = Done (con1, m1)"
      and step: "console_step fb (con, m) (con1, m1)"
      using newline_locked_step[OF inv, of m] console_step_refl[of fb "(con, m)"] inv
      by (cases "fb_width fb < cursor_x con + font_width con") auto
    note d = con_write_char_draw[OF inv False c g st]
    then have i1: "console_inv fb con1" by simp
    then have b: "unat (font_width con1) < 2 ^ 31" and wf: "fb_wf fb"
      by (auto simp: console_inv_def fb_wf_def)
    have "unat (cursor_x con1 + font_width con1) \<le> unat (fb_width fb)"
      using d b by (subst unat_add_no_wrap) (auto simp: console_inv_def fb_wf_def)
    then have i2: "console_inv fb (con1\<lparr>cursor_x := cursor_x con1 + font_width con1\<rparr>)"
      using i1 by (simp add: console_inv_def)
    have out: "\<not> (i div unat (fb_pitch fb) < unat (cursor_y con1) + unat (font_height con1))"
      if "fb_cells fb \<le> i" "i mod unat (fb_pitch fb) < unat (cursor_x con1) + unat (font_width con1)" for i
    proof -
      have "0 < unat (fb_pitch fb)" using that d wf by (auto simp: fb_wf_def)
      then have "unat (fb_height fb) \<le> i div unat (fb_pitch fb)"
        using div_le_mono[OF that(1), of "unat (fb_pitch fb)"] by simp
      with i1 show ?thesis by (simp add: console_inv_def)
    qed
    have d1: "unat (cursor_x con1) + unat (font_width con1) \<le> unat (fb_width fb)"
      and d2: "length glyph = unat (psf_char_size (font_header (con_font con1)))"
      using d by blast+
    note drawn = draw_glyph_Done[OF i1 d2 d1 bytes_per_line[OF b]]
    have "console_step fb (con1, m1) (con1\<lparr>cursor_x := cursor_x con1 + font_width con1\<rparr>, m')"
      if dm: "draw_glyph fb con1 glyph ((font_width con1 + 7) div 8) m1 = Done m'" for m'
    proof -
      have "m' i = m1 i" if "fb_cells fb \<le> i" for i
        using dm out[OF that] drawn[of m1] by (auto simp: Let_def)
      with i2 show ?thesis by (simp add: console_step_def)
    qed
    with d step drawn[of m1] show ?thesis
      by (auto intro: console_step_trans)
  qed
qed


lemma draw_rect_step:
  assumes wf: "fb_wf fb" and "unat x + unat w < 2 ^ 32" "unat y + unat h < 2 ^ 32"
  shows "\<exists>m'. draw_rect fb x y w h color m = Done m' \<and> (\<forall>i\<ge>fb_cells fb. m' i = m i)"
proof -
  have e: "add_or_panic y h = Done (y + h)" "add_or_panic x w = Done (x + w)"
    using assms(2,3) by (simp_all add: add_or_panic_def)
  have px: "\<exists>m2. set_pixel fb a b color m1 = Done m2 \<and> (\<forall>i\<ge>fb_cells fb. m2 i = m i)"
    if "\<forall>i\<ge>fb_cells fb. m1 i = m i" for a b m1
    using that pixel_in_range[OF wf, of "unat a" "unat b"]
    by (auto simp: set_pixel_Done[OF wf] word_less_nat_alt)
  show ?thesis unfolding draw_rect_def e run_bind_simps
    by (intro run_fold_invariant px) auto
qed

lemma con_backspace_step:
  assumes inv: "console_inv fb con"
  shows "\<exists>s'. con_backspace (Some fb) (con, m) = Done s' \<and> console_step fb (con, m) s'"
proof (cases "font_width con \<le> cursor_x con")
  case True
  let ?con = "con\<lparr>cursor_x := cursor_x con - font_width con\<rparr>"
  have u: "unat (cursor_x con - font_width con) = unat (cursor_x con) - unat (font_width con)"
    using True by (simp add: unat_sub word_le_nat_alt)
  have i: "console_inv fb ?con" using inv by (auto simp: console_inv_def u)
  have "\<exists>m'. draw_rect fb (cursor_x ?con) (cursor_y ?con) (font_width ?con) (font_height ?con)
      (background ?con) m = Done m' \<and> (\<forall>i\<ge>fb_cells fb. m' i = m i)"
    using inv i by (intro draw_rect_step) (auto simp: console_inv_def fb_wf_def u)
  with True i show ?thesis by (auto simp: con_backspace_def console_step_def)
next
  case False
  with inv show ?thesis by (simp add: con_backspace_def console_step_def)
qed

lemma con_write_str_step:
  assumes inv: "console_inv fb con" and "\<forall>c\<in>set cs. c < usize_limit"
  shows "\<exists>s'. con_write_str (Some fb) cs (con, m) = Done s' \<and> console_step fb (con, m) s'"
  unfolding con_write_str_def
proof (rule run_fold_invariant)
  show "console_step fb (con, m) (con, m)" using inv by (simp add: console_step_def)
next
  fix c s assume c: "c \<in> set cs" and s: "console_step fb (con, m) s"
  obtain con1 m1 where s1: "s = (con1, m1)" by (cases s)
  with s have "console_inv fb con1" by (simp add: console_step_def)
  from con_write_char_step[OF this, of c m1] c assms(2) s s1
  show "\<exists>s'. con_write_char (Some fb) c s = Done s' \<and> console_step fb (con, m) s'"
    by (auto intro: console_step_trans)
qed

lemma psf2_font_new_wf:
  assumes "psf2_font_new data = Done (Some font)"
  shows "length (font_glyphs font)
      = unat (psf_length (font_header font)) * unat (psf_char_size (font_header font))
    \<and> font_glyphs font = sub_slice (unat (psf_header_size (font_header font)))
        (unat (psf_header_size (font_header font)) + length (font_glyphs font)) data"
  using assms
  by (auto simp: psf2_font_new_def Let_def run_bind_eq_Done usize_arith_Done
      slice_or_panic_def mul_or_panic_Done split: if_splits)

section \<open>The screen as other components see it\<close>

definition screen_ok :: "screen \<Rightarrow> bool" where
  "screen_ok scr \<longleftrightarrow> (case scr_console scr of None \<Rightarrow> True
     | Some con \<Rightarrow> (case scr_fb scr of
         None \<Rightarrow> font_wf (con_font con) \<and> unat (font_width con) + 7 < 2 ^ 32
       | Some fb \<Rightarrow> console_inv fb con))"

lemma con_write_char_no_fb:
  assumes "font_wf (con_font con)" "unat (font_width con) + 7 < 2 ^ 32" "c < usize_limit"
  shows "con_write_char None c (con, m) = Done (con, m)"
  using assms by (auto simp: con_write_char_def con_newline_def get_glyph_Done add_or_panic_def)

lemma video_write_char_ok:
  assumes "screen_ok scr" "c < usize_limit"
  shows "\<exists>scr'. video_write_char c scr = Done scr' \<and> screen_ok scr'"
proof (cases "scr_console scr")
  case None
  with assms show ?thesis by (simp add: video_write_char_def with_console_def)
next
  case (Some con)
  show ?thesis
  proof (cases "scr_fb scr")
    case None
    with Some assms show ?thesis
      by (simp add: video_write_char_def with_console_def screen_ok_def con_write_char_no_fb)
  next
    case (Some fb)
    with \<open>scr_console scr = Some con\<close> assms con_write_char_step[of fb con c "scr_vram scr"]
    show ?thesis
      by (auto simp: video_write_char_def with_console_def screen_ok_def console_step_def)
  qed
qed

lemma with_console_fold:
  "with_console (\<lambda>fbo. run_fold (f fbo) cs) scr = run_fold (\<lambda>c. with_console (\<lambda>fbo. f fbo c)) cs scr"
proof (induction cs arbitrary: scr)
  case Nil
  then show ?case by (cases scr) (simp add: with_console_def split: option.split)
next
  case (Cons c cs)
  show ?case
  proof (cases "scr_console scr")
    case None
    then have n: "with_console g scr = Done scr" for g by (simp add: with_console_def)
    show ?thesis by (simp add: n Cons[of scr, unfolded n, symmetric])
  next
    case (Some con)
    show ?thesis
    proof (cases "f (scr_fb scr) c (con, scr_vram scr)")
      case (Done s)
      with Some Cons[of "scr\<lparr>scr_console := Some (fst s), scr_vram := snd s\<rparr>"]
      show ?thesis by (cases s) (simp add: with_console_def)
    qed (simp add: with_console_def Some)
  qed
qed

lemma video_write_str_ok:
  assumes "screen_ok scr" "\<forall>c\<in>set cs. c < usize_limit"
  shows "\<exists>scr'. video_write_str cs scr = Done scr' \<and> screen_ok scr'"
  unfolding video_write_str_def con_write_str_def with_console_fold video_write_char_def[symmetric]
  using assms by (intro run_fold_invariant video_write_char_ok) auto

lemma backspace_ok:
  assumes "screen_ok scr"
  shows "\<exists>scr'. with_console con_backspace scr = Done scr' \<and> screen_ok scr'"
proof (cases "scr_console scr")
  case (Some con)
  show ?thesis
  proof (cases "scr_fb scr")
    case None
    with Some assms show ?thesis by (simp add: with_console_def screen_ok_def con_backspace_def)
  next
    case (Some fb)
    with \<open>scr_console scr = Some con\<close> assms con_backspace_step[of fb con "scr_vram scr"]
    show ?thesis by (auto simp: with_console_def screen_ok_def console_step_def)
  qed
qed (use assms in \<open>simp add: with_console_def\<close>)


section \<open>Pixel formats\<close>

definition rgb :: "u8 \<Rightarrow> u8 \<Rightarrow> u8 \<Rightarrow> u32" where
  "rgb r g b = push_bit 16 (ucast r) OR push_bit 8 (ucast g) OR ucast b"

definition cell_byte :: "u32 \<Rightarrow> nat \<Rightarrow> u8" where
  "cell_byte w k = ucast (drop_bit (8 * k) w)"

lemma color_masks:
  "(0x00ff0000 :: u32) = push_bit 16 (mask 8)" "(0x0000ff00 :: u32) = push_bit 8 (mask 8)"
  "(0x000000ff :: u32) = mask 8"
  by (simp_all add: mask_eq_exp_minus_1)

lemma bit_u8_less: "bit (w :: u8) n \<Longrightarrow> n < 8"
  using bit_imp_le_length[of w n] by simp

lemma bit_rgb: "bit (rgb r g b) n \<longleftrightarrow>
   (if n < 8 then bit b n else if n < 16 then bit g (n - 8) else n < 24 \<and> bit r (n - 16))"
  by (auto simp: rgb_def bit_simps dest: bit_u8_less)

lemma encode_color_rgb:
  assumes "format \<noteq> 1" shows "encode_color format (rgb r g b) = rgb b g r"
proof (rule bit_word_eqI)
  fix n assume "n < LENGTH(32)"
  have "bit (encode_color format (rgb r g b)) n \<longleftrightarrow>
      (16 \<le> n \<and> n < 32 \<and> bit (rgb r g b) (n - 16) \<and> n - 16 < 8)
      \<or> (bit (rgb r g b) n \<and> 8 \<le> n \<and> n < 16) \<or> (bit (rgb r g b) (16 + n) \<and> n < 8)"
    using assms unfolding encode_color_def Let_def color_masks
    by (simp only: if_False bit_or_iff bit_and_iff bit_push_bit_iff bit_drop_bit_eq o_def bit_mask_iff
       possible_bit_word) auto
  then show "bit (encode_color format (rgb r g b)) n \<longleftrightarrow> bit (rgb b g r) n"
    by (auto simp: bit_rgb)
qed

lemma bit_cell_byte: "bit (cell_byte w k) n \<longleftrightarrow> n < 8 \<and> bit w (8 * k + n)"
  by (simp add: cell_byte_def bit_ucast_iff bit_drop_bit_eq)

lemma cell_bytes_rgb:
  "cell_byte (rgb r g b) 0 = b" "cell_byte (rgb r g b) 1 = g" "cell_byte (rgb r g b) 2 = r"
  "cell_byte (rgb r g b) 3 = 0"
proof -
  show "cell_byte (rgb r g b) 0 = b" by (rule bit_word_eqI) (simp add: bit_cell_byte bit_rgb)
  show "cell_byte (rgb r g b) 1 = g" by (rule bit_word_eqI) (simp add: bit_cell_byte bit_rgb)
  show "cell_byte (rgb r g b) 2 = r" by (rule bit_word_eqI) (simp add: bit_cell_byte bit_rgb)
  show "cell_byte (rgb r g b) 3 = 0" by (rule bit_word_eqI) (simp add: bit_cell_byte bit_rgb)
qed


section \<open>Properties\<close>

text \<open>C9: Whatever text is written, the console neither panics nor leaves the frame buffer: when
  the font fits the screen and its glyphs have the bytes their height and width need, writing any
  string keeps the cursor and the glyph cell on the screen, and no cell past the
  \<open>height * pitch\<close> cells of the frame buffer changes.\<close>

theorem console_stays_on_screen:
  assumes "console_inv fb con" and "\<forall>c\<in>set cs. is_scalar c"
  shows "\<exists>con' m'. con_write_str (Some fb) cs (con, m) = Done (con', m') \<and> console_inv fb con'
    \<and> (\<forall>i\<ge>fb_cells fb. m' i = m i)"
  using con_write_str_step[OF assms(1), of cs m] assms(2) is_scalar_usize
  by (auto simp: console_step_def)

definition tiny_font :: psf2_font where
  "tiny_font = \<lparr>font_header = \<lparr>psf_magic = [0x72, 0xb5, 0x4a, 0x86], psf_version = 0,
     psf_header_size = 32, psf_flags = 0, psf_length = 2, psf_char_size = 2,
     psf_height = 2, psf_width = 8\<rparr>, font_glyphs = [0, 0, 0x81, 0xFF]\<rparr>"

definition tiny_fb :: framebuffer where
  "tiny_fb = \<lparr>fb_addr = 0x1000, fb_width = 16, fb_height = 4, fb_pitch = 16, fb_format = 1\<rparr>"

lemma tiny_console_inv: "console_inv tiny_fb (text_console_new tiny_font)"
  by (simp add: console_inv_def fb_wf_def font_wf_def text_console_new_def tiny_font_def tiny_fb_def)

theorem console_stays_on_screen_witness:
  "console_inv tiny_fb (text_console_new tiny_font) \<and> list_all is_scalar [1, 10, 1, 1, 1]
   \<and> (\<exists>con' m'. con_write_str (Some tiny_fb) [1, 10, 1, 1, 1] (text_console_new tiny_font, \<lambda>_. 0)
        = Done (con', m') \<and> console_inv tiny_fb con')"
  using console_stays_on_screen[OF tiny_console_inv, of "[1, 10, 1, 1, 1]" "\<lambda>_. 0"] tiny_console_inv
  by (auto simp: is_scalar_def)

text \<open>C10: A printable character is drawn at the cursor, pixel for pixel: when the character has a
  glyph and the glyph fits in the rest of the line, cell \<open>(x, y)\<close> of the cursor's character box
  becomes the foreground or background colour (in the frame buffer's encoding) according to bit
  \<open>7 - col mod 8\<close> of the glyph byte of its row and column, every other cell of video memory is
  unchanged, and the cursor moves right by the glyph's width.\<close>

theorem write_char_renders_glyph:
  assumes inv: "console_inv fb con" and c: "c \<noteq> 10" "is_scalar c"
    and glyph: "c < unat (psf_length (font_header (con_font con)))"
    and fit: "unat (cursor_x con) + unat (font_width con) \<le> unat (fb_width fb)"
  shows "con_write_char (Some fb) c (con, m) =
    Done (con\<lparr>cursor_x := cursor_x con + font_width con\<rparr>, \<lambda>i.
      let y = i div unat (fb_pitch fb); x = i mod unat (fb_pitch fb);
          size = unat (psf_char_size (font_header (con_font con))) in
      if unat (cursor_y con) \<le> y \<and> y < unat (cursor_y con) + unat (font_height con)
         \<and> unat (cursor_x con) \<le> x \<and> x < unat (cursor_x con) + unat (font_width con)
      then encode_color (fb_format fb)
        (if glyph_bit (unat (font_width con))
              (sub_slice (c * size) (c * size + size) (font_glyphs (con_font con)))
              (y - unat (cursor_y con)) (x - unat (cursor_x con))
         then foreground con else background con)
      else m i)"
proof -
  have b: "unat (font_width con) < 2 ^ 31" and fw: "font_wf (con_font con)"
    using inv by (auto simp: console_inv_def fb_wf_def)
  have cu: "c < usize_limit" using c by (simp add: is_scalar_usize)
  have nowrap: "\<not> fb_width fb < cursor_x con + font_width con"
    using fit b inv unat_add_no_wrap[of "cursor_x con" "font_width con"]
    by (auto simp: word_less_nat_alt console_inv_def fb_wf_def)
  define g where "g = (let size = unat (psf_char_size (font_header (con_font con)))
    in sub_slice (c * size) (c * size + size) (font_glyphs (con_font con)))"
  have g: "get_glyph (con_font con) c = Done (Some g)"
    using get_glyph_Done[OF fw cu] glyph by (simp add: g_def Let_def)
  have d: "length g = unat (psf_char_size (font_header (con_font con)))"
    and w: "con_write_char (Some fb) c (con, m) =
        run_bind (draw_glyph fb con g ((font_width con + 7) div 8) m)
          (\<lambda>m'. Done (con\<lparr>cursor_x := cursor_x con + font_width con\<rparr>, m'))"
    using con_write_char_draw[OF inv c(1) cu g, of m con m] nowrap by simp_all
  show ?thesis
    unfolding w draw_glyph_Done[OF inv d fit bytes_per_line[OF b]] run_bind_simps
    unfolding glyph_color_def Let_def g_def by (rule refl)
qed

theorem write_char_renders_glyph_witness:
  "\<exists>con' m'. con_write_char (Some tiny_fb) 1 (text_console_new tiny_font, \<lambda>_. 7) = Done (con', m')
     \<and> m' 0 = 0xFFFFFF \<and> m' 1 = 0x001a2a \<and> m' 17 = 0xFFFFFF \<and> m' 8 = 7 \<and> cursor_x con' = 8"
  by (subst write_char_renders_glyph[OF tiny_console_inv])
     (simp_all add: is_scalar_def text_console_new_def tiny_font_def tiny_fb_def Let_def
      glyph_bit_def sub_slice_def encode_color_def)

text \<open>The byte order of a pixel: with format 1 the bytes in memory of a colour
  \<open>0xRRGGBB\<close> are blue, green, red, and with format 0 they are red, green, blue.\<close>

theorem pixel_byte_order:
  "map (cell_byte (encode_color 1 (rgb r g b))) [0, 1, 2] = [b, g, r]
   \<and> map (cell_byte (encode_color 0 (rgb r g b))) [0, 1, 2] = [r, g, b]"
  by (simp add: encode_color_rgb cell_bytes_rgb encode_color_def[of 1] del: One_nat_def)

end
