(* ===== verification/Tty.thy ===== *)
theory Tty
  imports Fifo Console_Screen
begin

text \<open>
  The keyboard buffer (\<^verbatim>\<open>kernel/src/input/mod.rs\<close>) and the terminal's line discipline
  (\<^verbatim>\<open>kernel/src/tty/mod.rs\<close>).  The terminal echoes to the console through the screen of
  theory \<open>Console\<close>; a \<open>String\<close> of the terminal is its list of characters.
\<close>


section \<open>Keyboard buffer\<close>

definition add_char :: "rchar \<Rightarrow> rchar list \<Rightarrow> rchar list" where
  "add_char c buffer = (if length buffer < 128 then buffer @ [c] else buffer)"

definition read_char :: "rchar list \<Rightarrow> rchar option \<times> rchar list" where
  "read_char buffer = (case buffer of [] \<Rightarrow> (None, []) | c # cs \<Rightarrow> (Some c, cs))"

interpretation keyboard: bounded_fifo "\<lambda>b. b" read_char add_char 128
  by unfold_locales (auto simp: read_char_def add_char_def)


section \<open>The terminal\<close>

record tty =
  line_buffer :: "rchar list"
  input_queue :: "rchar list list"

definition tty_new :: tty where
  "tty_new = \<lparr>line_buffer = [], input_queue = []\<rparr>"

definition handle_input :: "rchar \<Rightarrow> tty \<times> screen \<Rightarrow> (tty \<times> screen) run" where
  "handle_input c s = (case s of (t, scr) \<Rightarrow>
     if c = 10 \<or> c = 13 then
       let line = line_buffer t @ [10];
           t' = t\<lparr>input_queue := input_queue t @ [line], line_buffer := []\<rparr> in
       run_bind (with_console (\<lambda>fbo. con_write_char fbo 10) scr) (\<lambda>scr'. Done (t', scr'))
     else if c = 8 \<or> c = 127 then
       (if line_buffer t \<noteq> [] then
          run_bind (with_console con_backspace scr) (\<lambda>scr'.
            Done (t\<lparr>line_buffer := butlast (line_buffer t)\<rparr>, scr'))
        else Done (t, scr))
     else if \<not> is_control c then
       run_bind (with_console (\<lambda>fbo. con_write_char fbo c) scr) (\<lambda>scr'.
         Done (t\<lparr>line_buffer := line_buffer t @ [c]\<rparr>, scr'))
     else Done (t, scr))"

definition read_line :: "tty \<Rightarrow> rchar list option \<times> tty" where
  "read_line t = (case input_queue t of
       [] \<Rightarrow> (None, t)
     | line # rest \<Rightarrow> (Some line, t\<lparr>input_queue := rest\<rparr>))"

definition tty_write :: "rchar list \<Rightarrow> tty \<times> screen \<Rightarrow> (tty \<times> screen) run" where
  "tty_write cs s = (case s of (t, scr) \<Rightarrow>
     run_bind (with_console (\<lambda>fbo. con_write_str fbo cs) scr) (\<lambda>scr'. Done (t, scr')))"

definition handle_inputs :: "rchar list \<Rightarrow> tty \<times> screen \<Rightarrow> (tty \<times> screen) run" where
  "handle_inputs cs s = run_fold handle_input cs s"

interpretation lines: fifo input_queue read_line
  by unfold_locales (auto simp: read_line_def split: list.splits)


section \<open>The line discipline\<close>

text \<open>What one line of keystrokes leaves in the line buffer.\<close>

fun cook :: "rchar list \<Rightarrow> rchar list \<Rightarrow> rchar list" where
  "cook line [] = line"
| "cook line (c # cs) =
     cook (if c = 8 \<or> c = 127 then butlast line else if is_control c then line else line @ [c]) cs"

definition tty_wf :: "tty \<Rightarrow> bool" where
  "tty_wf t \<longleftrightarrow> (\<forall>c\<in>set (line_buffer t). \<not> is_control c \<and> is_scalar c)
     \<and> (\<forall>l\<in>set (input_queue t). \<exists>b. l = b @ [10] \<and> (\<forall>c\<in>set b. \<not> is_control c \<and> is_scalar c))"

lemma handle_input_ok:
  assumes "screen_ok scr" "is_scalar c"
  shows "\<exists>t' scr'. handle_input c (t, scr) = Done (t', scr') \<and> screen_ok scr'"
  using assms video_write_char_ok[OF assms(1), of c] video_write_char_ok[OF assms(1), of 10]
    backspace_ok[OF assms(1)]
  by (auto simp: handle_input_def Let_def video_write_char_def is_scalar_usize)

lemma handle_input_wf:
  assumes "tty_wf t" "is_scalar c" "handle_input c (t, scr) = Done (t', scr')"
  shows "tty_wf t'"
  using assms
  by (auto simp: handle_input_def Let_def tty_wf_def run_bind_eq_Done dest!: in_set_butlastD
      split: if_splits)

lemma handle_input_line:
  assumes "screen_ok scr" "is_scalar c" "c \<noteq> 10" "c \<noteq> 13"
  shows "\<exists>scr'. handle_input c (t, scr) = Done (t\<lparr>line_buffer := cook (line_buffer t) [c]\<rparr>, scr')
    \<and> screen_ok scr'"
  using assms video_write_char_ok[OF assms(1), of c] backspace_ok[OF assms(1)]
  by (auto simp: handle_input_def video_write_char_def is_scalar_usize)

lemma handle_inputs_line:
  assumes "screen_ok scr" "\<forall>c\<in>set cs. is_scalar c \<and> c \<noteq> 10 \<and> c \<noteq> 13"
  shows "\<exists>scr'. handle_inputs cs (t, scr) = Done (t\<lparr>line_buffer := cook (line_buffer t) cs\<rparr>, scr')
    \<and> screen_ok scr'"
  using assms unfolding handle_inputs_def
proof (induction cs arbitrary: t scr)
  case (Cons c cs)
  from handle_input_line[OF Cons.prems(1), of c t] Cons.prems(2) obtain scr1 where
    1: "handle_input c (t, scr) = Done (t\<lparr>line_buffer := cook (line_buffer t) [c]\<rparr>, scr1)"
      "screen_ok scr1" by auto
  from Cons.IH[OF 1(2), of "t\<lparr>line_buffer := cook (line_buffer t) [c]\<rparr>"] Cons.prems(2) 1(1)
  show ?case by auto
qed auto


section \<open>Properties\<close>

text \<open>C7: The line discipline: from an empty line, the keystrokes \<open>cs\<close> (none of them a newline or
  carriage return) followed by Enter put exactly one line on the input queue, the printable
  characters left after every backspace took back the one before it, and a newline; the line buffer
  is empty again, earlier lines stay in front, nothing panics and the console stays on the screen.\<close>

theorem enter_queues_cooked_line:
  assumes "screen_ok scr" and "line_buffer t = []"
    and "\<forall>c\<in>set cs. is_scalar c \<and> c \<noteq> 10 \<and> c \<noteq> 13" and "enter = 10 \<or> enter = 13"
  shows "\<exists>scr'. handle_inputs (cs @ [enter]) (t, scr) =
      Done (t\<lparr>line_buffer := [], input_queue := input_queue t @ [cook [] cs @ [10]]\<rparr>, scr')
    \<and> screen_ok scr'"
proof -
  from handle_inputs_line[OF assms(1,3), of t] assms(2) obtain scr1 where
    1: "handle_inputs cs (t, scr) = Done (t\<lparr>line_buffer := cook [] cs\<rparr>, scr1)" "screen_ok scr1"
    by auto
  from video_write_char_ok[OF 1(2), of 10] obtain scr2 where
    2: "with_console (\<lambda>fbo. con_write_char fbo 10) scr1 = Done scr2" "screen_ok scr2"
    by (auto simp: video_write_char_def)
  show ?thesis using 1 2 assms(4)
    by (auto simp: handle_inputs_def run_fold_append handle_input_def Let_def)
qed

definition blank_screen :: screen where
  "blank_screen = \<lparr>scr_fb = None, scr_console = None, scr_vram = \<lambda>_. 0\<rparr>"

theorem enter_queues_cooked_line_witness:
  "\<exists>scr'. handle_inputs ([108, 120, 8, 115, 27] @ [13]) (tty_new, blank_screen) =
     Done (\<lparr>line_buffer = [], input_queue = [[108, 115, 10]]\<rparr>, scr')"
  using enter_queues_cooked_line[of blank_screen tty_new "[108, 120, 8, 115, 27]" 13]
  by (auto simp: blank_screen_def screen_ok_def tty_new_def is_scalar_def is_control_def)

text \<open>C8: What a reader of the terminal can get: after any keystrokes from a fresh terminal, every
  line that \<open>read_line\<close> hands out, in the order they were entered, is printable text followed by
  one newline, and its bytes are valid UTF-8.\<close>

theorem terminal_lines_wellformed:
  assumes "\<forall>c\<in>set cs. is_scalar c" and "handle_inputs cs (tty_new, scr) = Done (t, scr')"
    and "l \<in> set (fst (drain read_line n t))"
  shows "(\<exists>b. l = b @ [10] \<and> (\<forall>c\<in>set b. \<not> is_control c)) \<and> from_utf8 (encode_str l) = Some (encode_str l)"
proof -
  have "tty_wf (fst (t, scr'))"
  proof (rule run_fold_keeps[OF assms(2)[unfolded handle_inputs_def], where I = "\<lambda>s. tty_wf (fst s)"])
    show "tty_wf (fst (tty_new, scr))" by (simp add: tty_new_def tty_wf_def)
  next
    fix c s s' assume "c \<in> set cs" "tty_wf (fst s)" "handle_input c s = Done s'"
    with assms(1) handle_input_wf[of "fst s" c "snd s" "fst s'" "snd s'"] show "tty_wf (fst s')" by simp
  qed
  moreover have "l \<in> set (input_queue t)"
    using assms(3) lines.drain_in_order[of n t] by (auto dest: in_set_takeD)
  ultimately obtain b where b: "l = b @ [10]" "\<forall>c\<in>set b. \<not> is_control c \<and> is_scalar c"
    by (auto simp: tty_wf_def)
  then have "\<forall>c\<in>set l. is_scalar c" by (auto simp: is_scalar_def)
  with b show ?thesis by (auto simp: from_utf8_encode_str)
qed

theorem terminal_lines_wellformed_witness:
  "from_utf8 (encode_str [233, 10]) = Some (encode_str [233, 10])
   \<and> (\<exists>t scr'. handle_inputs [233, 10] (tty_new, blank_screen) = Done (t, scr')
        \<and> fst (drain read_line 1 t) = [[233, 10]])"
proof -
  let ?t = "\<lparr>line_buffer = [], input_queue = [[233, 10]]\<rparr>"
  have h: "handle_inputs [233, 10] (tty_new, blank_screen) = Done (?t, blank_screen)"
    by (simp add: handle_inputs_def handle_input_def tty_new_def blank_screen_def with_console_def
        is_control_def Let_def)
  have d: "fst (drain read_line 1 ?t) = [[233, 10]]" by (simp add: read_line_def)
  show ?thesis using terminal_lines_wellformed[OF _ h, of "[233, 10]" 1] h d
    by (auto simp: is_scalar_def)
qed


end
