(* ===== verification/Descriptors.thy ===== *)
theory Descriptors
  imports Prelude
begin

text \<open>
  The interface of a table of handles: opening takes the lowest free slot, closing frees one slot.
  The file system (theory \<open>Vfs\<close>) provides it, and the handlers of the system calls rely on it.
\<close>

fun open_all :: "('p \<Rightarrow> 's \<Rightarrow> nat option \<times> 's) \<Rightarrow> 'p list \<Rightarrow> 's \<Rightarrow> nat option list \<times> 's" where
  "open_all opn [] s = ([], s)"
| "open_all opn (p # ps) s =
     (case opn p s of (j, s') \<Rightarrow> (case open_all opn ps s' of (js, t) \<Rightarrow> (j # js, t)))"

locale descriptor_table =
  fixes table :: "'s \<Rightarrow> 'd option list"
    and opn :: "'p \<Rightarrow> 's \<Rightarrow> nat option \<times> 's"
    and cls :: "nat \<Rightarrow> 's \<Rightarrow> bool \<times> 's"
  assumes open_Some: "opn p s = (Some j, s') \<Longrightarrow>
      j < length (table s) \<and> table s ! j = None \<and> (\<forall>k<j. table s ! k \<noteq> None)
      \<and> (\<exists>d. table s' = (table s)[j := Some d])"
    and open_None: "opn p s = (None, s') \<Longrightarrow> s' = s"
    and close_used: "i < length (table s) \<Longrightarrow> table s ! i \<noteq> None \<Longrightarrow>
      \<exists>s'. cls i s = (True, s') \<and> table s' = (table s)[i := None]"
    and close_free: "i < length (table s) \<Longrightarrow> table s ! i = None \<Longrightarrow> cls i s = (False, s)"
    and close_range: "length (table s) \<le> i \<Longrightarrow> cls i s = (False, s)"
begin

lemma open_length: "opn p s = (r, s') \<Longrightarrow> length (table s') = length (table s)"
  by (cases r) (auto dest: open_Some open_None)

lemma open_then_close:
  assumes "opn p s = (Some j, s')"
  shows "fst (cls j s') = True \<and> table (snd (cls j s')) = table s"
proof -
  from open_Some[OF assms] obtain d where
    d: "j < length (table s)" "table s ! j = None" "table s' = (table s)[j := Some d]" by auto
  then obtain s'' where "cls j s' = (True, s'')" "table s'' = (table s')[j := None]"
    using close_used[of j s'] by auto
  with d show ?thesis by (simp add: list_update_same_conv)
qed

lemma close_twice:
  assumes "cls i s = (True, s')"
  shows "cls i s' = (False, s')"
proof -
  have i: "i < length (table s)" "table s ! i \<noteq> None"
    using assms close_free[of i s] close_range[of s i] by (force simp: not_less)+
  from close_used[OF this] assms have "table s' = (table s)[i := None]" by auto
  with i show ?thesis by (simp add: close_free)
qed

lemma open_all_fresh:
  assumes "open_all opn ps s = (js, s')"
  shows "distinct (filter (\<lambda>j. j \<noteq> None) js)
    \<and> (\<forall>j. Some j \<in> set js \<longrightarrow> j < length (table s) \<and> table s ! j = None \<and> table s' ! j \<noteq> None)
    \<and> (\<forall>j<length (table s). table s ! j \<noteq> None \<longrightarrow> table s' ! j = table s ! j)
    \<and> length (table s') = length (table s)"
  using assms
proof (induction ps arbitrary: s js)
  case (Cons p ps)
  obtain r t where r: "opn p s = (r, t)" by (cases "opn p s")
  obtain ks where k: "open_all opn ps t = (ks, s')" and js: "js = r # ks"
    using Cons.prems r by (auto split: prod.splits)
  note IH = Cons.IH[OF k]
  show ?case
  proof (cases r)
    case None
    with IH js open_None[of p s t] r show ?thesis by simp
  next
    case (Some j)
    from open_Some[of p s j t] r Some obtain d where
      d: "j < length (table s)" "table s ! j = None" "table t = (table s)[j := Some d]" by auto
    have j: "Some j \<notin> set ks" using IH d by (metis length_list_update nth_list_update_eq option.simps(3))
    have "table s' ! j = Some d" using IH d by auto
    moreover have "table s ! k = None" if "Some k \<in> set ks" for k
      using that j IH d by (cases "k = j") auto
    moreover have "table s' ! k = table s ! k" if "k < length (table s)" "table s ! k \<noteq> None" for k
      using that IH d by (auto simp: nth_list_update split: if_splits)
    ultimately show ?thesis using IH js Some d j by auto
  qed
qed auto

end

end
