(* ===== verification/Vfs.thy ===== *)
theory Vfs
  imports Tty Descriptors
begin

text \<open>
  The virtual file system (\<^verbatim>\<open>kernel/src/vfs.rs\<close>): the flat list of entries, the table of
  sixteen open files, and every operation of \<open>Vfs\<close>.  Operations that reach the terminal take and
  return the terminal and the screen beside the file system.  A heap allocation is taken to succeed
  as long as it is within the capacity limit of a \<open>Vec\<close> (\<open>isize::MAX\<close> bytes), past which the
  library panics.
\<close>


section \<open>State\<close>

definition MAX_OPEN_FILES :: nat where "MAX_OPEN_FILES = 16"

datatype file_type = Regular | Directory | Device | Pipe

record stat_abi =
  st_size :: u64
  st_file_type :: u32

record file_stat =
  fs_size :: u64
  fs_file_type :: file_type

record file_descriptor =
  fd_name :: rstr
  fd_file_type :: file_type
  fd_offset :: u64

record vfs_entry =
  ve_name :: rstr
  ve_file_type :: file_type
  ve_data :: "u8 list option"

record vfs =
  vfs_entries :: "vfs_entry list"
  open_files :: "file_descriptor option list"
  vfs_cwd :: rstr

type_synonym files = "vfs \<times> tty \<times> screen"

definition FILE_TYPE_REGULAR :: u32 where "FILE_TYPE_REGULAR = 0"
definition FILE_TYPE_DIRECTORY :: u32 where "FILE_TYPE_DIRECTORY = 1"
definition FILE_TYPE_DEVICE :: u32 where "FILE_TYPE_DEVICE = 2"
definition FILE_TYPE_PIPE :: u32 where "FILE_TYPE_PIPE = 3"

definition to_abi :: "file_stat \<Rightarrow> stat_abi" where
  "to_abi s = \<lparr>st_size = fs_size s,
     st_file_type = (case fs_file_type s of
         Regular \<Rightarrow> FILE_TYPE_REGULAR
       | Directory \<Rightarrow> FILE_TYPE_DIRECTORY
       | Device \<Rightarrow> FILE_TYPE_DEVICE
       | Pipe \<Rightarrow> FILE_TYPE_PIPE)\<rparr>"

definition vfs_new :: vfs where
  "vfs_new = \<lparr>vfs_entries = [], open_files = replicate MAX_OPEN_FILES None, vfs_cwd = ascii ''/''\<rparr>"


section \<open>Start-up\<close>

definition init_defaults :: "vfs \<Rightarrow> vfs" where
  "init_defaults v = v\<lparr>vfs_entries := vfs_entries v @
     [\<lparr>ve_name = ascii ''.'', ve_file_type = Directory, ve_data = None\<rparr>,
      \<lparr>ve_name = ascii ''dev'', ve_file_type = Directory, ve_data = None\<rparr>,
      \<lparr>ve_name = ascii ''null'', ve_file_type = Device, ve_data = None\<rparr>,
      \<lparr>ve_name = ascii ''tty'', ve_file_type = Device, ve_data = None\<rparr>]\<rparr>"

definition ramdisk_name :: "u8 list \<Rightarrow> rstr" where
  "ramdisk_name name_bytes =
     (let name_len = (case position (\<lambda>b. b = 0) name_bytes of Some n \<Rightarrow> n | None \<Rightarrow> 64)
      in case from_utf8 (take name_len name_bytes) of
           Some s \<Rightarrow> s | None \<Rightarrow> ascii ''unknown'')"

function ramdisk_scan :: "u8 list \<Rightarrow> nat \<Rightarrow> vfs_entry list \<Rightarrow> vfs_entry list run" where
  "ramdisk_scan data offset es =
     run_bind (usize_add offset 72) (\<lambda>body.
       if body \<le> length data then
         let name = ramdisk_name (sub_slice offset (offset + 64) data);
             file_size = unat (le_u64 (sub_slice (offset + 64) body data)) in
         run_bind (usize_add body file_size) (\<lambda>end.
           if end \<le> length data then
             ramdisk_scan data end
               (es @ [\<lparr>ve_name = name, ve_file_type = Regular,
                       ve_data = Some (sub_slice body end data)\<rparr>])
           else Done es)
       else Done es)"
  by pat_completeness auto
termination
  by (relation "measure (\<lambda>(data, offset, es). length data - offset)")
     (auto simp: usize_arith_Done)

declare ramdisk_scan.simps [simp del]

definition init_from_ramdisk :: "memory \<Rightarrow> u64 \<Rightarrow> u64 \<Rightarrow> vfs \<Rightarrow> vfs run" where
  "init_from_ramdisk mem addr sz v =
     (let v = init_defaults v in
      if addr \<noteq> 0 \<and> 0 < sz then
        run_bind (ramdisk_scan (read_mem mem addr (unat sz)) 0 (vfs_entries v)) (\<lambda>es.
          Done (v\<lparr>vfs_entries := es\<rparr>))
      else Done v)"


section \<open>Descriptors\<close>

fun open_entries ::
  "rstr \<Rightarrow> vfs_entry list \<Rightarrow> file_descriptor option list
    \<Rightarrow> (nat \<times> file_descriptor option list) option" where
  "open_entries path [] files = None"
| "open_entries path (e # es) files =
     (if ve_name e = path then
        (case position Option.is_none files of
           Some j \<Rightarrow> Some (j, files[j := Some \<lparr>fd_name = path, fd_file_type = ve_file_type e,
                                             fd_offset = 0\<rparr>])
         | None \<Rightarrow> open_entries path es files)
      else open_entries path es files)"

definition vfs_open :: "rstr \<Rightarrow> vfs \<Rightarrow> nat option \<times> vfs" where
  "vfs_open path v = (case open_entries path (vfs_entries v) (open_files v) of
       None \<Rightarrow> (None, v)
     | Some (j, files) \<Rightarrow> (Some j, v\<lparr>open_files := files\<rparr>))"

definition vfs_close :: "nat \<Rightarrow> vfs \<Rightarrow> bool \<times> vfs" where
  "vfs_close i v =
     (if length (open_files v) \<le> i then (False, v)
      else if open_files v ! i \<noteq> None then (True, v\<lparr>open_files := (open_files v)[i := None]\<rparr>)
      else (False, v))"

definition vfs_seek :: "nat \<Rightarrow> u64 \<Rightarrow> vfs \<Rightarrow> bool \<times> vfs" where
  "vfs_seek i offset v =
     (if length (open_files v) \<le> i then (False, v)
      else case open_files v ! i of
          Some fd \<Rightarrow> (True, v\<lparr>open_files := (open_files v)[i := Some (fd\<lparr>fd_offset := offset\<rparr>)]\<rparr>)
        | None \<Rightarrow> (False, v))"


section \<open>Reading and writing\<close>

definition find_entry :: "rstr \<Rightarrow> vfs \<Rightarrow> vfs_entry option" where
  "find_entry path v = List.find (\<lambda>e. ve_name e = path) (vfs_entries v)"

definition set_offset :: "nat \<Rightarrow> file_descriptor \<Rightarrow> u64 \<Rightarrow> vfs \<Rightarrow> vfs" where
  "set_offset i fd offset v = v\<lparr>open_files := (open_files v)[i := Some (fd\<lparr>fd_offset := offset\<rparr>)]\<rparr>"

fun update_data :: "rstr \<Rightarrow> u8 list \<Rightarrow> vfs_entry list \<Rightarrow> vfs_entry list" where
  "update_data path data [] = []"
| "update_data path data (e # es) =
     (if ve_name e = path then e\<lparr>ve_data := Some data\<rparr> # es else e # update_data path data es)"

definition vfs_read :: "nat \<Rightarrow> u8 list \<Rightarrow> files \<Rightarrow> ((nat option \<times> u8 list) \<times> files) run" where
  "vfs_read i buf s = (case s of (v, t, scr) \<Rightarrow>
     if length (open_files v) \<le> i then Done ((None, buf), s)
     else case open_files v ! i of
       None \<Rightarrow> Done ((None, buf), s)
     | Some fd \<Rightarrow>
       if fd_name fd = ascii ''tty'' then
         (case read_line t of
            (Some line, t') \<Rightarrow>
              let bytes = encode_str line; len = min (length buf) (length bytes) in
              Done ((Some len, copy_at 0 (take len bytes) buf), (v, t', scr))
          | (None, t') \<Rightarrow> Done ((Some 0, buf), (v, t', scr)))
       else case find_entry (fd_name fd) v of
         None \<Rightarrow> Done ((None, buf), s)
       | Some e \<Rightarrow> (case ve_data e of
           None \<Rightarrow> Done ((None, buf), s)
         | Some data \<Rightarrow>
             let start = unat (fd_offset fd) in
             if length data \<le> start then Done ((Some 0, buf), s)
             else let available = length data - start; len = min (length buf) available in
               run_bind (add_or_panic (fd_offset fd) (of_nat len)) (\<lambda>offset.
                 Done ((Some len, copy_at 0 (sub_slice start (start + len) data) buf),
                       (set_offset i fd offset v, t, scr)))))"

definition vec_limit :: nat where "vec_limit = 2 ^ 63 - 1"

definition vfs_write :: "nat \<Rightarrow> u8 list \<Rightarrow> files \<Rightarrow> (nat option \<times> files) run" where
  "vfs_write i buf s = (case s of (v, t, scr) \<Rightarrow>
     if length (open_files v) \<le> i then Done (None, s)
     else case open_files v ! i of
       None \<Rightarrow> Done (None, s)
     | Some fd \<Rightarrow>
       if fd_name fd = ascii ''tty'' then
         (case chars_of buf of
            Some cs \<Rightarrow> run_bind (tty_write cs (t, scr)) (\<lambda>(t', scr').
              Done (Some (length buf), (v, t', scr')))
          | None \<Rightarrow> Done (None, s))
       else case find_entry (fd_name fd) v of
         None \<Rightarrow> Done (None, s)
       | Some e \<Rightarrow> (case ve_data e of
           None \<Rightarrow> Done (None, s)
         | Some data \<Rightarrow>
             let start = unat (fd_offset fd);
                 resized = (if length data < start then data @ replicate (start - length data) 0
                            else data) in
             run_bind (run_guard (length resized \<le> vec_limit)) (\<lambda>_.
             run_bind (run_guard (length resized + length buf \<le> vec_limit)) (\<lambda>_.
             run_bind (add_or_panic (fd_offset fd) (of_nat (length buf))) (\<lambda>offset.
               Done (Some (length buf),
                 (set_offset i fd offset
                    (v\<lparr>vfs_entries := update_data (fd_name fd) (resized @ buf) (vfs_entries v)\<rparr>),
                  t, scr)))))))"


section \<open>Names\<close>

definition vfs_stat :: "rstr \<Rightarrow> vfs \<Rightarrow> file_stat option" where
  "vfs_stat path v = (case find_entry path v of
       None \<Rightarrow> None
     | Some e \<Rightarrow> Some \<lparr>fs_size = (case ve_data e of Some d \<Rightarrow> of_nat (length d) | None \<Rightarrow> 0),
                      fs_file_type = ve_file_type e\<rparr>)"

definition list_dir :: "vfs \<Rightarrow> rstr list" where
  "list_dir v = map ve_name (vfs_entries v)"

definition getcwd :: "vfs \<Rightarrow> rstr" where
  "getcwd v = vfs_cwd v"

definition vfs_chdir :: "rstr \<Rightarrow> vfs \<Rightarrow> bool \<times> vfs" where
  "vfs_chdir path v =
     (if \<exists>e\<in>set (vfs_entries v). ve_name e = path \<and> ve_file_type e = Directory
      then (True, v\<lparr>vfs_cwd := path\<rparr>) else (False, v))"

definition vfs_mkdir :: "rstr \<Rightarrow> vfs \<Rightarrow> bool \<times> vfs" where
  "vfs_mkdir path v =
     (if \<exists>e\<in>set (vfs_entries v). ve_name e = path then (False, v)
      else (True, v\<lparr>vfs_entries := vfs_entries v @
              [\<lparr>ve_name = path, ve_file_type = Directory, ve_data = Some []\<rparr>]\<rparr>))"

definition close_named :: "rstr \<Rightarrow> file_descriptor option \<Rightarrow> file_descriptor option" where
  "close_named path f = (case f of
       Some fd \<Rightarrow> if fd_name fd = path then None else f | None \<Rightarrow> None)"

definition vfs_unlink :: "rstr \<Rightarrow> vfs \<Rightarrow> bool \<times> vfs" where
  "vfs_unlink path v = (case position (\<lambda>e. ve_name e = path) (vfs_entries v) of
       Some index \<Rightarrow>
         (True, v\<lparr>vfs_entries := remove_at index (vfs_entries v),
                  open_files := map (close_named path) (open_files v)\<rparr>)
     | None \<Rightarrow> (False, v))"


section \<open>The descriptor table\<close>

lemma open_entries_None:
  "open_entries path es files = None \<longleftrightarrow>
    (\<forall>e\<in>set es. ve_name e \<noteq> path) \<or> position Option.is_none files = None"
  by (induction es) (auto split: option.splits)

lemma open_entries_Some:
  assumes "open_entries path es files = Some (j, files')"
  shows "position Option.is_none files = Some j
    \<and> (\<exists>e. List.find (\<lambda>e. ve_name e = path) es = Some e
        \<and> files' = files[j := Some \<lparr>fd_name = path, fd_file_type = ve_file_type e, fd_offset = 0\<rparr>])"
  using assms
proof (induction es)
  case (Cons e es)
  then show ?case
    by (cases "position Option.is_none files") (auto split: if_splits simp: open_entries_None)
qed simp

interpretation descriptors: descriptor_table open_files vfs_open vfs_close
proof unfold_locales
  fix p s j s' assume "vfs_open p s = (Some j, s')"
  then obtain files where f: "open_entries p (vfs_entries s) (open_files s) = Some (j, files)"
    "s' = s\<lparr>open_files := files\<rparr>" by (auto simp: vfs_open_def split: option.splits)
  from open_entries_Some[OF f(1)] f(2) position_SomeD[of Option.is_none "open_files s" j]
  show "j < length (open_files s) \<and> open_files s ! j = None \<and> (\<forall>k<j. open_files s ! k \<noteq> None)
      \<and> (\<exists>d. open_files s' = (open_files s)[j := Some d])"
    by (auto simp: Option.is_none_def)
qed (auto simp: vfs_open_def vfs_close_def split: option.splits)

end
