(* ===== verification/Scheduler.thy ===== *)
theory Scheduler
  imports Fifo
begin

text \<open>
  Tasks and the round-robin scheduler (\<^verbatim>\<open>kernel/src/task/scheduler.rs\<close>, the types of
  \<^verbatim>\<open>kernel/src/task/mod.rs\<close> and \<^verbatim>\<open>kernel/src/process.rs\<close>, and \<open>set_interrupt_stack\<close> of
  \<^verbatim>\<open>kernel/src/gdt.rs\<close>).  A process is shared by reference (\<open>Arc\<close>): a task holds the address of
  a cell of \<open>proc_heap\<close>.  The hardware the scheduler writes is part of the state: the page-table
  register, the interrupt stack of the task state segment and the per-CPU stack pointer.
\<close>


section \<open>State\<close>

datatype task_state = Ready | Running | Blocked | Zombie

record process_inner =
  proc_id :: nat
  pml4_frame :: u64
  entry_point :: u64
  proc_stack_top :: u64
  threads :: "nat list"

record task =
  task_id :: nat
  stack_ptr :: u64
  kernel_stack_top :: u64
  task_process :: nat
  task_state_of :: task_state

record scheduler =
  tasks :: "task list"
  current_task :: "task option"
  task_count :: nat
  current_task_id :: "nat option"

record kernel =
  sched :: scheduler
  uptime_ticks :: u64
  cr3 :: u64
  tss_rsp0 :: u64
  per_cpu_stack :: u64
  proc_heap :: "nat \<Rightarrow> process_inner"
  next_task_id :: nat

definition scheduler_new :: scheduler where
  "scheduler_new = \<lparr>tasks = [], current_task = None, task_count = 0, current_task_id = None\<rparr>"

definition pop_front :: "scheduler \<Rightarrow> task option \<times> scheduler" where
  "pop_front s = (case tasks s of [] \<Rightarrow> (None, s) | t # ts \<Rightarrow> (Some t, s\<lparr>tasks := ts\<rparr>))"

definition push_back :: "task \<Rightarrow> scheduler \<Rightarrow> scheduler" where
  "push_back t s = s\<lparr>tasks := tasks s @ [t]\<rparr>"

interpretation ready: fifo tasks pop_front
  by unfold_locales (auto simp: pop_front_def)


section \<open>Operations\<close>

definition set_interrupt_stack :: "u64 \<Rightarrow> kernel \<Rightarrow> kernel" where
  "set_interrupt_stack stack_top k = k\<lparr>tss_rsp0 := stack_top, per_cpu_stack := stack_top\<rparr>"

definition switch_to :: "task \<Rightarrow> kernel \<Rightarrow> kernel" where
  "switch_to t k =
     (let k = set_interrupt_stack (kernel_stack_top t) k;
          pml4 = pml4_frame (proc_heap k (task_process t)) in
      if cr3 k \<noteq> pml4 then k\<lparr>cr3 := pml4\<rparr> else k)"

definition task_id_new :: "kernel \<Rightarrow> nat \<times> kernel" where
  "task_id_new k = (next_task_id k, k\<lparr>next_task_id := (next_task_id k + 1) mod usize_limit\<rparr>)"

definition set_current :: "task \<Rightarrow> kernel \<Rightarrow> kernel" where
  "set_current t k = k\<lparr>sched := (sched k)\<lparr>current_task := Some t, current_task_id := Some (task_id t)\<rparr>\<rparr>"

definition add_task :: "task \<Rightarrow> kernel \<Rightarrow> kernel run" where
  "add_task t k = run_bind (usize_add (task_count (sched k)) 1) (\<lambda>n.
     Done (k\<lparr>sched := (push_back t (sched k))\<lparr>task_count := n\<rparr>\<rparr>))"

definition start_scheduling :: "kernel \<Rightarrow> (u64 \<times> kernel) run" where
  "start_scheduling k = (case pop_front (sched k) of
       (Some next_task, s) \<Rightarrow>
         let k = switch_to next_task (k\<lparr>sched := s\<rparr>);
             next_task = next_task\<lparr>task_state_of := Running\<rparr>;
             k = set_current next_task k in
         if stack_ptr next_task \<noteq> 0 then Done (stack_ptr next_task, k) else Panic
     | (None, _) \<Rightarrow> Panic)"

datatype tick_result = Resume u64 | Halted

text \<open>One timer tick or yield; \<open>locked\<close> says that the interrupted code holds the scheduler's lock, so
  that \<open>try_lock\<close> fails.\<close>

definition timer_tick :: "bool \<Rightarrow> u64 \<Rightarrow> kernel \<Rightarrow> tick_result \<times> kernel" where
  "timer_tick locked current_stack_ptr k =
     (let k = k\<lparr>uptime_ticks := uptime_ticks k + 1\<rparr> in
      if locked then (Resume current_stack_ptr, k)
      else case current_task (sched k) of
        None \<Rightarrow> (Resume current_stack_ptr, k)
      | Some prev_task \<Rightarrow>
          let k = k\<lparr>sched := (sched k)\<lparr>current_task := None\<rparr>\<rparr>;
              prev_task = prev_task\<lparr>stack_ptr := current_stack_ptr\<rparr>;
              was_running = (task_state_of prev_task = Running);
              is_zombie = (task_state_of prev_task = Zombie) in
          (case pop_front (sched k) of
             (Some next_task, s) \<Rightarrow>
               let s = (if was_running then push_back (prev_task\<lparr>task_state_of := Ready\<rparr>) s else s);
                   k = switch_to next_task (k\<lparr>sched := s\<rparr>);
                   next_task = next_task\<lparr>task_state_of := Running\<rparr>;
                   next_ptr = stack_ptr next_task in
               (Resume next_ptr, set_current next_task k)
           | (None, s) \<Rightarrow>
               if is_zombie then (Halted, k)
               else (Resume current_stack_ptr, set_current prev_task k)))"

definition mark_zombie :: "kernel \<Rightarrow> kernel" where
  "mark_zombie k = (case current_task (sched k) of
       Some t \<Rightarrow> k\<lparr>sched := (sched k)\<lparr>current_task := Some (t\<lparr>task_state_of := Zombie\<rparr>)\<rparr>\<rparr>
     | None \<Rightarrow> k)"

definition yield_task :: "u64 \<Rightarrow> kernel \<Rightarrow> tick_result \<times> kernel" where
  "yield_task sp k = timer_tick False sp k"

definition exit_current_task :: "u64 \<Rightarrow> kernel \<Rightarrow> tick_result \<times> kernel" where
  "exit_current_task sp k = yield_task sp (mark_zombie k)"

definition get_current_kernel_stack_top :: "kernel \<Rightarrow> u64" where
  "get_current_kernel_stack_top k = (case current_task (sched k) of
       Some t \<Rightarrow> kernel_stack_top t | None \<Rightarrow> 0)"

definition get_uptime_ticks :: "kernel \<Rightarrow> u64" where
  "get_uptime_ticks k = uptime_ticks k"

definition get_task_count :: "kernel \<Rightarrow> nat" where
  "get_task_count k = task_count (sched k)"

definition get_current_task_id :: "kernel \<Rightarrow> nat option" where
  "get_current_task_id k = current_task_id (sched k)"


section \<open>The scheduler as a transition system\<close>

text \<open>What can happen to the scheduler: a task is created with the next number and added, the timer
  interrupts (or the running task yields), or the running task is marked as exited.\<close>

datatype sched_event = Add task | Tick bool u64 | Exit

inductive sched_step :: "sched_event \<Rightarrow> kernel \<Rightarrow> kernel \<Rightarrow> bool" where
  step_add: "task_id_new k = (task_id t, k1) \<Longrightarrow> task_state_of t = Ready \<Longrightarrow>
    add_task t k1 = Done k' \<Longrightarrow> sched_step (Add t) k k'"
| step_tick: "timer_tick locked sp k = (Resume p, k') \<Longrightarrow> sched_step (Tick locked sp) k k'"
| step_exit: "mark_zombie k = k' \<Longrightarrow> sched_step Exit k k'"

inductive sched_steps :: "sched_event list \<Rightarrow> kernel \<Rightarrow> kernel \<Rightarrow> bool" where
  steps_refl: "sched_steps [] k k"
| steps_step: "sched_step e k k' \<Longrightarrow> sched_steps es k' k'' \<Longrightarrow> sched_steps (e # es) k k''"

inductive_cases sched_stepsE: "sched_steps (e # es) k k''"
inductive_simps sched_steps_simps [simp]: "sched_steps [] k k''" "sched_steps (e # es) k k''"
inductive_simps sched_step_simps:
  "sched_step (Add t) k k'" "sched_step (Tick l sp) k k'" "sched_step Exit k k'"

text \<open>The number of ticks at which the scheduler can switch.\<close>

fun switches :: "sched_event list \<Rightarrow> nat" where
  "switches [] = 0"
| "switches (Tick False sp # es) = Suc (switches es)"
| "switches (e # es) = switches es"


section \<open>Invariant\<close>

definition live :: "kernel \<Rightarrow> task list" where
  "live k = (case current_task (sched k) of Some t \<Rightarrow> t # tasks (sched k) | None \<Rightarrow> tasks (sched k))"

definition queue_inv :: "kernel \<Rightarrow> bool" where
  "queue_inv k \<longleftrightarrow> (\<forall>t\<in>set (tasks (sched k)). task_state_of t = Ready)
     \<and> distinct (map task_id (live k))
     \<and> (\<forall>t\<in>set (live k). task_id t \<le> task_count (sched k))
     \<and> task_count (sched k) < usize_limit
     \<and> next_task_id k = (task_count (sched k) + 1) mod usize_limit"

text \<open>One task runs (or has just exited) and is not queued, and the hardware (page tables, interrupt
  stack) is the running task's.\<close>

definition current_inv :: "kernel \<Rightarrow> bool" where
  "current_inv k \<longleftrightarrow> (case current_task (sched k) of
       None \<Rightarrow> False
     | Some t \<Rightarrow> task_state_of t \<in> {Running, Zombie} \<and> current_task_id (sched k) = Some (task_id t)
         \<and> cr3 k = pml4_frame (proc_heap k (task_process t))
         \<and> tss_rsp0 k = kernel_stack_top t \<and> per_cpu_stack k = kernel_stack_top t)"

definition sched_inv :: "kernel \<Rightarrow> bool" where
  "sched_inv k \<longleftrightarrow> queue_inv k \<and> current_inv k"

definition kernel_initial :: "kernel \<Rightarrow> bool" where
  "kernel_initial k \<longleftrightarrow> sched k = scheduler_new \<and> next_task_id k = 1"

lemma initial_inv: "kernel_initial k \<Longrightarrow> queue_inv k"
  by (auto simp: kernel_initial_def queue_inv_def scheduler_new_def live_def)

lemma switch_to_simps [simp]:
  "sched (switch_to t k) = sched k" "uptime_ticks (switch_to t k) = uptime_ticks k"
  "proc_heap (switch_to t k) = proc_heap k" "next_task_id (switch_to t k) = next_task_id k"
  "tss_rsp0 (switch_to t k) = kernel_stack_top t" "per_cpu_stack (switch_to t k) = kernel_stack_top t"
  "cr3 (switch_to t k) = pml4_frame (proc_heap k (task_process t))"
  by (auto simp: switch_to_def set_interrupt_stack_def Let_def)

lemma set_current_simps [simp]:
  "sched (set_current t k) = (sched k)\<lparr>current_task := Some t, current_task_id := Some (task_id t)\<rparr>"
  "uptime_ticks (set_current t k) = uptime_ticks k" "proc_heap (set_current t k) = proc_heap k"
  "next_task_id (set_current t k) = next_task_id k" "tss_rsp0 (set_current t k) = tss_rsp0 k"
  "per_cpu_stack (set_current t k) = per_cpu_stack k" "cr3 (set_current t k) = cr3 k"
  by (auto simp: set_current_def)

text \<open>What an unlocked tick does, by cases on the ready queue.\<close>

definition preempted :: "u64 \<Rightarrow> task \<Rightarrow> task list" where
  "preempted sp t = (if task_state_of t = Running then [t\<lparr>stack_ptr := sp, task_state_of := Ready\<rparr>] else [])"

lemma tick_switch:
  assumes "current_task (sched k) = Some c" "tasks (sched k) = t # ts"
    "timer_tick False sp k = (r, k')"
  shows "r = Resume (stack_ptr t) \<and> current_task (sched k') = Some (t\<lparr>task_state_of := Running\<rparr>)
    \<and> tasks (sched k') = ts @ preempted sp c \<and> current_task_id (sched k') = Some (task_id t)
    \<and> task_count (sched k') = task_count (sched k) \<and> next_task_id k' = next_task_id k
    \<and> proc_heap k' = proc_heap k \<and> cr3 k' = pml4_frame (proc_heap k (task_process t))
    \<and> tss_rsp0 k' = kernel_stack_top t \<and> per_cpu_stack k' = kernel_stack_top t"
  using assms
  by (auto simp: timer_tick_def Let_def pop_front_def push_back_def preempted_def)

lemma tick_stay:
  assumes "current_task (sched k) = Some c" "tasks (sched k) = []" "task_state_of c \<noteq> Zombie"
    "timer_tick False sp k = (r, k')"
  shows "r = Resume sp \<and> k' = k\<lparr>uptime_ticks := uptime_ticks k + 1,
    sched := (sched k)\<lparr>current_task := Some (c\<lparr>stack_ptr := sp\<rparr>), current_task_id := Some (task_id c)\<rparr>\<rparr>"
  using assms by (auto simp: timer_tick_def Let_def pop_front_def set_current_def)

lemma tick_halts:
  assumes "current_task (sched k) = Some c" "tasks (sched k) = []" "task_state_of c = Zombie"
  shows "fst (timer_tick False sp k) = Halted"
  using assms by (auto simp: timer_tick_def Let_def pop_front_def)

lemma tick_locked:
  "timer_tick True sp k = (Resume sp, k\<lparr>uptime_ticks := uptime_ticks k + 1\<rparr>)"
  by (simp add: timer_tick_def)

end
