(* ===== verification/Elf.thy ===== *)
theory Elf
  imports Bytes
begin

text \<open>
  The kernel's ELF parser (\<^verbatim>\<open>kernel/src/elf.rs\<close>).  Indexing a slice out of range and overflowing an
  index panic; that the parser does neither on any input is a theorem, not part of the definitions.
\<close>


section \<open>Definitions\<close>

definition ELF_MAGIC :: "u8 list" where "ELF_MAGIC = [0x7F, 0x45, 0x4C, 0x46]"
definition ELF_CLASS_64 :: u8 where "ELF_CLASS_64 = 2"
definition ELF_DATA_LITTLE_ENDIAN :: u8 where "ELF_DATA_LITTLE_ENDIAN = 1"
definition ELF_TYPE_EXEC :: u16 where "ELF_TYPE_EXEC = 2"
definition ELF_TYPE_DYN :: u16 where "ELF_TYPE_DYN = 3"
definition ELF_MACHINE_X86_64 :: u16 where "ELF_MACHINE_X86_64 = 62"
definition PROGRAM_HEADER_LOAD :: u32 where "PROGRAM_HEADER_LOAD = 1"
definition PF_X :: u32 where "PF_X = 1"
definition PF_W :: u32 where "PF_W = 2"
definition PF_R :: u32 where "PF_R = 4"

record elf_header =
  eh_entry :: u64
  program_header_offset :: u64
  program_header_entry_size :: u16
  program_header_count :: u16

record program_header =
  ph_file_offset :: u64
  ph_virtual_address :: u64
  ph_physical_address :: u64
  ph_file_size :: u64
  ph_memory_size :: u64
  ph_flags :: u32
  ph_align :: u64

datatype parse_error =
    FileTooSmall | BadMagic | UnsupportedClass | UnsupportedEndian | UnsupportedType
  | UnsupportedMachine | InvalidProgramHeaderSize | ProgramHeaderOutOfBounds

text \<open>\<open>[data[i], ..., data[i + n - 1]]\<close>: each index is computed and checked.\<close>

definition bytes_at :: "nat \<Rightarrow> nat \<Rightarrow> u8 list \<Rightarrow> u8 list run" where
  "bytes_at i n data = run_bind (usize_add i (n - 1)) (\<lambda>_. slice_or_panic i (i + n) data)"

definition parse_header :: "u8 list \<Rightarrow> (parse_error + elf_header) run" where
  "parse_header data =
     (if length data < 64 then Done (Inl FileTooSmall) else
      run_bind (slice_or_panic 0 4 data) (\<lambda>magic.
      if magic \<noteq> ELF_MAGIC then Done (Inl BadMagic) else
      run_bind (index_or_panic 4 data) (\<lambda>cls.
      if cls \<noteq> ELF_CLASS_64 then Done (Inl UnsupportedClass) else
      run_bind (index_or_panic 5 data) (\<lambda>endian.
      if endian \<noteq> ELF_DATA_LITTLE_ENDIAN then Done (Inl UnsupportedEndian) else
      run_bind (bytes_at 16 2 data) (\<lambda>bt.
      let e_type = le_u16 bt in
      if e_type \<noteq> ELF_TYPE_EXEC \<and> e_type \<noteq> ELF_TYPE_DYN then Done (Inl UnsupportedType) else
      run_bind (bytes_at 18 2 data) (\<lambda>bm.
      if le_u16 bm \<noteq> ELF_MACHINE_X86_64 then Done (Inl UnsupportedMachine) else
      run_bind (bytes_at 32 8 data) (\<lambda>e_phoff.
      run_bind (bytes_at 54 2 data) (\<lambda>bs.
      let e_phentsize = le_u16 bs in
      run_bind (bytes_at 56 2 data) (\<lambda>e_phnum.
      if e_phentsize < 56 then Done (Inl InvalidProgramHeaderSize) else
      run_bind (bytes_at 24 8 data) (\<lambda>entry.
      Done (Inr \<lparr>eh_entry = le_u64 entry, program_header_offset = le_u64 e_phoff,
        program_header_entry_size = e_phentsize, program_header_count = le_u16 e_phnum\<rparr>)))))))))))"

definition parse_program_header ::
  "u8 list \<Rightarrow> elf_header \<Rightarrow> u16 \<Rightarrow> (parse_error + program_header option) run" where
  "parse_program_header data header index =
     (let entry_size = unat (program_header_entry_size header);
          offset = unat (program_header_offset header) in
      case usize_checked_mul (unat index) entry_size of
        None \<Rightarrow> Done (Inl ProgramHeaderOutOfBounds)
      | Some skip \<Rightarrow> (case usize_checked_add offset skip of
        None \<Rightarrow> Done (Inl ProgramHeaderOutOfBounds)
      | Some start \<Rightarrow> (case usize_checked_add start entry_size of
        None \<Rightarrow> Done (Inl ProgramHeaderOutOfBounds)
      | Some end \<Rightarrow>
        if length data \<le> start \<or> length data < end then Done (Inl ProgramHeaderOutOfBounds)
        else
          run_bind (bytes_at start 4 data) (\<lambda>p_type.
          if le_u32 p_type \<noteq> PROGRAM_HEADER_LOAD then Done (Inr None) else
          run_bind (bytes_at (start + 4) 4 data) (\<lambda>flags.
          run_bind (bytes_at (start + 8) 8 data) (\<lambda>file_offset.
          run_bind (bytes_at (start + 16) 8 data) (\<lambda>virtual_address.
          run_bind (bytes_at (start + 24) 8 data) (\<lambda>physical_address.
          run_bind (bytes_at (start + 32) 8 data) (\<lambda>file_size.
          run_bind (bytes_at (start + 40) 8 data) (\<lambda>memory_size.
          run_bind (bytes_at (start + 48) 8 data) (\<lambda>align.
          if le_u64 file_size > le_u64 memory_size then Done (Inl ProgramHeaderOutOfBounds)
          else Done (Inr (Some \<lparr>ph_file_offset = le_u64 file_offset,
            ph_virtual_address = le_u64 virtual_address,
            ph_physical_address = le_u64 physical_address, ph_file_size = le_u64 file_size,
            ph_memory_size = le_u64 memory_size, ph_flags = le_u32 flags,
            ph_align = le_u64 align\<rparr>)))))))))))))"


section \<open>The parser returns\<close>

lemma bytes_at_Done:
  "i + n \<le> length data \<Longrightarrow> length data < usize_limit \<Longrightarrow> bytes_at i n data = Done (sub_slice i (i + n) data)"
  by (simp add: bytes_at_def usize_add_def slice_or_panic_def)

lemma parse_header_eq:
  assumes "length data < usize_limit"
  shows "parse_header data = Done
    (if length data < 64 then Inl FileTooSmall
     else if sub_slice 0 4 data \<noteq> ELF_MAGIC then Inl BadMagic
     else if data ! 4 \<noteq> ELF_CLASS_64 then Inl UnsupportedClass
     else if data ! 5 \<noteq> ELF_DATA_LITTLE_ENDIAN then Inl UnsupportedEndian
     else if le_u16 (sub_slice 16 18 data) \<notin> {ELF_TYPE_EXEC, ELF_TYPE_DYN} then Inl UnsupportedType
     else if le_u16 (sub_slice 18 20 data) \<noteq> ELF_MACHINE_X86_64 then Inl UnsupportedMachine
     else if le_u16 (sub_slice 54 56 data) < 56 then Inl InvalidProgramHeaderSize
     else Inr \<lparr>eh_entry = le_u64 (sub_slice 24 32 data),
       program_header_offset = le_u64 (sub_slice 32 40 data),
       program_header_entry_size = le_u16 (sub_slice 54 56 data),
       program_header_count = le_u16 (sub_slice 56 58 data)\<rparr>)"
  using assms
  by (cases "64 \<le> length data")
     (simp_all add: parse_header_def bytes_at_Done slice_or_panic_def index_or_panic_def Let_def)

lemma usize_checked_Some [run_simps]:
  "usize_checked_add a b = Some c \<longleftrightarrow> c = a + b \<and> a + b < usize_limit"
  "usize_checked_mul a b = Some c \<longleftrightarrow> c = a * b \<and> a * b < usize_limit"
  by (auto simp: usize_checked_add_def usize_checked_mul_def)

text \<open>The start of program header \<open>i\<close> in the file.\<close>

definition ph_start :: "elf_header \<Rightarrow> nat \<Rightarrow> nat" where
  "ph_start h i = unat (program_header_offset h) + i * unat (program_header_entry_size h)"

text \<open>The fields of program header \<open>i\<close>, read at their offsets.\<close>

definition ph_at :: "u8 list \<Rightarrow> nat \<Rightarrow> program_header" where
  "ph_at data start = (let at = (\<lambda>k n. sub_slice (start + k) (start + k + n) data) in
     \<lparr>ph_file_offset = le_u64 (at 8 8), ph_virtual_address = le_u64 (at 16 8),
      ph_physical_address = le_u64 (at 24 8), ph_file_size = le_u64 (at 32 8),
      ph_memory_size = le_u64 (at 40 8), ph_flags = le_u32 (at 4 4), ph_align = le_u64 (at 48 8)\<rparr>)"

lemma parse_program_header_eq:
  assumes "length data < usize_limit" "56 \<le> program_header_entry_size h"
  shows "parse_program_header data h i = Done (let start = ph_start h (unat i) in
    if length data < start + unat (program_header_entry_size h) then Inl ProgramHeaderOutOfBounds
    else if le_u32 (sub_slice start (start + 4) data) \<noteq> PROGRAM_HEADER_LOAD then Inr None
    else if ph_memory_size (ph_at data start) < ph_file_size (ph_at data start) then Inl ProgramHeaderOutOfBounds
    else Inr (Some (ph_at data start)))"
proof -
  define start where "start = ph_start h (unat i)"
  define esz where "esz = unat (program_header_entry_size h)"
  have e: "56 \<le> esz" using assms(2) by (simp add: esz_def word_le_nat_alt)
  show ?thesis
  proof (cases "start + esz \<le> length data")
    case True
    have m: "usize_checked_mul (unat i) esz = Some (unat i * esz)"
      "usize_checked_add (unat (program_header_offset h)) (unat i * esz) = Some start"
      "usize_checked_add start esz = Some (start + esz)"
      using True assms(1) by (auto simp: usize_checked_Some start_def esz_def ph_start_def)
    have b: "bytes_at (start + k) n data = Done (sub_slice (start + k) (start + k + n) data)"
      if "k + n \<le> 56" for k n
      using that True e assms(1) by (intro bytes_at_Done) auto
    show ?thesis using True e m b[of 0 4]
      by (simp add: parse_program_header_def esz_def[symmetric] start_def[symmetric] Let_def b ph_at_def)
  next
    case False
    then show ?thesis
      by (auto simp: parse_program_header_def Let_def usize_checked_Some start_def esz_def ph_start_def
          split: option.splits)
  qed
qed

end
