(* ===== verification/Syscall.thy ===== *)
theory Syscall
  imports Vfs Scheduler Elf
begin

text \<open>
  The system-call interface: the numbers of \<^verbatim>\<open>shared/abi/src/syscall.rs\<close>, every handler of
  \<^verbatim>\<open>kernel/src/syscall/handler.rs\<close> and the dispatcher of \<^verbatim>\<open>kernel/src/syscall/mod.rs\<close>.  The state is
  the file system with the terminal and the screen, the scheduler, the caller's memory and the
  bytes sent to the serial port.  Memory is total: a pointer to an unmapped page, which would fault
  in the kernel, is not represented.
\<close>


section \<open>Numbers and arguments\<close>

datatype syscall =
    SWrite | SExit | SRead | SOpen | SClose | SExec | SFork | SWait | SYielder | SUptime | SLs | SStat
  | SGetPid | SSeek | SWriteFile | SGetUid | SGetGid | SBrk | SMkdir | SUnlink

fun syscall_id :: "syscall \<Rightarrow> u16" where
  "syscall_id SWrite = 1" | "syscall_id SExit = 2" | "syscall_id SRead = 3" | "syscall_id SOpen = 4"
| "syscall_id SClose = 5" | "syscall_id SExec = 6" | "syscall_id SFork = 7" | "syscall_id SWait = 8"
| "syscall_id SYielder = 9" | "syscall_id SUptime = 10" | "syscall_id SLs = 11"
| "syscall_id SStat = 12" | "syscall_id SGetPid = 13" | "syscall_id SSeek = 14"
| "syscall_id SWriteFile = 15" | "syscall_id SGetUid = 16" | "syscall_id SGetGid = 17"
| "syscall_id SBrk = 18" | "syscall_id SMkdir = 19" | "syscall_id SUnlink = 20"

definition syscall_from_u16 :: "u16 \<Rightarrow> syscall option" where
  "syscall_from_u16 value =
     (if value = 1 then Some SWrite else if value = 2 then Some SExit
      else if value = 3 then Some SRead else if value = 4 then Some SOpen
      else if value = 5 then Some SClose else if value = 6 then Some SExec
      else if value = 7 then Some SFork else if value = 8 then Some SWait
      else if value = 9 then Some SYielder else if value = 10 then Some SUptime
      else if value = 11 then Some SLs else if value = 12 then Some SStat
      else if value = 13 then Some SGetPid else if value = 14 then Some SSeek
      else if value = 15 then Some SWriteFile else if value = 16 then Some SGetUid
      else if value = 17 then Some SGetGid else if value = 18 then Some SBrk
      else if value = 19 then Some SMkdir else if value = 20 then Some SUnlink else None)"

record syscall_args =
  arg0 :: u64
  arg1 :: u64
  arg2 :: u64
  arg3 :: u64

datatype syscall_result = Success u64 | Error "64 word"

definition is_success :: "syscall_result \<Rightarrow> bool" where
  "is_success r = (case r of Success _ \<Rightarrow> True | Error _ \<Rightarrow> False)"

definition result_value :: "syscall_result \<Rightarrow> u64" where
  "result_value r = (case r of Success v \<Rightarrow> v | Error _ \<Rightarrow> 0)"

text \<open>How a handler ends: it returns, it gives up the processor first, or it never returns.\<close>

datatype outcome = Return syscall_result | YieldThen syscall_result | NoReturn

record ksys =
  ks_files :: files
  ks_kernel :: kernel
  ks_mem :: memory
  ks_serial :: "u8 list"

type_synonym handler = "syscall_args \<Rightarrow> ksys \<Rightarrow> (outcome \<times> ksys) run"

definition ret :: "syscall_result \<Rightarrow> ksys \<Rightarrow> (outcome \<times> ksys) run" where
  "ret r s = Done (Return r, s)"

definition with_vfs :: "vfs \<Rightarrow> ksys \<Rightarrow> ksys" where
  "with_vfs v s = s\<lparr>ks_files := (v, snd (ks_files s))\<rparr>"

definition serial_print :: "u8 list \<Rightarrow> ksys \<Rightarrow> ksys" where
  "serial_print bs s = s\<lparr>ks_serial := ks_serial s @ bs\<rparr>"

text \<open>\<open>core::str::from_utf8(slice).unwrap_or("")\<close> of a user buffer.\<close>

definition user_str :: "u64 \<Rightarrow> u64 \<Rightarrow> ksys \<Rightarrow> rstr" where
  "user_str p n s = (case from_utf8 (read_mem (ks_mem s) p (unat n)) of Some t \<Rightarrow> t | None \<Rightarrow> [])"


section \<open>Formatting\<close>

function dec_digits :: "nat \<Rightarrow> u8 list" where
  "dec_digits n = (if n < 10 then [of_nat (48 + n)] else dec_digits (n div 10) @ [of_nat (48 + n mod 10)])"
  by pat_completeness auto
termination by (relation "measure id") auto

function hex_digits :: "nat \<Rightarrow> u8 list" where
  "hex_digits n = (let d = n mod 16; c = [of_nat (if d < 10 then 48 + d else 87 + d)] in
     if n < 16 then c else hex_digits (n div 16) @ c)"
  by pat_completeness auto
termination by (relation "measure id") auto

declare dec_digits.simps [simp del] hex_digits.simps [simp del]

definition fmt_i32 :: "u32 \<Rightarrow> u8 list" where
  "fmt_i32 w = (let i = sint w in
     if i < 0 then ascii ''-'' @ dec_digits (nat (- i)) else dec_digits (nat i))"

fun parse_error_name :: "parse_error \<Rightarrow> u8 list" where
  "parse_error_name FileTooSmall = ascii ''FileTooSmall''"
| "parse_error_name BadMagic = ascii ''BadMagic''"
| "parse_error_name UnsupportedClass = ascii ''UnsupportedClass''"
| "parse_error_name UnsupportedEndian = ascii ''UnsupportedEndian''"
| "parse_error_name UnsupportedType = ascii ''UnsupportedType''"
| "parse_error_name UnsupportedMachine = ascii ''UnsupportedMachine''"
| "parse_error_name InvalidProgramHeaderSize = ascii ''InvalidProgramHeaderSize''"
| "parse_error_name ProgramHeaderOutOfBounds = ascii ''ProgramHeaderOutOfBounds''"


section \<open>Handlers\<close>

definition handle_mkdir :: handler where
  "handle_mkdir args s =
     (if arg0 args = 0 \<or> arg1 args = 0 then ret (Error 1) s
      else case vfs_mkdir (user_str (arg0 args) (arg1 args) s) (fst (ks_files s)) of
          (True, v) \<Rightarrow> ret (Success 0) (with_vfs v s)
        | (False, v) \<Rightarrow> ret (Error 1) (with_vfs v s))"

definition handle_unlink :: handler where
  "handle_unlink args s =
     (if arg0 args = 0 \<or> arg1 args = 0 then ret (Error 1) s
      else case vfs_unlink (user_str (arg0 args) (arg1 args) s) (fst (ks_files s)) of
          (True, v) \<Rightarrow> ret (Success 0) (with_vfs v s)
        | (False, v) \<Rightarrow> ret (Error 1) (with_vfs v s))"

definition handle_brk :: handler where
  "handle_brk args s = ret (Error 1) s"

definition handle_getuid :: handler where
  "handle_getuid args s = ret (Success 0) s"

definition handle_getgid :: handler where
  "handle_getgid args s = ret (Success 0) s"

definition handle_write_file :: handler where
  "handle_write_file args s =
     (if arg1 args = 0 \<or> arg2 args = 0 then ret (Error 1) s
      else run_bind (vfs_write (unat (arg0 args)) (read_mem (ks_mem s) (arg1 args) (unat (arg2 args))) (ks_files s))
        (\<lambda>(r, fs). ret (case r of Some len \<Rightarrow> Success (of_nat len) | None \<Rightarrow> Error 1) (s\<lparr>ks_files := fs\<rparr>)))"

definition handle_seek :: handler where
  "handle_seek args s = (case vfs_seek (unat (arg0 args)) (arg1 args) (fst (ks_files s)) of
       (True, v) \<Rightarrow> ret (Success 0) (with_vfs v s)
     | (False, v) \<Rightarrow> ret (Error 1) (with_vfs v s))"

definition handle_getpid :: handler where
  "handle_getpid args s = (case get_current_task_id (ks_kernel s) of
       Some tid \<Rightarrow> ret (Success (of_nat tid)) s | None \<Rightarrow> ret (Error 1) s)"

definition handle_uptime :: handler where
  "handle_uptime args s = ret (Success (get_uptime_ticks (ks_kernel s))) s"

definition handle_write :: handler where
  "handle_write args s =
     (if arg0 args = 0 \<or> arg1 args = 0 then ret (Error 1) s
      else ret (Success (arg1 args)) (serial_print (user_str (arg0 args) (arg1 args) s) s))"

definition handle_read :: handler where
  "handle_read args s =
     (if arg1 args = 0 \<or> arg2 args = 0 then ret (Error 1) s
      else run_bind (vfs_read (unat (arg0 args)) (read_mem (ks_mem s) (arg1 args) (unat (arg2 args))) (ks_files s))
        (\<lambda>((r, buf), fs). ret (case r of Some len \<Rightarrow> Success (of_nat len) | None \<Rightarrow> Error 1)
           (s\<lparr>ks_files := fs, ks_mem := write_mem (arg1 args) buf (ks_mem s)\<rparr>)))"

definition handle_exit :: handler where
  "handle_exit args s =
     (let s = serial_print (ascii ''\<newline>[syscall] exit code: '' @ fmt_i32 (ucast (arg0 args)) @ ascii ''\<newline>'') s in
      Done (NoReturn, s\<lparr>ks_kernel := mark_zombie (ks_kernel s)\<rparr>))"

definition handle_open :: handler where
  "handle_open args s =
     (if arg0 args = 0 \<or> arg1 args = 0 then ret (Error 1) s
      else case vfs_open (user_str (arg0 args) (arg1 args) s) (fst (ks_files s)) of
          (Some fd, v) \<Rightarrow> ret (Success (of_nat fd)) (with_vfs v s)
        | (None, v) \<Rightarrow> ret (Error 1) (with_vfs v s))"

definition handle_close :: handler where
  "handle_close args s =
     (let (_, v) = vfs_close (unat (arg0 args)) (fst (ks_files s)) in ret (Success 0) (with_vfs v s))"

text \<open>The loop of \<open>handle_ls\<close>: whole names with a newline, as long as they fit.\<close>

fun ls_loop :: "rstr list \<Rightarrow> nat \<Rightarrow> u8 list \<Rightarrow> (nat \<times> u8 list) run" where
  "ls_loop [] offset buf = Done (offset, buf)"
| "ls_loop (name # names) offset buf =
     run_bind (usize_add offset (length name)) (\<lambda>end.
     run_bind (usize_add end 1) (\<lambda>next.
     if length buf < next then Done (offset, buf)
     else ls_loop names next (copy_at end [10] (copy_at offset name buf))))"

definition handle_ls :: handler where
  "handle_ls args s =
     (if arg0 args = 0 \<or> arg1 args = 0 then ret (Error 1) s
      else run_bind (ls_loop (list_dir (fst (ks_files s))) 0 (read_mem (ks_mem s) (arg0 args) (unat (arg1 args))))
        (\<lambda>(offset, buf). ret (Success (of_nat offset))
           (s\<lparr>ks_mem := write_mem (arg0 args) buf (ks_mem s)\<rparr>)))"

definition stat_bytes :: "stat_abi \<Rightarrow> u8 list" where
  "stat_bytes st = le_bytes 8 (unat (st_size st)) @ le_bytes 4 (unat (st_file_type st))"

definition handle_stat :: handler where
  "handle_stat args s =
     (if arg0 args = 0 \<or> arg1 args = 0 \<or> arg2 args = 0 then ret (Error 1) s
      else case vfs_stat (user_str (arg0 args) (arg1 args) s) (fst (ks_files s)) of
          Some st \<Rightarrow> ret (Success 0) (s\<lparr>ks_mem := write_mem (arg2 args) (stat_bytes (to_abi st)) (ks_mem s)\<rparr>)
        | None \<Rightarrow> ret (Error 1) s)"

text \<open>The loop of \<open>handle_exec\<close> over the program headers: it counts the loadable ones and reports errors.\<close>

fun exec_loop :: "u8 list \<Rightarrow> elf_header \<Rightarrow> nat list \<Rightarrow> nat \<times> ksys \<Rightarrow> (nat \<times> ksys) run" where
  "exec_loop data header [] acc = Done acc"
| "exec_loop data header (i # is) (loaded, s) =
     run_bind (parse_program_header data header (of_nat i)) (\<lambda>r.
       case r of
         Inr (Some _) \<Rightarrow> run_bind (usize_add loaded 1) (\<lambda>n. exec_loop data header is (n, s))
       | Inr None \<Rightarrow> exec_loop data header is (loaded, s)
       | Inl e \<Rightarrow> exec_loop data header is (loaded,
           serial_print (ascii ''exec: program header error: '' @ parse_error_name e @ ascii ''\<newline>'') s))"

definition handle_exec :: handler where
  "handle_exec args s =
     (if arg0 args = 0 \<or> arg1 args = 0 then
        ret (Error 1) (serial_print (ascii ''exec: null pointer or zero size\<newline>'') s)
      else
        let elf_data = read_mem (ks_mem s) (arg0 args) (unat (arg1 args)) in
        run_bind (parse_header elf_data) (\<lambda>r. case r of
          Inl e \<Rightarrow> ret (Error 1) (serial_print
            (ascii ''exec: invalid ELF header: '' @ parse_error_name e @ ascii ''\<newline>'') s)
        | Inr header \<Rightarrow>
            run_bind (exec_loop elf_data header [0..<unat (program_header_count header)] (0, s)) (\<lambda>(loaded, s).
              ret (Success (eh_entry header)) (serial_print
                (ascii ''exec: loaded '' @ dec_digits loaded @ ascii '' segments, entry: 0x''
                 @ hex_digits (unat (eh_entry header)) @ ascii ''\<newline>'') s))))"

definition handle_fork :: handler where
  "handle_fork args s =
     ret (Error 1) (serial_print (ascii ''fork: simplified version - not fully implemented\<newline>'') s)"

definition handle_wait :: handler where
  "handle_wait args s = ret (Error 1) s"

definition handle_yielder :: handler where
  "handle_yielder args s =
     (if arg0 args \<noteq> 0 then Done (YieldThen (Success 0), s) else ret (Success 0) s)"

fun handle_syscall :: "syscall \<Rightarrow> handler" where
  "handle_syscall SWrite = handle_write"
| "handle_syscall SRead = handle_read"
| "handle_syscall SExit = handle_exit"
| "handle_syscall SOpen = handle_open"
| "handle_syscall SClose = handle_close"
| "handle_syscall SExec = handle_exec"
| "handle_syscall SFork = handle_fork"
| "handle_syscall SWait = handle_wait"
| "handle_syscall SYielder = handle_yielder"
| "handle_syscall SUptime = handle_uptime"
| "handle_syscall SLs = handle_ls"
| "handle_syscall SStat = handle_stat"
| "handle_syscall SGetPid = handle_getpid"
| "handle_syscall SSeek = handle_seek"
| "handle_syscall SWriteFile = handle_write_file"
| "handle_syscall SGetUid = handle_getuid"
| "handle_syscall SGetGid = handle_getgid"
| "handle_syscall SBrk = handle_brk"
| "handle_syscall SMkdir = handle_mkdir"
| "handle_syscall SUnlink = handle_unlink"

record syscall_header =
  sh_number :: u16
  sh_flags :: u16
  sh_reserved :: u32

definition syscall_header_new :: "syscall \<Rightarrow> syscall_header" where
  "syscall_header_new number = \<lparr>sh_number = syscall_id number, sh_flags = 0, sh_reserved = 0\<rparr>"

definition syscall_from_user :: "syscall_header \<Rightarrow> handler" where
  "syscall_from_user header args s = (case syscall_from_u16 (sh_number header) of
       Some syscall \<Rightarrow> handle_syscall syscall args s
     | None \<Rightarrow> ret (Error (- 1)) (serial_print
         (ascii ''unknown syscall: '' @ dec_digits (unat (sh_number header)) @ ascii ''\<newline>'') s))"


section \<open>Dispatch\<close>

text \<open>The register frame \<open>syscall_entry\<close> saves, and the value that ends up in RAX.\<close>

record syscall_frame =
  sf_rax :: u64
  sf_rdi :: u64
  sf_rsi :: u64
  sf_rdx :: u64
  sf_r10 :: u64

definition result_bits :: "syscall_result \<Rightarrow> u64" where
  "result_bits r = (case r of Success val \<Rightarrow> val | Error err \<Rightarrow> err)"

datatype dispatch_outcome = Rax u64 | YieldRax u64 | Never

definition syscall_dispatch :: "syscall_frame \<Rightarrow> ksys \<Rightarrow> (dispatch_outcome \<times> ksys) run" where
  "syscall_dispatch frame s =
     (let syscall_num = ucast (sf_rax frame) :: u16;
          args = \<lparr>arg0 = sf_rdi frame, arg1 = sf_rsi frame, arg2 = sf_rdx frame, arg3 = sf_r10 frame\<rparr> in
      case syscall_from_u16 syscall_num of
        Some syscall \<Rightarrow> run_bind (handle_syscall syscall args s) (\<lambda>(r, s'). Done (case r of
            Return res \<Rightarrow> Rax (result_bits res)
          | YieldThen res \<Rightarrow> YieldRax (result_bits res)
          | NoReturn \<Rightarrow> Never, s'))
      | None \<Rightarrow> Done (Rax 0xFFFFFFFFFFFFFFFF, s))"

end
