(* ===== verification/Vfs_Spec.thy ===== *)
theory Vfs_Spec
  imports Vfs
begin

text \<open>
  What the file system promises: an abstract file store (a finite map from names to contents, a
  finite map from descriptors to a name and a position), the specification of every call on it, and
  the refinement of theory \<open>Vfs\<close> to it.
\<close>


section \<open>Calls\<close>

datatype vfs_call =
    Open rstr | Close nat | Read nat "u8 list" | Write nat "u8 list" | Seek nat u64
  | Chdir rstr | Mkdir rstr | Unlink rstr

datatype vfs_ret = Fd "nat option" | Ok bool | Got "nat option" "u8 list" | Put "nat option"

fun vfs_do :: "vfs_call \<Rightarrow> files \<Rightarrow> (vfs_ret \<times> files) run" where
  "vfs_do (Open p) (v, t, s) = (case vfs_open p v of (r, v') \<Rightarrow> Done (Fd r, (v', t, s)))"
| "vfs_do (Close i) (v, t, s) = (case vfs_close i v of (r, v') \<Rightarrow> Done (Ok r, (v', t, s)))"
| "vfs_do (Read i buf) fs = run_bind (vfs_read i buf fs) (\<lambda>((r, buf'), fs'). Done (Got r buf', fs'))"
| "vfs_do (Write i buf) fs = run_bind (vfs_write i buf fs) (\<lambda>(r, fs'). Done (Put r, fs'))"
| "vfs_do (Seek i off) (v, t, s) = (case vfs_seek i off v of (r, v') \<Rightarrow> Done (Ok r, (v', t, s)))"
| "vfs_do (Chdir p) (v, t, s) = (case vfs_chdir p v of (r, v') \<Rightarrow> Done (Ok r, (v', t, s)))"
| "vfs_do (Mkdir p) (v, t, s) = (case vfs_mkdir p v of (r, v') \<Rightarrow> Done (Ok r, (v', t, s)))"
| "vfs_do (Unlink p) (v, t, s) = (case vfs_unlink p v of (r, v') \<Rightarrow> Done (Ok r, (v', t, s)))"

fun vfs_calls :: "vfs_call list \<Rightarrow> files \<Rightarrow> (vfs_ret list \<times> files) run" where
  "vfs_calls [] fs = Done ([], fs)"
| "vfs_calls (c # cs) fs = run_bind (vfs_do c fs) (\<lambda>(r, fs').
     run_bind (vfs_calls cs fs') (\<lambda>(rs, fs''). Done (r # rs, fs'')))"


section \<open>The abstract file store\<close>

record file_store =
  store :: "rstr \<rightharpoonup> file_type \<times> u8 list option"
  handles :: "nat \<rightharpoonup> rstr \<times> nat"
  curdir :: rstr

definition abs_fs :: "vfs \<Rightarrow> file_store" where
  "abs_fs v = \<lparr>store = (\<lambda>p. map_option (\<lambda>e. (ve_file_type e, ve_data e)) (find_entry p v)),
     handles = (\<lambda>i. if i < length (open_files v)
                    then map_option (\<lambda>fd. (fd_name fd, unat (fd_offset fd))) (open_files v ! i)
                    else None),
     curdir = vfs_cwd v\<rparr>"

text \<open>Opening: the lowest free descriptor, at position 0, or a failure because the name does not
  exist or all sixteen descriptors are in use.\<close>

definition spec_open :: "rstr \<Rightarrow> nat option \<Rightarrow> file_store \<Rightarrow> file_store \<Rightarrow> bool" where
  "spec_open p r a a' = (case r of
       Some j \<Rightarrow> p \<in> dom (store a) \<and> j < MAX_OPEN_FILES \<and> handles a j = None
         \<and> (\<forall>k<j. handles a k \<noteq> None) \<and> a' = a\<lparr>handles := (handles a)(j \<mapsto> (p, 0))\<rparr>
     | None \<Rightarrow> a' = a \<and> (p \<notin> dom (store a) \<or> (\<forall>k<MAX_OPEN_FILES. handles a k \<noteq> None)))"

definition spec_close :: "nat \<Rightarrow> bool \<Rightarrow> file_store \<Rightarrow> file_store \<Rightarrow> bool" where
  "spec_close i r a a' \<longleftrightarrow> r = (handles a i \<noteq> None) \<and> a' = a\<lparr>handles := (handles a)(i := None)\<rparr>"

definition spec_seek :: "nat \<Rightarrow> u64 \<Rightarrow> bool \<Rightarrow> file_store \<Rightarrow> file_store \<Rightarrow> bool" where
  "spec_seek i off r a a' = (case handles a i of
       None \<Rightarrow> \<not> r \<and> a' = a
     | Some (p, _) \<Rightarrow> r \<and> a' = a\<lparr>handles := (handles a)(i \<mapsto> (p, unat off))\<rparr>)"

text \<open>Reading a file: as many bytes as the buffer holds and the file has from the position on; the
  rest of the buffer is untouched and the position advances by what was read.\<close>

definition spec_read ::
  "nat \<Rightarrow> u8 list \<Rightarrow> nat option \<Rightarrow> u8 list \<Rightarrow> file_store \<Rightarrow> file_store \<Rightarrow> bool" where
  "spec_read i buf r buf' a a' = (case handles a i of
       None \<Rightarrow> r = None \<and> buf' = buf \<and> a' = a
     | Some (p, off) \<Rightarrow>
         if p = ascii ''tty'' then a' = a \<and> r \<noteq> None \<and> length buf' = length buf
         else case store a p of
           Some (_, Some data) \<Rightarrow>
             let n = min (length buf) (length data - off) in
             r = Some n \<and> buf' = take n (drop off data) @ drop n buf
             \<and> a' = a\<lparr>handles := (handles a)(i \<mapsto> (p, off + n))\<rparr>
         | _ \<Rightarrow> r = None \<and> buf' = buf \<and> a' = a)"

text \<open>Writing to a file appends to it, after zeros up to the position when that is past the end;
  the position advances by what was written.\<close>

definition spec_write :: "nat \<Rightarrow> u8 list \<Rightarrow> nat option \<Rightarrow> file_store \<Rightarrow> file_store \<Rightarrow> bool" where
  "spec_write i buf r a a' = (case handles a i of
       None \<Rightarrow> r = None \<and> a' = a
     | Some (p, off) \<Rightarrow>
         if p = ascii ''tty'' then
           a' = a \<and> r = (if from_utf8 buf = None then None else Some (length buf))
         else case store a p of
           Some (ty, Some data) \<Rightarrow>
             r = Some (length buf)
             \<and> a' = a\<lparr>store := (store a)(p \<mapsto>
                         (ty, Some (data @ replicate (off - length data) 0 @ buf))),
                     handles := (handles a)(i \<mapsto> (p, off + length buf))\<rparr>
         | _ \<Rightarrow> r = None \<and> a' = a)"

definition spec_chdir :: "rstr \<Rightarrow> bool \<Rightarrow> file_store \<Rightarrow> file_store \<Rightarrow> bool" where
  "spec_chdir p r a a' \<longleftrightarrow> r = (\<exists>d. store a p = Some (Directory, d))
     \<and> a' = (if r then a\<lparr>curdir := p\<rparr> else a)"

definition spec_mkdir :: "rstr \<Rightarrow> bool \<Rightarrow> file_store \<Rightarrow> file_store \<Rightarrow> bool" where
  "spec_mkdir p r a a' \<longleftrightarrow> r = (store a p = None)
     \<and> a' = (if r then a\<lparr>store := (store a)(p \<mapsto> (Directory, Some []))\<rparr> else a)"

text \<open>Unlinking removes the name and closes every descriptor open on it.\<close>

definition spec_unlink :: "rstr \<Rightarrow> bool \<Rightarrow> file_store \<Rightarrow> file_store \<Rightarrow> bool" where
  "spec_unlink p r a a' \<longleftrightarrow> r = (store a p \<noteq> None)
     \<and> a' = (if r then a\<lparr>store := (store a)(p := None),
                        handles := (\<lambda>i. case handles a i of
                          Some (q, off) \<Rightarrow> if q = p then None else Some (q, off) | None \<Rightarrow> None)\<rparr>
             else a)"

fun spec_step :: "vfs_call \<Rightarrow> vfs_ret \<Rightarrow> file_store \<Rightarrow> file_store \<Rightarrow> bool" where
  "spec_step (Open p) (Fd r) a a' = spec_open p r a a'"
| "spec_step (Close i) (Ok r) a a' = spec_close i r a a'"
| "spec_step (Read i buf) (Got r buf') a a' = spec_read i buf r buf' a a'"
| "spec_step (Write i buf) (Put r) a a' = spec_write i buf r a a'"
| "spec_step (Seek i off) (Ok r) a a' = spec_seek i off r a a'"
| "spec_step (Chdir p) (Ok r) a a' = spec_chdir p r a a'"
| "spec_step (Mkdir p) (Ok r) a a' = spec_mkdir p r a a'"
| "spec_step (Unlink p) (Ok r) a a' = spec_unlink p r a a'"
| "spec_step _ _ _ _ = False"


section \<open>Invariant\<close>

definition fd_ok :: "vfs_entry list \<Rightarrow> file_descriptor \<Rightarrow> bool" where
  "fd_ok es fd \<longleftrightarrow> (\<exists>e\<in>set es. ve_name e = fd_name fd \<and> ve_file_type e = fd_file_type fd)"

definition vfs_wf :: "vfs \<Rightarrow> bool" where
  "vfs_wf v \<longleftrightarrow> length (open_files v) = MAX_OPEN_FILES
     \<and> distinct (map ve_name (vfs_entries v))
     \<and> (\<forall>fd. Some fd \<in> set (open_files v) \<longrightarrow> fd_ok (vfs_entries v) fd)
     \<and> (\<forall>e\<in>set (vfs_entries v). \<forall>d. ve_data e = Some d \<longrightarrow> length d \<le> vec_limit)"

lemma find_update_data:
  "List.find (\<lambda>e. ve_name e = q) (update_data p d es) =
    (if q = p then map_option (\<lambda>e. e\<lparr>ve_data := Some d\<rparr>) (List.find (\<lambda>e. ve_name e = p) es)
     else List.find (\<lambda>e. ve_name e = q) es)"
  by (induction es) auto

lemma names_update_data [simp]: "map ve_name (update_data p d es) = map ve_name es"
  by (induction es) auto

lemma fd_ok_update_data [simp]: "fd_ok (update_data p d es) fd = fd_ok es fd"
  by (induction es) (auto simp: fd_ok_def)

lemma in_set_update_data:
  "e \<in> set (update_data p d es) \<Longrightarrow> e \<in> set es \<or> ve_data e = Some d"
  by (induction es) (auto split: if_splits)

lemma find_remove_at:
  assumes "distinct (map ve_name es)" "position (\<lambda>e. ve_name e = p) es = Some i"
  shows "List.find (\<lambda>e. ve_name e = q) (remove_at i es) =
    (if q = p then None else List.find (\<lambda>e. ve_name e = q) es)"
  using assms
proof (induction es arbitrary: i)
  case (Cons e es)
  show ?case
  proof (cases "ve_name e = p")
    case True
    with Cons.prems show ?thesis
      by (auto simp: remove_at_def find_None_iff rev_image_eqI)
  next
    case False
    with Cons.prems obtain k where "i = Suc k" "position (\<lambda>e. ve_name e = p) es = Some k" by auto
    with Cons.IH[of k] Cons.prems False show ?thesis by (auto simp: remove_at_def)
  qed
qed simp

lemma distinct_remove_at:
  "distinct (map f xs) \<Longrightarrow> distinct (map f (remove_at i xs))"
  by (auto simp: remove_at_def take_map[symmetric] drop_map[symmetric] distinct_append
      dest: set_take_disj_set_drop_if_distinct[of "map f xs" i "Suc i"])

lemma set_remove_at: "set (remove_at i xs) \<subseteq> set xs"
  by (auto simp: remove_at_def dest: in_set_takeD in_set_dropD)

lemma in_set_remove_at:
  "position P xs = Some i \<Longrightarrow> x \<in> set xs \<Longrightarrow> \<not> P x \<Longrightarrow> x \<in> set (remove_at i xs)"
  by (induction xs arbitrary: i) (auto simp: remove_at_def split: if_splits)

lemma find_entry_SomeD: "find_entry p v = Some e \<Longrightarrow> e \<in> set (vfs_entries v) \<and> ve_name e = p"
  by (auto simp: find_entry_def find_Some_iff)

lemma find_entry_None: "find_entry p v = None \<longleftrightarrow> (\<forall>e\<in>set (vfs_entries v). ve_name e \<noteq> p)"
  by (auto simp: find_entry_def find_None_iff)

lemma find_entry_unique:
  "vfs_wf v \<Longrightarrow> e \<in> set (vfs_entries v) \<Longrightarrow> ve_name e = p \<Longrightarrow> find_entry p v = Some e"
  by (cases "find_entry p v")
     (auto simp: find_entry_None vfs_wf_def distinct_map inj_on_eq_iff dest!: find_entry_SomeD)

lemma fd_ok_list_update:
  "\<forall>fd. Some fd \<in> set files \<longrightarrow> fd_ok es fd \<Longrightarrow> (\<And>fd. f = Some fd \<Longrightarrow> fd_ok es fd) \<Longrightarrow>
   Some fd \<in> set (files[i := f]) \<Longrightarrow> fd_ok es fd"
  using set_update_subset_insert[of files i f] by auto


section \<open>Refinement of each call\<close>

lemma open_refines:
  assumes "vfs_wf v" "vfs_open p v = (r, v')"
  shows "spec_open p r (abs_fs v) (abs_fs v') \<and> vfs_wf v'"
proof (cases r)
  case None
  with assms have e: "v' = v" "open_entries p (vfs_entries v) (open_files v) = None"
    by (auto simp: vfs_open_def split: option.splits)
  then show ?thesis using assms None
    by (auto simp: spec_open_def abs_fs_def find_entry_None open_entries_None vfs_wf_def
        position_None_iff all_set_conv_all_nth Option.is_none_def dom_def)
next
  case (Some j)
  with assms obtain files where f: "open_entries p (vfs_entries v) (open_files v) = Some (j, files)"
    "v' = v\<lparr>open_files := files\<rparr>" by (auto simp: vfs_open_def split: option.splits)
  from open_entries_Some[OF f(1)] obtain e where
    e: "position Option.is_none (open_files v) = Some j" "find_entry p v = Some e"
      "files = (open_files v)[j := Some \<lparr>fd_name = p, fd_file_type = ve_file_type e, fd_offset = 0\<rparr>]"
    by (auto simp: find_entry_def)
  note j = position_SomeD[OF e(1)]
  have "spec_open p r (abs_fs v) (abs_fs v')"
    using j e f Some assms(1)
    by (auto simp: spec_open_def abs_fs_def Option.is_none_def vfs_wf_def find_entry_def)
  moreover have "vfs_wf v'"
    using e f assms(1) find_entry_SomeD[OF e(2)]
    by (auto simp: vfs_wf_def fd_ok_def elim!: fd_ok_list_update[unfolded fd_ok_def, rotated -1])
  ultimately show ?thesis by simp
qed

lemma wf_update_fd:
  assumes "vfs_wf v" "\<And>fd. f = Some fd \<Longrightarrow> fd_ok (vfs_entries v) fd"
  shows "vfs_wf (v\<lparr>open_files := (open_files v)[i := f]\<rparr>)"
  using assms fd_ok_list_update[of "open_files v" "vfs_entries v" f _ i]
  by (auto simp: vfs_wf_def)

lemma wf_fd_ok:
  "vfs_wf v \<Longrightarrow> i < length (open_files v) \<Longrightarrow> open_files v ! i = Some fd \<Longrightarrow> fd_ok (vfs_entries v) fd"
  by (metis nth_mem vfs_wf_def)

lemma fd_ok_offset [simp]: "fd_ok es (fd\<lparr>fd_offset := off\<rparr>) = fd_ok es fd"
  by (simp add: fd_ok_def)

lemma wf_set_offset:
  "vfs_wf v \<Longrightarrow> i < length (open_files v) \<Longrightarrow> open_files v ! i = Some fd \<Longrightarrow>
   vfs_wf (set_offset i fd off v)"
  unfolding set_offset_def by (rule wf_update_fd) (auto dest: wf_fd_ok)

lemma find_entry_open_files [simp]: "find_entry p (v\<lparr>open_files := fs\<rparr>) = find_entry p v"
  by (simp add: find_entry_def)

lemma abs_set_offset:
  "i < length (open_files v) \<Longrightarrow> abs_fs (set_offset i fd off v) =
    (abs_fs v)\<lparr>handles := (handles (abs_fs v))(i \<mapsto> (fd_name fd, unat off))\<rparr>"
  by (auto simp: abs_fs_def set_offset_def fun_eq_iff)

lemma close_refines:
  assumes "vfs_wf v" "vfs_close i v = (r, v')"
  shows "spec_close i r (abs_fs v) (abs_fs v') \<and> vfs_wf v'"
proof -
  have "vfs_wf (v\<lparr>open_files := (open_files v)[i := None]\<rparr>)" using assms(1) by (rule wf_update_fd) simp
  then show ?thesis using assms
    by (auto simp: vfs_close_def spec_close_def abs_fs_def fun_eq_iff split: if_splits)
qed

lemma seek_refines:
  assumes "vfs_wf v" "vfs_seek i off v = (r, v')"
  shows "spec_seek i off r (abs_fs v) (abs_fs v') \<and> vfs_wf v'"
proof (cases "i < length (open_files v) \<and> open_files v ! i \<noteq> None")
  case True
  then obtain fd where fd: "open_files v ! i = Some fd" by auto
  with assms True have "r = True" "v' = set_offset i fd off v"
    by (auto simp: vfs_seek_def set_offset_def)
  with fd True assms(1) show ?thesis
    by (simp add: wf_set_offset abs_set_offset spec_seek_def) (simp add: abs_fs_def)
next
  case False
  with assms show ?thesis by (auto simp: vfs_seek_def spec_seek_def abs_fs_def split: if_splits)
qed

lemma chdir_refines:
  assumes "vfs_wf v" "vfs_chdir p v = (r, v')"
  shows "spec_chdir p r (abs_fs v) (abs_fs v') \<and> vfs_wf v'"
  using assms find_entry_unique[OF assms(1)]
  by (auto simp: vfs_chdir_def spec_chdir_def abs_fs_def vfs_wf_def find_entry_def split: if_splits
      dest!: find_entry_SomeD[unfolded find_entry_def])

lemma mkdir_refines:
  assumes "vfs_wf v" "vfs_mkdir p v = (r, v')"
  shows "spec_mkdir p r (abs_fs v) (abs_fs v') \<and> vfs_wf v'"
proof (cases "find_entry p v")
  case None
  have f: "List.find P (es @ [e]) = (case List.find P es of None \<Rightarrow> if P e then Some e else None | x \<Rightarrow> x)"
    for P and es :: "vfs_entry list" and e by (induction es) auto
  have "r = True" "v' = v\<lparr>vfs_entries := vfs_entries v @
      [\<lparr>ve_name = p, ve_file_type = Directory, ve_data = Some []\<rparr>]\<rparr>"
    using None assms(2) by (auto simp: find_entry_None vfs_mkdir_def)
  moreover from this None assms(1) have "vfs_wf v'"
    by (auto simp: vfs_wf_def fd_ok_def find_entry_None)
  ultimately show ?thesis using None
    by (auto simp: spec_mkdir_def abs_fs_def find_entry_def f fun_eq_iff split: option.splits)
next
  case (Some e)
  with assms show ?thesis
    by (auto simp: vfs_mkdir_def spec_mkdir_def abs_fs_def dest!: find_entry_SomeD split: if_splits)
qed

lemma unlink_refines:
  assumes "vfs_wf v" "vfs_unlink p v = (r, v')"
  shows "spec_unlink p r (abs_fs v) (abs_fs v') \<and> vfs_wf v'"
proof (cases "position (\<lambda>e. ve_name e = p) (vfs_entries v)")
  case None
  with assms show ?thesis
    by (auto simp: vfs_unlink_def spec_unlink_def abs_fs_def find_entry_def find_None_position)
next
  case (Some i)
  let ?es = "vfs_entries v"
  have d: "distinct (map ve_name ?es)" using assms(1) by (simp add: vfs_wf_def)
  have r: "r = True" "v' = v\<lparr>vfs_entries := remove_at i ?es,
      open_files := map (close_named p) (open_files v)\<rparr>"
    using assms(2) Some by (auto simp: vfs_unlink_def)
  have "find_entry p v \<noteq> None" using Some by (simp add: find_entry_def find_None_position)
  then have "spec_unlink p r (abs_fs v) (abs_fs v')"
    using r by (auto simp: spec_unlink_def abs_fs_def find_entry_def find_remove_at[OF d Some]
        close_named_def fun_eq_iff split: option.splits)
  moreover have "fd_ok (remove_at i ?es) fd" if fd: "Some fd \<in> set (open_files v')" for fd
  proof -
    from fd r have "Some fd \<in> set (open_files v)" "fd_name fd \<noteq> p"
      by (auto simp: close_named_def split: option.splits if_splits)
    moreover from this assms(1) obtain e where
      "e \<in> set ?es" "ve_name e = fd_name fd" "ve_file_type e = fd_file_type fd"
      by (auto simp: vfs_wf_def fd_ok_def)
    ultimately show ?thesis using in_set_remove_at[OF Some] by (auto simp: fd_ok_def)
  qed
  then have "vfs_wf v'" using r assms(1) distinct_remove_at[OF d] set_remove_at[of i ?es]
    by (auto simp: vfs_wf_def)
  ultimately show ?thesis by simp
qed

lemma handle_cases:
  obtains "handles (abs_fs v) i = None" "length (open_files v) \<le> i \<or> open_files v ! i = None"
  | fd where "i < length (open_files v)" "open_files v ! i = Some fd"
      "handles (abs_fs v) i = Some (fd_name fd, unat (fd_offset fd))"
  by (cases "i < length (open_files v)"; cases "open_files v ! i") (auto simp: abs_fs_def)

lemma store_find: "store (abs_fs v) p = map_option (\<lambda>e. (ve_file_type e, ve_data e)) (find_entry p v)"
  by (simp add: abs_fs_def)

lemma wf_data_bound: "vfs_wf v \<Longrightarrow> find_entry p v = Some e \<Longrightarrow> ve_data e = Some d \<Longrightarrow> length d \<le> vec_limit"
  by (auto simp: vfs_wf_def dest!: find_entry_SomeD)

lemma unat_of_nat_vec [simp]: "n \<le> vec_limit \<Longrightarrow> unat (of_nat n :: u64) = n"
  by (simp add: vec_limit_def)

lemma read_refines:
  assumes "vfs_wf v"
  shows "\<exists>r buf' v' t'. vfs_read i buf (v, t, scr) = Done ((r, buf'), (v', t', scr))
    \<and> spec_read i buf r buf' (abs_fs v) (abs_fs v') \<and> vfs_wf v'"
proof (cases rule: handle_cases[of v i])
  case 1
  with assms show ?thesis by (auto simp: vfs_read_def spec_read_def)
next
  case (2 fd)
  show ?thesis
  proof (cases "fd_name fd = ascii ''tty''")
    case True
    with 2 assms show ?thesis
      by (cases "read_line t"; cases "fst (read_line t)")
         (auto simp: vfs_read_def spec_read_def Let_def)
  next
    case False
    show ?thesis
    proof (cases "\<exists>e data. find_entry (fd_name fd) v = Some e \<and> ve_data e = Some data")
      case True
      then obtain e data where e: "find_entry (fd_name fd) v = Some e" "ve_data e = Some data" by auto
      let ?off = "unat (fd_offset fd)" and ?n = "min (length buf) (length data - unat (fd_offset fd))"
      note lim = wf_data_bound[OF assms e]
      have add: "add_or_panic (fd_offset fd) (of_nat ?n) = Done (fd_offset fd + of_nat ?n)"
        "unat (fd_offset fd + of_nat ?n) = ?off + ?n" if "?off < length data"
        using that lim by (auto simp: add_or_panic_def vec_limit_def unat_add_no_wrap)
      have "abs_fs v = (abs_fs v)\<lparr>handles := (handles (abs_fs v))(i \<mapsto> (fd_name fd, ?off))\<rparr>"
        using 2 by (auto simp: fun_upd_idem)
      then show ?thesis using 2 False e add assms
        by (cases "?off < length data")
           (auto simp: vfs_read_def spec_read_def store_find abs_set_offset wf_set_offset Let_def
             copy_at_def sub_slice_def min_def)
    next
      case none: False
      then show ?thesis using 2 False assms
        by (auto simp: vfs_read_def spec_read_def store_find split: option.splits)
    qed
  qed
qed

lemma write_refines:
  assumes "vfs_wf v" "vfs_write i buf (v, t, scr) = Done (r, (v', t', scr'))"
  shows "spec_write i buf r (abs_fs v) (abs_fs v') \<and> vfs_wf v'"
proof (cases rule: handle_cases[of v i])
  case 1
  with assms show ?thesis by (auto simp: vfs_write_def spec_write_def split: if_splits)
next
  case (2 fd)
  show ?thesis
  proof (cases "fd_name fd = ascii ''tty''")
    case True
    with 2 assms show ?thesis
      by (auto simp: vfs_write_def spec_write_def from_utf8_def run_bind_eq_Done split: option.splits)
  next
    case tty: False
    show ?thesis
    proof (cases "\<exists>e data. find_entry (fd_name fd) v = Some e \<and> ve_data e = Some data")
      case True
      then obtain e data where e: "find_entry (fd_name fd) v = Some e" "ve_data e = Some data" by auto
      let ?p = "fd_name fd" and ?off = "unat (fd_offset fd)"
      let ?new = "data @ replicate (?off - length data) 0 @ buf"
      let ?w = "v\<lparr>vfs_entries := update_data ?p ?new (vfs_entries v)\<rparr>"
      from assms(2) 2 e tty obtain off where off: "length ?new \<le> vec_limit"
        "add_or_panic (fd_offset fd) (of_nat (length buf)) = Done off"
        and r: "r = Some (length buf)" "v' = set_offset i fd off ?w"
        by (auto simp: vfs_write_def run_bind_eq_Done Let_def run_guard_def split: if_splits)
      have o: "unat off = ?off + length buf" using add_or_panic_Done[OF off(2)] off(1) by simp
      have w: "vfs_wf ?w" using assms(1) off(1) unfolding vfs_wf_def
        by (auto dest!: in_set_update_data)
      have "store (abs_fs ?w) = (store (abs_fs v))(?p \<mapsto> (ve_file_type e, Some ?new))"
        "handles (abs_fs ?w) = handles (abs_fs v)" "curdir (abs_fs ?w) = curdir (abs_fs v)"
        using e by (auto simp: abs_fs_def find_entry_def find_update_data fun_eq_iff)
      then show ?thesis using 2 tty e r o wf_set_offset[OF w, of i fd off]
        by (simp add: spec_write_def store_find abs_set_offset)
    next
      case none: False
      then show ?thesis using 2 tty assms
        by (auto simp: vfs_write_def spec_write_def store_find split: option.splits)
    qed
  qed
qed

lemma tty_write_ok:
  "screen_ok scr \<Longrightarrow> \<forall>c\<in>set cs. c < usize_limit \<Longrightarrow>
   \<exists>scr'. tty_write cs (t, scr) = Done (t, scr') \<and> screen_ok scr'"
  using video_write_str_ok[of scr cs] by (auto simp: tty_write_def video_write_str_def)

lemma vfs_do_refines:
  assumes "vfs_wf v" "vfs_do c (v, t, scr) = Done (r, (v', t', scr'))"
  shows "spec_step c r (abs_fs v) (abs_fs v') \<and> vfs_wf v'"
proof (cases c)
  case (Read i buf)
  with read_refines[OF assms(1), of i buf t scr] assms(2) show ?thesis
    by (auto simp: run_bind_eq_Done)
next
  case (Write i buf)
  with write_refines[OF assms(1)] assms(2) show ?thesis by (fastforce simp: run_bind_eq_Done)
qed (use assms(2) in \<open>auto split: prod.splits dest: open_refines[OF assms(1)]
      close_refines[OF assms(1)] seek_refines[OF assms(1)] chdir_refines[OF assms(1)]
      mkdir_refines[OF assms(1)] unlink_refines[OF assms(1)]\<close>)

text \<open>The writes that overrun the capacity of a \<open>Vec\<close>.\<close>

definition write_overflows :: "vfs_call \<Rightarrow> file_store \<Rightarrow> bool" where
  "write_overflows c a = (case c of
       Write i buf \<Rightarrow> (case handles a i of
           Some (p, off) \<Rightarrow> p \<noteq> ascii ''tty'' \<and> (case store a p of
               Some (_, Some data) \<Rightarrow> vec_limit < max off (length data) + length buf
             | _ \<Rightarrow> False)
         | None \<Rightarrow> False)
     | _ \<Rightarrow> False)"

lemma write_returns:
  assumes "vfs_wf v" "screen_ok scr"
  shows "if write_overflows (Write i buf) (abs_fs v) then vfs_write i buf (v, t, scr) = Panic
    else \<exists>r v' scr'. vfs_write i buf (v, t, scr) = Done (r, (v', t, scr')) \<and> screen_ok scr'"
proof (cases rule: handle_cases[of v i])
  case 1
  with assms show ?thesis by (auto simp: vfs_write_def write_overflows_def)
next
  case (2 fd)
  show ?thesis
  proof (cases "fd_name fd = ascii ''tty''")
    case True
    with 2 assms(2) show ?thesis
      by (cases "chars_of buf")
         (auto simp: vfs_write_def write_overflows_def dest!: chars_of_bound
           dest: tty_write_ok[of scr _ t])
  next
    case False
    have p: "vec_limit < unat (fd_offset fd) + length buf"
      if "add_or_panic (fd_offset fd) (of_nat (length buf)) = Panic"
      using that by (cases "length buf \<le> vec_limit")
        (auto simp: add_or_panic_def vec_limit_def split: if_splits)
    show ?thesis using 2 False assms(2) p
      by (cases "add_or_panic (fd_offset fd) (of_nat (length buf))")
         (auto simp: vfs_write_def write_overflows_def store_find Let_def run_guard_def max_def
          split: option.splits)
  qed
qed

lemma vfs_calls_append:
  "vfs_calls (cs @ ds) fs = run_bind (vfs_calls cs fs) (\<lambda>(rs, fs').
     run_bind (vfs_calls ds fs') (\<lambda>(qs, fs''). Done (rs @ qs, fs'')))"
proof (induction cs arbitrary: fs)
  case Nil
  show ?case by (cases "vfs_calls ds fs") auto
qed (simp add: run_bind_assoc case_prod_beta')

fun got_bytes :: "vfs_ret \<Rightarrow> u8 list" where
  "got_bytes (Got (Some n) buf) = take n buf"
| "got_bytes _ = []"

lemma read_file:
  fixes buf :: "u8 list"
  assumes "vfs_wf v" "handles (abs_fs v) i = Some (p, off)" "p \<noteq> ascii ''tty''"
    "store (abs_fs v) p = Some (ty, Some data)"
  defines "n \<equiv> min (length buf) (length data - off)"
  shows "\<exists>v' t'. vfs_do (Read i buf) (v, t, scr)
      = Done (Got (Some n) (take n (drop off data) @ drop n buf), (v', t', scr))
    \<and> vfs_wf v' \<and> abs_fs v' = (abs_fs v)\<lparr>handles := (handles (abs_fs v))(i \<mapsto> (p, off + n))\<rparr>"
  using read_refines[OF assms(1), of i buf t scr] assms(2-4)
  by (auto simp: spec_read_def n_def Let_def)

lemma read_chunks:
  assumes "vfs_wf v" "handles (abs_fs v) i = Some (p, off)" "p \<noteq> ascii ''tty''"
    "store (abs_fs v) p = Some (ty, Some data)"
  shows "\<exists>rs fs. vfs_calls (map (Read i) bufs) (v, t, scr) = Done (rs, fs)
    \<and> concat (map got_bytes rs) = take (sum_list (map length bufs)) (drop off data)"
  using assms
proof (induction bufs arbitrary: v t off)
  case (Cons buf bufs)
  let ?n = "min (length buf) (length data - off)"
  from read_file[OF Cons.prems, of buf t scr] obtain v' t' where
    v: "vfs_do (Read i buf) (v, t, scr)
        = Done (Got (Some ?n) (take ?n (drop off data) @ drop ?n buf), (v', t', scr))"
      "vfs_wf v'" "abs_fs v' = (abs_fs v)\<lparr>handles := (handles (abs_fs v))(i \<mapsto> (p, off + ?n))\<rparr>"
    by blast
  from Cons.IH[of v' "off + ?n" t'] v Cons.prems obtain rs fs where
    "vfs_calls (map (Read i) bufs) (v', t', scr) = Done (rs, fs)"
    "concat (map got_bytes rs) = take (sum_list (map length bufs)) (drop (off + ?n) data)" by auto
  moreover have "take ?n (drop off data) @ take k (drop (off + ?n) data)
      = take (length buf + k) (drop off data)" for k
    by (simp add: min_def take_add add.commute[of _ off])
  ultimately show ?case using v(1) by (cases fs) (auto simp del: vfs_do.simps)
qed simp

lemma write_file:
  assumes "vfs_wf v" "handles (abs_fs v) i = Some (p, off)" "p \<noteq> ascii ''tty''"
    "store (abs_fs v) p = Some (ty, Some data)" "max off (length data) + length buf \<le> vec_limit"
  shows "\<exists>v'. vfs_do (Write i buf) (v, t, scr) = Done (Put (Some (length buf)), (v', t, scr))
    \<and> vfs_wf v' \<and> abs_fs v' = (abs_fs v)
        \<lparr>store := (store (abs_fs v))(p \<mapsto> (ty, Some (data @ replicate (off - length data) 0 @ buf))),
         handles := (handles (abs_fs v))(i \<mapsto> (p, off + length buf))\<rparr>"
proof (cases rule: handle_cases[of v i])
  case (2 fd)
  have "\<exists>v'. vfs_write i buf (v, t, scr) = Done (Some (length buf), (v', t, scr))"
    using 2 assms(2-5)
    by (auto simp: vfs_write_def store_find Let_def run_guard_def add_or_panic_def vec_limit_def)
  then obtain v' where v: "vfs_write i buf (v, t, scr) = Done (Some (length buf), (v', t, scr))" ..
  with write_refines[OF assms(1) v] assms(2-4) show ?thesis by (auto simp: spec_write_def)
qed (use assms(2) in simp)

lemma write_chunks:
  assumes "vfs_wf v" "handles (abs_fs v) i = Some (p, length data)" "p \<noteq> ascii ''tty''"
    "store (abs_fs v) p = Some (ty, Some data)" "length data + length (concat bufs) \<le> vec_limit"
  shows "\<exists>rs v'. vfs_calls (map (Write i) bufs) (v, t, scr) = Done (rs, (v', t, scr))
    \<and> vfs_wf v' \<and> abs_fs v' = (abs_fs v)
        \<lparr>store := (store (abs_fs v))(p \<mapsto> (ty, Some (data @ concat bufs))),
         handles := (handles (abs_fs v))(i \<mapsto> (p, length (data @ concat bufs)))\<rparr>"
  using assms
proof (induction bufs arbitrary: v data)
  case Nil
  then show ?case by (auto simp: fun_upd_idem)
next
  case (Cons buf bufs)
  from write_file[OF Cons.prems(1-4), of buf t scr] Cons.prems(5) obtain v' where
    v: "vfs_do (Write i buf) (v, t, scr) = Done (Put (Some (length buf)), (v', t, scr))" "vfs_wf v'"
      "abs_fs v' = (abs_fs v)\<lparr>store := (store (abs_fs v))(p \<mapsto> (ty, Some (data @ buf))),
         handles := (handles (abs_fs v))(i \<mapsto> (p, length data + length buf))\<rparr>"
    by auto
  from Cons.IH[of v' "data @ buf"] v(2,3) Cons.prems(3,5)
  have "\<exists>rs v''. vfs_calls (map (Write i) bufs) (v', t, scr) = Done (rs, (v'', t, scr)) \<and> vfs_wf v''
    \<and> abs_fs v'' = (abs_fs v)\<lparr>store := (store (abs_fs v))(p \<mapsto> (ty, Some (data @ concat (buf # bufs)))),
         handles := (handles (abs_fs v))(i \<mapsto> (p, length (data @ concat (buf # bufs))))\<rparr>"
    by (simp add: add.assoc fun_upd_def cong: if_cong)
  with v(1) show ?case by (auto simp: fun_upd_def simp del: vfs_do.simps)
qed

lemma seek_file:
  assumes "vfs_wf v" "handles (abs_fs v) i = Some (p, off)"
  shows "\<exists>v'. vfs_do (Seek i pos) (v, t, scr) = Done (Ok True, (v', t, scr)) \<and> vfs_wf v'
    \<and> abs_fs v' = (abs_fs v)\<lparr>handles := (handles (abs_fs v))(i \<mapsto> (p, unat pos))\<rparr>"
  using seek_refines[OF assms(1), of i pos] assms(2)
  by (cases "vfs_seek i pos v") (auto simp: spec_seek_def)

lemma vfs_calls_wf:
  "vfs_calls cs (v, t, scr) = Done (rs, (v', t', scr')) \<Longrightarrow> vfs_wf v \<Longrightarrow> vfs_wf v'"
proof (induction cs arbitrary: v t scr rs)
  case (Cons c cs)
  from Cons.prems(1) obtain r w u s rs' where "vfs_do c (v, t, scr) = Done (r, (w, u, s))"
    "vfs_calls cs (w, u, s) = Done (rs', (v', t', scr'))" by (auto simp: run_bind_eq_Done)
  with Cons.IH Cons.prems(2) vfs_do_refines show ?case by blast
qed simp

end
