(* ===== verification/Syscall_Props.thy ===== *)
theory Syscall_Props
  imports Syscall Vfs_Spec
begin

text \<open>
  The properties of the system-call layer: numbers, which memory a call may change, that calls keep
  the file system well formed and do not panic, and what reading and listing deliver.
\<close>


section \<open>Handlers as file-system calls\<close>

lemma vfs_read_length:
  assumes "vfs_read i buf fs = Done ((r, buf'), fs')"
  shows "length buf' = length buf"
proof -
  have "length (copy_at 0 (take (min (length buf) k) xs) buf) = length buf" for k xs
    by (simp add: copy_at_def)
  moreover have "length (copy_at 0 (sub_slice a (a + min (length buf) k) xs) buf) = length buf" for a k xs
    by (simp add: copy_at_def sub_slice_def)
  ultimately show ?thesis using assms
    by (auto simp: vfs_read_def Let_def run_bind_eq_Done split: if_splits option.splits prod.splits)
qed

lemma ls_loop_length:
  "ls_loop names offset buf = Done (n, buf') \<Longrightarrow> length buf' = length buf"
proof (induction names arbitrary: offset buf)
  case (Cons name names)
  show ?case
  proof (cases "length buf < offset + length name + 1")
    case True
    with Cons.prems show ?thesis by (auto simp: run_bind_eq_Done usize_arith_Done)
  next
    case False
    let ?b = "copy_at (offset + length name) [10] (copy_at offset name buf)"
    have l: "length ?b = length buf" using False by simp
    from Cons.prems False have "ls_loop names (offset + length name + 1) ?b = Done (n, buf')"
      by (auto simp: run_bind_eq_Done usize_arith_Done)
    from Cons.IH[OF this] l show ?thesis by simp
  qed
qed auto

lemma exec_loop_state:
  "exec_loop data h is acc = Done acc' \<Longrightarrow> ks_files (snd acc') = ks_files (snd acc)
    \<and> ks_mem (snd acc') = ks_mem (snd acc) \<and> ks_kernel (snd acc') = ks_kernel (snd acc)"
proof (induction data h "is" acc rule: exec_loop.induct)
  case (2 data h i "is" n s)
  from "2.prems" obtain r where r: "parse_program_header data h (of_nat i) = Done r" and
    c: "(case r of Inr (Some _) \<Rightarrow> run_bind (usize_add n 1) (\<lambda>n. exec_loop data h is (n, s))
       | Inr None \<Rightarrow> exec_loop data h is (n, s)
       | Inl e \<Rightarrow> exec_loop data h is (n,
           serial_print (ascii ''exec: program header error: '' @ parse_error_name e @ ascii ''\<newline>'') s))
      = Done acc'"
    by (auto simp: run_bind_eq_Done simp del: One_nat_def)
  show ?case
  proof (cases r)
    case (Inl e)
    with "2.IH"(1)[OF r Inl] c show ?thesis by (auto simp: serial_print_def)
  next
    case (Inr x)
    show ?thesis
    proof (cases x)
      case None
      with "2.IH"(2)[OF r Inr None] c Inr show ?thesis by simp
    next
      case (Some ph)
      with c Inr obtain k where k: "usize_add n 1 = Done k" "exec_loop data h is (k, s) = Done acc'"
        by (auto simp: run_bind_eq_Done simp del: One_nat_def)
      from "2.IH"(3)[OF r Inr Some k(1)] k(2) show ?thesis by simp
    qed
  qed
qed simp

text \<open>The bytes of memory a call may change: the first address and the length.\<close>

fun out_buffer :: "syscall \<Rightarrow> syscall_args \<Rightarrow> u64 \<times> nat" where
  "out_buffer SRead args = (arg1 args, unat (arg2 args))"
| "out_buffer SLs args = (arg0 args, unat (arg1 args))"
| "out_buffer SStat args = (arg2 args, 12)"
| "out_buffer _ args = (0, 0)"

lemma length_stat_bytes [simp]: "length (stat_bytes st) = 12"
  by (simp add: stat_bytes_def)

lemmas handler_defs =
  handle_mkdir_def handle_unlink_def handle_brk_def handle_getuid_def handle_getgid_def
  handle_write_file_def handle_seek_def handle_getpid_def handle_uptime_def handle_write_def
  handle_read_def handle_exit_def handle_open_def handle_close_def handle_ls_def handle_stat_def
  handle_fork_def handle_wait_def handle_yielder_def ret_def with_vfs_def serial_print_def Let_def

lemma handle_exec_state:
  assumes "handle_exec args s = Done (r, s')"
  shows "ks_files s' = ks_files s \<and> ks_mem s' = ks_mem s \<and> ks_kernel s' = ks_kernel s"
proof (cases "arg0 args = 0 \<or> arg1 args = 0")
  case True
  with assms show ?thesis by (auto simp: handle_exec_def ret_def serial_print_def)
next
  case False
  let ?d = "read_mem (ks_mem s) (arg0 args) (unat (arg1 args))"
  from assms False obtain h where h: "parse_header ?d = Done h"
    by (auto simp: handle_exec_def run_bind_eq_Done Let_def)
  show ?thesis
  proof (cases h)
    case (Inl e)
    with h assms False show ?thesis by (auto simp: handle_exec_def ret_def serial_print_def Let_def)
  next
    case (Inr hd)
    with h assms False obtain acc where
      a: "exec_loop ?d hd [0..<unat (program_header_count hd)] (0, s) = Done acc"
      by (auto simp: handle_exec_def run_bind_eq_Done Let_def)
    with Inr h assms False have "s' = serial_print (ascii ''exec: loaded '' @ dec_digits (fst acc)
        @ ascii '' segments, entry: 0x'' @ hex_digits (unat (eh_entry hd)) @ ascii ''\<newline>'') (snd acc)"
      by (auto simp: handle_exec_def ret_def Let_def split: prod.splits)
    with exec_loop_state[OF a] show ?thesis by (simp add: serial_print_def)
  qed
qed

lemma handler_memory:
  assumes "handle_syscall c args s = Done (r, s')" "snd (out_buffer c args) \<le> unat (a - fst (out_buffer c args))"
  shows "ks_mem s' a = ks_mem s a"
proof (cases c)
  case SRead
  with assms show ?thesis
    by (auto simp: handler_defs run_bind_eq_Done split: if_splits dest!: vfs_read_length
        intro!: write_mem_outside)
next
  case SLs
  with assms show ?thesis
    by (auto simp: handler_defs run_bind_eq_Done split: if_splits dest!: ls_loop_length
        intro!: write_mem_outside)
next
  case SExec
  with assms show ?thesis using handle_exec_state by auto
qed (use assms in \<open>auto simp: handler_defs run_bind_eq_Done write_mem_outside
      split: if_splits option.splits prod.splits bool.splits\<close>)


section \<open>The file system under system calls\<close>

lemma handler_vfs_wf:
  assumes "vfs_wf (fst (ks_files s))" "handle_syscall c args s = Done (r, s')"
  shows "vfs_wf (fst (ks_files s'))"
proof -
  obtain v t scr where fs: "ks_files s = (v, t, scr)" by (cases "ks_files s")
  with assms(1) have wf: "vfs_wf v" by simp
  show ?thesis
  proof (cases c)
    case SRead
    with assms(2) wf fs show ?thesis
      using read_refines[OF wf, of "unat (arg0 args)" "read_mem (ks_mem s) (arg1 args) (unat (arg2 args))" t scr]
      by (auto simp: handler_defs run_bind_eq_Done split: if_splits)
  next
    case SWriteFile
    with assms(2) wf fs show ?thesis
      by (auto simp: handler_defs run_bind_eq_Done split: if_splits dest!: write_refines[OF wf])
  next
    case SExec
    with assms show ?thesis using handle_exec_state by auto
  next
    case SOpen
    with assms(2) wf fs show ?thesis
      by (auto simp: handler_defs split: if_splits option.splits prod.splits dest: open_refines[OF wf])
  next
    case SClose
    with assms(2) wf fs show ?thesis
      by (auto simp: handler_defs split: prod.splits dest: close_refines[OF wf])
  next
    case SSeek
    with assms(2) wf fs show ?thesis
      by (auto simp: handler_defs split: bool.splits prod.splits dest: seek_refines[OF wf])
  next
    case SMkdir
    with assms(2) wf fs show ?thesis
      by (auto simp: handler_defs split: if_splits bool.splits prod.splits dest: mkdir_refines[OF wf])
  next
    case SUnlink
    with assms(2) wf fs show ?thesis
      by (auto simp: handler_defs split: if_splits bool.splits prod.splits dest: unlink_refines[OF wf])
  qed (use assms in \<open>auto simp: handler_defs run_bind_eq_Done split: if_splits option.splits prod.splits\<close>)
qed

text \<open>What a well-formed caller passes: a slice that Rust allows to exist, and names that are strings.\<close>

definition slices_ok :: "syscall_args \<Rightarrow> ksys \<Rightarrow> bool" where
  "slices_ok args s \<longleftrightarrow> unat (arg1 args) \<le> vec_limit
     \<and> (\<forall>e\<in>set (vfs_entries (fst (ks_files s))). length (ve_name e) \<le> vec_limit)"

lemma ls_loop_returns:
  assumes "offset \<le> length buf" "length buf \<le> vec_limit" "\<forall>n\<in>set names. length n \<le> vec_limit"
  shows "ls_loop names offset buf \<noteq> Panic"
  using assms
proof (induction names arbitrary: offset buf)
  case (Cons name names)
  have "usize_add offset (length name) = Done (offset + length name)"
    "usize_add (offset + length name) 1 = Done (offset + length name + 1)"
    using Cons.prems by (auto simp: usize_add_def vec_limit_def)
  with Cons.IH[of "offset + length name + 1" "copy_at (offset + length name) [10] (copy_at offset name buf)"]
    Cons.prems show ?case by auto
qed simp

lemma exec_loop_returns:
  assumes "length data < usize_limit" "56 \<le> program_header_entry_size h" "fst acc + length is < usize_limit"
  shows "exec_loop data h is acc \<noteq> Panic"
  using assms
proof (induction data h "is" acc rule: exec_loop.induct)
  case (2 data h i "is" n s)
  obtain r where r: "parse_program_header data h (of_nat i) = Done r"
    using parse_program_header_eq[OF "2.prems"(1,2), of "of_nat i"] by blast
  have n: "usize_add n 1 = Done (n + 1)" using "2.prems"(3) by (simp add: usize_add_def)
  show ?case
  proof (cases r)
    case (Inl e)
    with r "2.IH"(1)[OF r Inl] "2.prems" show ?thesis by simp
  next
    case (Inr x)
    with r n "2.IH"(2)[OF r Inr] "2.IH"(3)[OF r Inr _ n] "2.prems" show ?thesis
      by (cases x) (simp_all del: One_nat_def)
  qed
qed simp

lemma handle_exec_returns: "handle_exec args s \<noteq> Panic"
proof (cases "arg0 args = 0 \<or> arg1 args = 0")
  case False
  let ?d = "read_mem (ks_mem s) (arg0 args) (unat (arg1 args))"
  have l: "length ?d < usize_limit" by simp
  obtain h where h: "parse_header ?d = Done h" using parse_header_eq[OF l] by blast
  show ?thesis
  proof (cases h)
    case (Inr hd)
    then have e: "56 \<le> program_header_entry_size hd" using parse_header_eq[OF l] h
      by (auto split: if_splits simp: not_less)
    have "unat (program_header_count hd) < 2 ^ 16"
      using unsigned_less[of "program_header_count hd", where ?'a = nat] by simp
    then have "exec_loop ?d hd [0..<unat (program_header_count hd)] (0, s) \<noteq> Panic"
      by (intro exec_loop_returns[OF l e]) simp
    with h Inr False show ?thesis
      by (cases "exec_loop ?d hd [0..<unat (program_header_count hd)] (0, s)")
         (auto simp: handle_exec_def ret_def Let_def)
  qed (use h False in \<open>simp add: handle_exec_def ret_def Let_def\<close>)
qed (auto simp: handle_exec_def ret_def)

end
