(* ===== verification/Libturnix.thy ===== *)
theory Libturnix
  imports Syscall_Props
begin

text \<open>
  The user library (\<^verbatim>\<open>userland/libturnix/src/lib.rs\<close>; \<^verbatim>\<open>userland/libnewos/src/lib.rs\<close> is the same text with
  the other name of the ABI crate), on top of the kernel's dispatcher, and the properties that join
  the two sides.  Registers a wrapper does not set keep what they had: the argument \<open>r\<close>.
  A result \<open>None\<close> is a call that does not return to its caller; \<open>exec\<close> and \<open>exit\<close> loop after the
  system call, so they never do.
\<close>


section \<open>Definitions\<close>

text \<open>The \<open>syscall\<close> instruction with its operands in registers, up to the value left in RAX.\<close>

definition do_syscall :: "u64 \<Rightarrow> syscall_args \<Rightarrow> ksys \<Rightarrow> (u64 option \<times> ksys) run" where
  "do_syscall num a s = run_bind
     (syscall_dispatch \<lparr>sf_rax = num, sf_rdi = arg0 a, sf_rsi = arg1 a, sf_rdx = arg2 a, sf_r10 = arg3 a\<rparr> s)
     (\<lambda>(d, s'). Done (case d of Rax res \<Rightarrow> Some res | YieldRax res \<Rightarrow> Some res | Never \<Rightarrow> None, s'))"

definition syscall0 :: "u64 \<Rightarrow> syscall_args \<Rightarrow> ksys \<Rightarrow> (u64 option \<times> ksys) run" where
  "syscall0 num r s = do_syscall num r s"

definition syscall1 :: "u64 \<Rightarrow> u64 \<Rightarrow> syscall_args \<Rightarrow> ksys \<Rightarrow> (u64 option \<times> ksys) run" where
  "syscall1 num a r s = do_syscall num (r\<lparr>arg0 := a\<rparr>) s"

definition syscall2 :: "u64 \<Rightarrow> u64 \<Rightarrow> u64 \<Rightarrow> syscall_args \<Rightarrow> ksys \<Rightarrow> (u64 option \<times> ksys) run" where
  "syscall2 num a b r s = do_syscall num (r\<lparr>arg0 := a, arg1 := b\<rparr>) s"

definition syscall3 :: "u64 \<Rightarrow> u64 \<Rightarrow> u64 \<Rightarrow> u64 \<Rightarrow> syscall_args \<Rightarrow> ksys \<Rightarrow> (u64 option \<times> ksys) run" where
  "syscall3 num a b c r s = do_syscall num (r\<lparr>arg0 := a, arg1 := b, arg2 := c\<rparr>) s"

text \<open>\<open>if (res as i64) < 0 { None } else { Some(res) }\<close>\<close>

definition check_result :: "u64 option \<times> ksys \<Rightarrow> (u64 option option \<times> ksys) run" where
  "check_result = (\<lambda>(res, s). Done (map_option (\<lambda>res. if sint res < 0 then None else Some res) res, s))"

definition check_bool :: "u64 option \<times> ksys \<Rightarrow> (bool option \<times> ksys) run" where
  "check_bool = (\<lambda>(res, s). Done (map_option (\<lambda>res. 0 \<le> sint res) res, s))"

definition lib_print :: "u64 \<Rightarrow> u64 \<Rightarrow> syscall_args \<Rightarrow> ksys \<Rightarrow> (u64 option \<times> ksys) run" where
  "lib_print p n r s = syscall2 1 p n r s"

definition lib_read :: "u64 \<Rightarrow> u64 \<Rightarrow> u64 \<Rightarrow> syscall_args \<Rightarrow> ksys \<Rightarrow> (u64 option option \<times> ksys) run" where
  "lib_read fd p n r s = run_bind (syscall3 3 fd p n r s) check_result"

definition lib_open :: "u64 \<Rightarrow> u64 \<Rightarrow> syscall_args \<Rightarrow> ksys \<Rightarrow> (u64 option option \<times> ksys) run" where
  "lib_open p n r s = run_bind (syscall2 4 p n r s) check_result"

definition lib_close :: "u64 \<Rightarrow> syscall_args \<Rightarrow> ksys \<Rightarrow> (u64 option \<times> ksys) run" where
  "lib_close fd r s = syscall1 5 fd r s"

definition lib_ls :: "u64 \<Rightarrow> u64 \<Rightarrow> syscall_args \<Rightarrow> ksys \<Rightarrow> (u64 option option \<times> ksys) run" where
  "lib_ls p n r s = run_bind (syscall2 11 p n r s) check_result"

definition lib_stat :: "u64 \<Rightarrow> u64 \<Rightarrow> u64 \<Rightarrow> syscall_args \<Rightarrow> ksys \<Rightarrow> (stat_abi option option \<times> ksys) run" where
  "lib_stat p n st_ptr r s =
     (let s = s\<lparr>ks_mem := write_mem st_ptr (stat_bytes \<lparr>st_size = 0, st_file_type = 0\<rparr>) (ks_mem s)\<rparr> in
      run_bind (syscall3 12 p n st_ptr r s) (\<lambda>(res, s).
        Done (map_option (\<lambda>res. if sint res < 0 then None
          else Some \<lparr>st_size = le_u64 (read_mem (ks_mem s) st_ptr 8),
                     st_file_type = le_u32 (read_mem (ks_mem s) (st_ptr + 8) 4)\<rparr>) res, s)))"

definition lib_exec :: "u64 \<Rightarrow> u64 \<Rightarrow> syscall_args \<Rightarrow> ksys \<Rightarrow> (u64 option \<times> ksys) run" where
  "lib_exec p n r s = run_bind (syscall2 6 p n r s) (\<lambda>(_, s). Done (None, s))"

definition lib_exit :: "u32 \<Rightarrow> syscall_args \<Rightarrow> ksys \<Rightarrow> (u64 option \<times> ksys) run" where
  "lib_exit code r s = run_bind (syscall1 2 (scast code) r s) (\<lambda>(_, s). Done (None, s))"

definition lib_uptime :: "syscall_args \<Rightarrow> ksys \<Rightarrow> (u64 option \<times> ksys) run" where
  "lib_uptime r s = syscall0 10 r s"

definition lib_getpid :: "syscall_args \<Rightarrow> ksys \<Rightarrow> (u64 option \<times> ksys) run" where
  "lib_getpid r s = syscall0 13 r s"

definition lib_fork :: "syscall_args \<Rightarrow> ksys \<Rightarrow> (u64 option \<times> ksys) run" where
  "lib_fork r s = syscall0 7 r s"

definition lib_seek :: "u64 \<Rightarrow> u64 \<Rightarrow> syscall_args \<Rightarrow> ksys \<Rightarrow> (bool option \<times> ksys) run" where
  "lib_seek fd offset r s = run_bind (syscall2 14 fd offset r s) check_bool"

definition lib_write :: "u64 \<Rightarrow> u64 \<Rightarrow> u64 \<Rightarrow> syscall_args \<Rightarrow> ksys \<Rightarrow> (u64 option option \<times> ksys) run" where
  "lib_write fd p n r s = run_bind (syscall3 15 fd p n r s) check_result"

definition lib_getuid :: "syscall_args \<Rightarrow> ksys \<Rightarrow> (u64 option \<times> ksys) run" where
  "lib_getuid r s = syscall0 16 r s"

definition lib_getgid :: "syscall_args \<Rightarrow> ksys \<Rightarrow> (u64 option \<times> ksys) run" where
  "lib_getgid r s = syscall0 17 r s"

definition lib_mkdir :: "u64 \<Rightarrow> u64 \<Rightarrow> syscall_args \<Rightarrow> ksys \<Rightarrow> (bool option \<times> ksys) run" where
  "lib_mkdir p n r s = run_bind (syscall2 19 p n r s) check_bool"

definition lib_unlink :: "u64 \<Rightarrow> u64 \<Rightarrow> syscall_args \<Rightarrow> ksys \<Rightarrow> (bool option \<times> ksys) run" where
  "lib_unlink p n r s = run_bind (syscall2 20 p n r s) check_bool"


section \<open>Dispatch by number\<close>

lemma from_u16_id [simp]: "syscall_from_u16 (syscall_id c) = Some c"
  by (cases c) (simp_all add: syscall_from_u16_def)

lemma from_u16_Some: "syscall_from_u16 n = Some c \<Longrightarrow> n = syscall_id c"
  by (auto simp: syscall_from_u16_def split: if_splits)

lemma do_syscall_handler:
  assumes "ucast num = syscall_id c"
  shows "do_syscall num a s = run_bind (handle_syscall c a s) (\<lambda>(o1, s').
    Done (case o1 of Return r \<Rightarrow> Some (result_bits r) | YieldThen r \<Rightarrow> Some (result_bits r) | NoReturn \<Rightarrow> None, s'))"
  by (cases a) (auto simp: do_syscall_def syscall_dispatch_def assms run_bind_assoc Let_def
      intro!: run_bind_cong split: outcome.splits)

lemma handle_exec_error:
  assumes "handle_exec args s = Done (Return (Error e), s')"
  shows "e = 1"
proof (cases "arg0 args = 0 \<or> arg1 args = 0")
  case True
  with assms show ?thesis by (auto simp: handle_exec_def ret_def)
next
  case False
  with assms obtain h where h: "parse_header (read_mem (ks_mem s) (arg0 args) (unat (arg1 args))) = Done h"
    by (auto simp: handle_exec_def run_bind_eq_Done Let_def)
  with assms False show ?thesis
    by (cases h) (auto simp: handle_exec_def ret_def Let_def run_bind_eq_Done)
qed

lemma handler_error_code:
  assumes "handle_syscall c args s = Done (Return (Error e), s')"
  shows "e = 1"
proof (cases "c = SExec")
  case True
  with assms show ?thesis by (simp add: handle_exec_error)
next
  case False
  with assms show ?thesis
    by (cases c) (auto simp: handler_defs run_bind_eq_Done split: if_splits option.splits prod.splits bool.splits)
qed

end
