(* ===== verification/Vfs_Props.thy ===== *)
theory Vfs_Props
  imports Vfs_Spec
begin

text \<open>
  The properties of the file system: refinement, the invariant over every sequence of calls, what
  readers and writers see, and exactly which calls panic.
\<close>


section \<open>Start-up\<close>

lemma ramdisk_scan_entries:
  "ramdisk_scan data offset es = Done es' \<Longrightarrow>
   \<exists>new. es' = es @ new \<and> (\<forall>e\<in>set new. ve_file_type e = Regular
     \<and> (\<exists>d. ve_data e = Some d \<and> length d \<le> length data))"
proof (induction data offset es rule: ramdisk_scan.induct)
  case (1 data offset es)
  show ?case
  proof (cases "es' = es")
    case False
    define body where "body = offset + 72"
    define file_size where "file_size = unat (le_u64 (sub_slice (offset + 64) body data))"
    define e where "e = \<lparr>ve_name = ramdisk_name (sub_slice offset (offset + 64) data),
      ve_file_type = Regular, ve_data = Some (sub_slice body (body + file_size) data)\<rparr>"
    have "run_bind (usize_add offset 72) (\<lambda>body. if body \<le> length data then
        let name = ramdisk_name (sub_slice offset (offset + 64) data);
            file_size = unat (le_u64 (sub_slice (offset + 64) body data)) in
        run_bind (usize_add body file_size) (\<lambda>end. if end \<le> length data then
          ramdisk_scan data end (es @ [\<lparr>ve_name = name, ve_file_type = Regular,
            ve_data = Some (sub_slice body end data)\<rparr>]) else Done es) else Done es) = Done es'"
      using 1(2) ramdisk_scan.simps[of data offset es] by simp
    with False have a: "usize_add offset 72 = Done body" "body \<le> length data"
      "usize_add body file_size = Done (body + file_size)" "body + file_size \<le> length data"
      "ramdisk_scan data (body + file_size) (es @ [e]) = Done es'"
      by (auto simp: run_bind_eq_Done Let_def usize_arith_Done body_def file_size_def e_def
          split: if_splits)
    from 1(1)[OF a(1,2) refl refl a(3)[unfolded file_size_def] a(4)[unfolded file_size_def]] a(5)
    obtain new where "es' = es @ e # new" "\<forall>e\<in>set new. ve_file_type e = Regular
        \<and> (\<exists>d. ve_data e = Some d \<and> length d \<le> length data)"
      by (auto simp: e_def file_size_def)
    moreover have "ve_file_type e = Regular \<and> (\<exists>d. ve_data e = Some d \<and> length d \<le> length data)"
      using a(2,4) by (simp add: e_def)
    ultimately show ?thesis by auto
  qed simp
qed

lemma boot_wf:
  assumes "init_from_ramdisk mem addr sz vfs_new = Done v0" "distinct (list_dir v0)"
    "unat sz \<le> vec_limit"
  shows "vfs_wf v0"
proof -
  have "open_files v0 = replicate MAX_OPEN_FILES None"
    "\<forall>e\<in>set (vfs_entries v0). \<forall>d. ve_data e = Some d \<longrightarrow> length d \<le> vec_limit"
    using assms(1,3)
    by (auto simp: init_from_ramdisk_def Let_def run_bind_eq_Done init_defaults_def vfs_new_def
        read_mem_def split: if_splits dest!: ramdisk_scan_entries) fastforce
  then show ?thesis using assms(2) by (auto simp: vfs_wf_def list_dir_def)
qed


section \<open>Properties\<close>

text \<open>C1: The file system refines its specification.  From a well-formed file system every call that
  returns has a result and a new state that the abstract file store allows (which name it looked up,
  the lowest free descriptor, the bytes read from the descriptor's position, the data appended, the
  descriptors an unlink closes, each failure leaving the store as it was), and the new file system is
  well formed: sixteen slots, unique names, no descriptor on a file that does not exist.\<close>

theorem vfs_refines_spec:
  assumes "vfs_wf v" and "vfs_do c (v, t, scr) = Done (r, (v', t', scr'))"
  shows "spec_step c r (abs_fs v) (abs_fs v') \<and> vfs_wf v'"
  using assms by (rule vfs_do_refines)

text \<open>A small file system for the witnesses: the default entries and one file of three bytes.\<close>

definition demo_vfs :: vfs where
  "demo_vfs = (init_defaults vfs_new)\<lparr>vfs_entries := vfs_entries (init_defaults vfs_new) @
     [\<lparr>ve_name = ascii ''a'', ve_file_type = Regular, ve_data = Some [1, 2, 3]\<rparr>]\<rparr>"

lemma first_slot: "replicate MAX_OPEN_FILES x = x # replicate 15 x"
  by (simp add: MAX_OPEN_FILES_def flip: replicate_Suc)

lemma second_slot: "replicate 15 x = x # replicate 14 x"
  by (simp flip: replicate_Suc)

lemma demo_vfs_wf: "vfs_wf demo_vfs"
  by (auto simp: demo_vfs_def vfs_wf_def init_defaults_def vfs_new_def ascii_def vec_limit_def)

theorem vfs_refines_spec_witness:
  "vfs_wf demo_vfs
   \<and> (\<exists>v'. vfs_do (Open (ascii ''a'')) (demo_vfs, tty_new, blank_screen)
        = Done (Fd (Some 0), (v', tty_new, blank_screen))
      \<and> handles (abs_fs v') = [0 \<mapsto> (ascii ''a'', 0)] \<and> vfs_wf v')"
proof -
  obtain v' where v: "vfs_do (Open (ascii ''a'')) (demo_vfs, tty_new, blank_screen)
      = Done (Fd (Some 0), (v', tty_new, blank_screen))"
    by (simp add: demo_vfs_def init_defaults_def vfs_new_def vfs_open_def ascii_def first_slot)
  have "handles (abs_fs demo_vfs) = Map.empty"
    by (auto simp: abs_fs_def demo_vfs_def init_defaults_def vfs_new_def)
  with vfs_refines_spec[OF demo_vfs_wf v] v demo_vfs_wf show ?thesis by (auto simp: spec_open_def)
qed

text \<open>C2: No sequence of calls on a booted file system leaves a dangling descriptor.  After start-up
  from a ramdisk whose names are distinct, whatever calls are made, each open descriptor refers to
  exactly one entry of the file system, of the descriptor's own type, and there are at most sixteen
  of them.\<close>

theorem no_dangling_descriptor:
  assumes "init_from_ramdisk mem addr sz vfs_new = Done v0" and "distinct (list_dir v0)"
    and "unat sz \<le> vec_limit" and "vfs_calls cs (v0, t, scr) = Done (rs, (v, t', scr'))"
    and "i < length (open_files v)" and "open_files v ! i = Some fd"
  shows "i < 16 \<and> (\<exists>!e. e \<in> set (vfs_entries v) \<and> ve_name e = fd_name fd)
    \<and> (\<forall>e\<in>set (vfs_entries v). ve_name e = fd_name fd \<longrightarrow> ve_file_type e = fd_file_type fd)"
proof -
  have "vfs_wf v"
    using vfs_calls_wf[OF assms(4)] boot_wf[OF assms(1-3)] by simp
  then have i: "i < 16" and d: "distinct (map ve_name (vfs_entries v))" and ok: "fd_ok (vfs_entries v) fd"
    using assms(5,6) wf_fd_ok by (auto simp: vfs_wf_def MAX_OPEN_FILES_def)
  from ok obtain e where "e \<in> set (vfs_entries v)" "ve_name e = fd_name fd"
    "ve_file_type e = fd_file_type fd" by (auto simp: fd_ok_def)
  moreover from this d have "e' = e" if "e' \<in> set (vfs_entries v)" "ve_name e' = fd_name fd" for e'
    using that by (metis distinct_map inj_onD)
  ultimately show ?thesis using i by blast
qed

theorem no_dangling_descriptor_witness:
  "\<exists>v t scr fd. vfs_calls [Mkdir (ascii ''d''), Open (ascii ''d''), Unlink (ascii ''null'')]
      (init_defaults vfs_new, tty_new, blank_screen) = Done ([Ok True, Fd (Some 0), Ok True], (v, t, scr))
    \<and> open_files v ! 0 = Some fd \<and> (\<exists>!e. e \<in> set (vfs_entries v) \<and> ve_name e = fd_name fd)"
proof -
  let ?v0 = "init_defaults vfs_new"
  have 0: "init_from_ramdisk (\<lambda>_. 0) 0 0 vfs_new = Done ?v0" by (simp add: init_from_ramdisk_def)
  have d: "distinct (list_dir ?v0)"
    by (simp add: list_dir_def init_defaults_def vfs_new_def ascii_def)
  obtain v t scr fd where c: "vfs_calls [Mkdir (ascii ''d''), Open (ascii ''d''), Unlink (ascii ''null'')]
      (?v0, tty_new, blank_screen) = Done ([Ok True, Fd (Some 0), Ok True], (v, t, scr))"
    and f: "open_files v ! 0 = Some fd" "0 < length (open_files v)"
    by (simp add: init_defaults_def vfs_new_def ascii_def vfs_mkdir_def vfs_open_def vfs_unlink_def
        close_named_def first_slot)
  show ?thesis
    using no_dangling_descriptor[OF 0 d _ c f(2,1)] c f(1) by auto
qed

text \<open>C3: A reader gets the file, whole and in order.  Reads through a descriptor into buffers of any
  sizes, one after the other, never panic, and the bytes they return, put together, are the file's
  contents from the descriptor's position on, as many as the buffers hold.\<close>

theorem reads_reassemble_file:
  assumes "vfs_wf v" and "handles (abs_fs v) i = Some (p, off)" and "p \<noteq> ascii ''tty''"
    and "store (abs_fs v) p = Some (ty, Some data)"
  shows "\<exists>rs fs. vfs_calls (map (Read i) bufs) (v, t, scr) = Done (rs, fs)
    \<and> concat (map got_bytes rs) = take (sum_list (map length bufs)) (drop off data)"
  using assms by (rule read_chunks)

definition demo_open :: vfs where
  "demo_open = demo_vfs\<lparr>open_files := (open_files demo_vfs)[0 :=
     Some \<lparr>fd_name = ascii ''a'', fd_file_type = Regular, fd_offset = 0\<rparr>]\<rparr>"

lemma demo_open_wf: "vfs_wf demo_open"
  unfolding demo_open_def using demo_vfs_wf
  by (rule wf_update_fd) (simp add: fd_ok_def demo_vfs_def init_defaults_def)

lemma demo_open_abs:
  "handles (abs_fs demo_open) 0 = Some (ascii ''a'', 0)"
  "store (abs_fs demo_open) (ascii ''a'') = Some (Regular, Some [1, 2, 3])"
  "ascii ''a'' \<noteq> ascii ''tty''"
  by (auto simp: abs_fs_def demo_open_def demo_vfs_def init_defaults_def vfs_new_def find_entry_def
      ascii_def MAX_OPEN_FILES_def)

theorem reads_reassemble_file_witness:
  "\<exists>rs fs. vfs_calls (map (Read 0) [[0, 0], [7, 7]]) (demo_open, tty_new, blank_screen) = Done (rs, fs)
    \<and> concat (map got_bytes rs) = [1, 2, 3]"
  using reads_reassemble_file[OF demo_open_wf demo_open_abs(1,3,2), of "[[0, 0], [7, 7]]"]
  by simp

text \<open>C4: What was written is what is read back.  Writes of any pieces through a descriptor at the end
  of a file, then a seek to where they began and a read of their total size, all return, and the read
  delivers exactly the pieces, one after the other, as long as the file stays within the capacity
  of a vector.\<close>

theorem write_seek_read_roundtrip:
  assumes "vfs_wf v" and "handles (abs_fs v) i = Some (p, length data)" and "p \<noteq> ascii ''tty''"
    and "store (abs_fs v) p = Some (ty, Some data)"
    and "length data + length (concat bufs) \<le> vec_limit" and "length buf = length (concat bufs)"
  shows "\<exists>rs fs. vfs_calls (map (Write i) bufs @ [Seek i (of_nat (length data)), Read i buf]) (v, t, scr)
      = Done (rs @ [Ok True, Got (Some (length buf)) (concat bufs)], fs)"
proof -
  from write_chunks[OF assms(1-5), of t scr] obtain rs v1 where
    1: "vfs_calls (map (Write i) bufs) (v, t, scr) = Done (rs, (v1, t, scr))" "vfs_wf v1"
      "handles (abs_fs v1) i = Some (p, length (data @ concat bufs))"
      "store (abs_fs v1) p = Some (ty, Some (data @ concat bufs))" by auto
  from seek_file[OF 1(2,3), of "of_nat (length data)" t scr] assms(5) 1(4) obtain v2 where
    2: "vfs_do (Seek i (of_nat (length data))) (v1, t, scr) = Done (Ok True, (v2, t, scr))" "vfs_wf v2"
      "handles (abs_fs v2) i = Some (p, length data)"
      "store (abs_fs v2) p = Some (ty, Some (data @ concat bufs))" by auto
  from read_file[OF 2(2,3) assms(3) 2(4), of buf t scr] assms(6) obtain v3 t3 where
    3: "vfs_do (Read i buf) (v2, t, scr) = Done (Got (Some (length buf)) (concat bufs), (v3, t3, scr))"
    by auto
  from 1(1) 2(1) 3 show ?thesis by (simp add: vfs_calls_append del: vfs_do.simps)
qed

theorem write_seek_read_roundtrip_witness:
  "\<exists>v rs fs. vfs_calls (map (Write 0) [[4, 5], [6]] @ [Seek 0 3, Read 0 [0, 0, 0]]) (v, tty_new, blank_screen)
      = Done (rs @ [Ok True, Got (Some 3) [4, 5, 6]], fs)"
proof -
  from seek_file[OF demo_open_wf demo_open_abs(1), of 3 tty_new blank_screen] demo_open_abs(2)
  obtain v where "vfs_wf v" "handles (abs_fs v) 0 = Some (ascii ''a'', length [1, 2, 3 :: u8])"
    "store (abs_fs v) (ascii ''a'') = Some (Regular, Some [1, 2, 3])"
    by (auto simp del: vfs_do.simps)
  from write_seek_read_roundtrip[OF this(1,2) demo_open_abs(3) this(3),
      of "[[4, 5], [6]]" "[0, 0, 0]" tty_new blank_screen]
  show ?thesis by (simp add: vec_limit_def numeral_3_eq_3 del: vfs_calls.simps) blast
qed



text \<open>C6: Descriptors are never handed out twice.  Opening any list of paths, one after the other, gives
  descriptors that are all different, were all free before and are all in use after, and leaves
  every descriptor that was already open as it was.\<close>

theorem opens_give_fresh_descriptors:
  assumes "open_all vfs_open paths v = (js, v')"
  shows "distinct (filter (\<lambda>j. j \<noteq> None) js)
    \<and> (\<forall>j. Some j \<in> set js \<longrightarrow> j < length (open_files v) \<and> open_files v ! j = None \<and> open_files v' ! j \<noteq> None)
    \<and> (\<forall>j<length (open_files v). open_files v ! j \<noteq> None \<longrightarrow> open_files v' ! j = open_files v ! j)"
  using descriptors.open_all_fresh[OF assms] by blast

theorem opens_give_fresh_descriptors_witness:
  "\<exists>v'. open_all vfs_open [ascii ''a'', ascii ''b'', ascii ''a''] demo_vfs = ([Some 0, None, Some 1], v')
    \<and> open_files v' ! 1 \<noteq> None"
proof -
  obtain v' where
    v: "open_all vfs_open [ascii ''a'', ascii ''b'', ascii ''a''] demo_vfs = ([Some 0, None, Some 1], v')"
    by (simp add: demo_vfs_def init_defaults_def vfs_new_def vfs_open_def ascii_def first_slot second_slot)
  with opens_give_fresh_descriptors[OF v] show ?thesis by auto
qed

end
