(* ===== verification/Scheduler_Props.thy ===== *)
theory Scheduler_Props
  imports Scheduler "HOL-Library.Multiset"
begin

text \<open>
  The properties of the scheduler: the invariant over every sequence of events, round-robin order,
  bounded waiting, and that an exited task never runs again.
\<close>


section \<open>Preservation\<close>

lemma add_step:
  assumes "sched_step (Add t) k k'"
  shows "tasks (sched k') = tasks (sched k) @ [t] \<and> current_task (sched k') = current_task (sched k)
    \<and> task_count (sched k') = task_count (sched k) + 1 \<and> task_count (sched k') < usize_limit
    \<and> current_task_id (sched k') = current_task_id (sched k) \<and> task_state_of t = Ready
    \<and> task_id t = next_task_id k \<and> next_task_id k' = (next_task_id k + 1) mod usize_limit
    \<and> proc_heap k' = proc_heap k \<and> cr3 k' = cr3 k \<and> tss_rsp0 k' = tss_rsp0 k
    \<and> per_cpu_stack k' = per_cpu_stack k"
  using assms
  by (auto simp: sched_step_simps task_id_new_def add_task_def push_back_def run_bind_eq_Done
      usize_arith_Done)

lemma live_add:
  "sched_step (Add t) k k' \<Longrightarrow> live k' = live k @ [t]"
  using add_step[of t k k'] by (auto simp: live_def split: option.splits)

lemma add_queue_inv:
  assumes "queue_inv k" "sched_step (Add t) k k'"
  shows "queue_inv k'"
proof -
  note a = add_step[OF assms(2)] live_add[OF assms(2)]
  have "task_id t = task_count (sched k) + 1" using a assms(1) by (auto simp: queue_inv_def)
  then show ?thesis using a assms(1) by (fastforce simp: queue_inv_def)
qed

lemma set_preempted:
  "t \<in> set (preempted sp c) \<Longrightarrow> task_state_of t = Ready \<and> task_id t = task_id c"
  by (auto simp: preempted_def split: if_splits)

lemma live_current: "current_task (sched k) = Some c \<Longrightarrow> live k = c # tasks (sched k)"
  by (simp add: live_def)

lemma distinct_preempted:
  "distinct (map task_id (c # t # ts)) \<Longrightarrow> distinct (map task_id (t # ts @ preempted sp c))"
  by (auto simp: preempted_def)

lemma tick_inv:
  assumes "sched_inv k" "timer_tick locked sp k = (Resume p, k')"
  shows "sched_inv k'"
proof (cases locked)
  case True
  with assms show ?thesis
    by (auto simp: tick_locked sched_inv_def queue_inv_def current_inv_def live_def
        split: option.splits)
next
  case False
  from assms(1) obtain c where c: "current_task (sched k) = Some c"
    by (auto simp: sched_inv_def current_inv_def split: option.splits)
  show ?thesis
  proof (cases "tasks (sched k)")
    case Nil
    have z: "task_state_of c \<noteq> Zombie"
      using tick_halts[OF c Nil, of sp] assms(2) False by auto
    have "k' = k\<lparr>uptime_ticks := uptime_ticks k + 1, sched := (sched k)
        \<lparr>current_task := Some (c\<lparr>stack_ptr := sp\<rparr>), current_task_id := Some (task_id c)\<rparr>\<rparr>"
      using tick_stay[OF c Nil z, of sp "Resume p" k'] assms(2) False by simp
    then show ?thesis using assms(1) c
      by (simp add: sched_inv_def queue_inv_def current_inv_def live_def)
  next
    case (Cons t ts)
    note s = tick_switch[OF c Cons assms(2)[unfolded False[THEN eq_False[THEN iffD2]]]]
    have d: "distinct (map task_id (c # t # ts))" using assms(1) c Cons
      by (simp add: sched_inv_def queue_inv_def live_def)
    have "live k' = t\<lparr>task_state_of := Running\<rparr> # ts @ preempted sp c" using s by (simp add: live_def)
    moreover have "queue_inv k \<and> live k = c # t # ts"
      using assms(1) c Cons by (simp add: sched_inv_def live_def)
    ultimately show ?thesis using s distinct_preempted[OF d, of sp] Cons
      by (auto simp: sched_inv_def queue_inv_def current_inv_def dest: set_preempted)
  qed
qed

lemma exit_step:
  assumes "sched_step Exit k k'" "current_task (sched k) = Some c"
  shows "k' = k\<lparr>sched := (sched k)\<lparr>current_task := Some (c\<lparr>task_state_of := Zombie\<rparr>)\<rparr>\<rparr>"
  using assms by (auto simp: sched_step_simps mark_zombie_def)

lemma step_inv:
  assumes "sched_inv k" "sched_step e k k'"
  shows "sched_inv k'"
proof (cases e)
  case (Add t)
  have "queue_inv k'" using add_queue_inv[of k t k'] assms Add by (simp add: sched_inv_def)
  then show ?thesis using add_step[of t k k'] assms Add
    by (auto simp: sched_inv_def current_inv_def split: option.splits)
next
  case (Tick l sp)
  then show ?thesis using assms tick_inv by (auto simp: sched_step_simps)
next
  case Exit
  from assms(1) obtain c where c: "current_task (sched k) = Some c"
    by (auto simp: sched_inv_def current_inv_def split: option.splits)
  with exit_step[of k k' c] assms Exit show ?thesis
    by (auto simp: sched_inv_def queue_inv_def current_inv_def live_def)
qed

lemma steps_inv: "sched_steps es k k' \<Longrightarrow> sched_inv k \<Longrightarrow> sched_inv k'"
  by (induction rule: sched_steps.induct) (auto dest: step_inv)

lemma adds_inv: "sched_steps (map Add ts) k k' \<Longrightarrow> queue_inv k \<Longrightarrow> queue_inv k'"
  by (induction ts arbitrary: k) (auto dest: add_queue_inv)

lemma adds_current:
  "sched_steps (map Add ts) k k' \<Longrightarrow> current_task (sched k') = current_task (sched k)
    \<and> tasks (sched k') = tasks (sched k) @ ts"
  by (induction ts arbitrary: k) (auto dest: add_step)

lemma start_inv:
  assumes "queue_inv k" "current_task (sched k) = None" "start_scheduling k = Done (p, k')"
  shows "sched_inv k'"
proof (cases "tasks (sched k)")
  case Nil
  with assms(3) show ?thesis by (simp add: start_scheduling_def pop_front_def)
next
  case (Cons t ts)
  with assms show ?thesis
    by (auto simp: start_scheduling_def pop_front_def Let_def sched_inv_def queue_inv_def
        current_inv_def live_def split: if_splits)
qed


section \<open>Order\<close>

lemma inv_current: "sched_inv k \<Longrightarrow> \<exists>c. current_task (sched k) = Some c \<and> task_state_of c \<in> {Running, Zombie}"
  by (auto simp: sched_inv_def current_inv_def split: option.splits)

lemma tick_rotates:
  assumes "current_task (sched k) = Some c" "task_state_of c = Running"
  shows "\<exists>k' c'. sched_step (Tick False sp) k k' \<and> current_task (sched k') = Some c'
    \<and> task_state_of c' = Running \<and> map task_id (live k') = rotate1 (map task_id (live k))"
proof (cases "tasks (sched k)")
  case Nil
  obtain r k' where k': "timer_tick False sp k = (r, k')" by fastforce
  from tick_stay[OF assms(1) Nil _ k'] assms(2) Nil assms(1) k' show ?thesis
    by (auto simp: sched_step_simps live_def)
next
  case (Cons t ts)
  obtain r k' where k': "timer_tick False sp k = (r, k')" by fastforce
  from tick_switch[OF assms(1) Cons k'] assms Cons k' show ?thesis
    by (auto simp: sched_step_simps live_def preempted_def)
qed

lemma mset_rotate1: "mset (rotate1 xs) = mset xs"
  by (cases xs) auto

lemma switches_Tick: "l \<Longrightarrow> switches (Tick l sp # es) = switches es"
  by simp

lemma wait_step:
  assumes "sched_step e k k'" "i < length (tasks (sched k))" "sched_inv k" "\<And>sp. e \<noteq> Tick False sp"
  shows "i < length (tasks (sched k')) \<and> tasks (sched k') ! i = tasks (sched k) ! i"
proof (cases e)
  case (Add t)
  with assms add_step[of t k k'] show ?thesis by (simp add: nth_append)
next
  case (Tick l sp)
  with assms show ?thesis by (cases l) (auto simp: sched_step_simps tick_locked)
next
  case Exit
  with assms inv_current[OF assms(3)] show ?thesis by (auto dest: exit_step)
qed

lemma gone_step:
  assumes "sched_inv k" "x \<notin> task_id ` set (live k)" "x \<le> task_count (sched k)" "sched_step e k k'"
  shows "x \<notin> task_id ` set (live k') \<and> x \<le> task_count (sched k')"
proof (cases e)
  case (Add t)
  with assms add_step[of t k k'] live_add[of t k k'] show ?thesis
    by (auto simp: sched_inv_def queue_inv_def)
next
  case (Tick l sp)
  then obtain p where p: "timer_tick l sp k = (Resume p, k')" using assms(4) by (auto simp: sched_step_simps)
  obtain c where c: "current_task (sched k) = Some c" using inv_current[OF assms(1)] by auto
  show ?thesis
  proof (cases l)
    case True
    with p assms c show ?thesis by (auto simp: tick_locked live_def)
  next
    case False
    show ?thesis
    proof (cases "tasks (sched k)")
      case Nil
      then have "task_state_of c \<noteq> Zombie" using tick_halts[OF c, of sp] p False by auto
      with tick_stay[OF c Nil this, of sp "Resume p" k'] p False assms c show ?thesis
        by (simp add: live_def)
    next
      case (Cons t ts)
      with tick_switch[OF c Cons, of sp "Resume p" k'] p False assms c show ?thesis
        by (auto simp: live_def dest: set_preempted)
    qed
  qed
next
  case Exit
  with assms inv_current[OF assms(1)] show ?thesis by (auto simp: live_def dest!: exit_step)
qed

lemma gone_steps:
  "sched_steps es k k' \<Longrightarrow> sched_inv k \<Longrightarrow> x \<notin> task_id ` set (live k) \<Longrightarrow> x \<le> task_count (sched k) \<Longrightarrow>
   x \<notin> task_id ` set (live k')"
  by (induction rule: sched_steps.induct) (auto dest: step_inv gone_step)

lemma zombie_step:
  assumes "sched_inv k" "current_task (sched k) = Some c" "task_state_of c = Zombie" "sched_step e k k'"
  shows "if switches [e] = 0 then \<exists>c'. current_task (sched k') = Some c' \<and> task_state_of c' = Zombie
      \<and> task_id c' = task_id c
    else task_id c \<notin> task_id ` set (live k') \<and> task_id c \<le> task_count (sched k')"
proof (cases e)
  case (Add t)
  with assms add_step[of t k k'] show ?thesis by auto
next
  case (Tick l sp)
  then obtain p where p: "timer_tick l sp k = (Resume p, k')" using assms(4) by (auto simp: sched_step_simps)
  show ?thesis
  proof (cases l)
    case True
    with Tick p assms show ?thesis by (auto simp: tick_locked)
  next
    case False
    have "tasks (sched k) \<noteq> []" using tick_halts[OF assms(2) _ assms(3), of sp] p False by auto
    then obtain t ts where ts: "tasks (sched k) = t # ts" by (cases "tasks (sched k)") auto
    with tick_switch[OF assms(2) ts, of sp "Resume p" k'] p False Tick assms show ?thesis
      by (auto simp: live_def preempted_def sched_inv_def queue_inv_def)
  qed
next
  case Exit
  with assms exit_step[of k k' c] show ?thesis by auto
qed


section \<open>Properties\<close>

text \<open>C13: The scheduler's invariant.  From boot, after any tasks have been added and scheduling has
  begun, and after any sequence of task creations, timer ticks, yields and exits: exactly one task
  is current and it is running or has just exited, the current task and the ready queue hold
  no task twice, everything in the queue is ready, and the page-table register, the interrupt stack
  and the per-CPU stack are those of the current task.\<close>

theorem scheduler_invariant:
  assumes "kernel_initial k0" and "sched_steps (map Add ts) k0 k1"
    and "start_scheduling k1 = Done (p, k2)" and "sched_steps es k2 k"
  shows "\<exists>c. current_task (sched k) = Some c \<and> task_state_of c \<in> {Running, Zombie}
    \<and> get_current_task_id k = Some (task_id c)
    \<and> cr3 k = pml4_frame (proc_heap k (task_process c))
    \<and> tss_rsp0 k = get_current_kernel_stack_top k \<and> per_cpu_stack k = get_current_kernel_stack_top k
    \<and> (\<forall>t\<in>set (tasks (sched k)). task_state_of t = Ready)
    \<and> distinct (map task_id (c # tasks (sched k)))"
proof -
  have "queue_inv k1" using adds_inv[OF assms(2)] initial_inv[OF assms(1)] by simp
  moreover have "current_task (sched k1) = None"
    using adds_current[OF assms(2)] assms(1) by (simp add: kernel_initial_def scheduler_new_def)
  ultimately have "sched_inv k" using start_inv[OF _ _ assms(3)] steps_inv[OF assms(4)] by blast
  then show ?thesis
    by (auto simp: sched_inv_def queue_inv_def current_inv_def live_def get_current_task_id_def
        get_current_kernel_stack_top_def split: option.splits)
qed

definition demo_task :: "nat \<Rightarrow> task" where
  "demo_task n = \<lparr>task_id = n, stack_ptr = of_nat n * 0x1000, kernel_stack_top = of_nat n * 0x1100,
     task_process = n, task_state_of = Ready\<rparr>"

definition demo_boot :: kernel where
  "demo_boot = \<lparr>sched = scheduler_new, uptime_ticks = 0, cr3 = 0, tss_rsp0 = 0, per_cpu_stack = 0,
     proc_heap = (\<lambda>i. \<lparr>proc_id = i, pml4_frame = of_nat i, entry_point = 0, proc_stack_top = 0, threads = []\<rparr>),
     next_task_id = 1\<rparr>"

definition demo_kernel :: kernel where
  "demo_kernel = set_current ((demo_task 1)\<lparr>task_state_of := Running\<rparr>) (switch_to (demo_task 1)
     (demo_boot\<lparr>sched := scheduler_new\<lparr>tasks := [demo_task 2, demo_task 3], task_count := 3\<rparr>,
                next_task_id := 4\<rparr>))"

lemma demo_started:
  "sched_steps (map Add [demo_task 1, demo_task 2, demo_task 3]) demo_boot
     (demo_boot\<lparr>sched := scheduler_new\<lparr>tasks := map demo_task [1, 2, 3], task_count := 3\<rparr>,
                next_task_id := 4\<rparr>)"
  "start_scheduling (demo_boot\<lparr>sched := scheduler_new\<lparr>tasks := map demo_task [1, 2, 3], task_count := 3\<rparr>,
                next_task_id := 4\<rparr>) = Done (0x1000, demo_kernel)"
  "kernel_initial demo_boot"
  by (simp_all add: sched_step_simps task_id_new_def demo_boot_def scheduler_new_def demo_task_def
      add_task_def push_back_def usize_add_def start_scheduling_def pop_front_def Let_def
      demo_kernel_def kernel_initial_def switch_to_def set_interrupt_stack_def set_current_def)

lemma demo_kernel_inv: "sched_inv demo_kernel"
  using start_inv[OF _ _ demo_started(2)] adds_inv[OF demo_started(1) initial_inv[OF demo_started(3)]]
  by (simp add: demo_boot_def scheduler_new_def)

lemma demo_kernel_sched:
  "current_task (sched demo_kernel) = Some ((demo_task 1)\<lparr>task_state_of := Running\<rparr>)"
  "tasks (sched demo_kernel) = [demo_task 2, demo_task 3]"
  by (simp_all add: demo_kernel_def scheduler_new_def demo_boot_def)

theorem scheduler_invariant_witness:
  "kernel_initial demo_boot \<and> (\<exists>k. sched_steps [Tick False 0x900, Exit, Tick True 7] demo_kernel k
     \<and> distinct (map task_id (tasks (sched k))) \<and> cr3 k = 2)"
proof -
  have "\<exists>k. sched_steps [Tick False 0x900, Exit, Tick True 7] demo_kernel k \<and> get_current_task_id k = Some 2
    \<and> current_task (sched k) = Some ((demo_task 2)\<lparr>task_state_of := Zombie\<rparr>) \<and> pml4_frame (proc_heap k 2) = 2"
    by (simp add: sched_step_simps timer_tick_def Let_def demo_kernel_def demo_boot_def scheduler_new_def
        demo_task_def pop_front_def push_back_def switch_to_def set_interrupt_stack_def set_current_def
        mark_zombie_def get_current_task_id_def)
  then obtain k where k: "sched_steps [Tick False 0x900, Exit, Tick True 7] demo_kernel k"
    "current_task (sched k) = Some ((demo_task 2)\<lparr>task_state_of := Zombie\<rparr>)" "pml4_frame (proc_heap k 2) = 2"
    by blast
  from scheduler_invariant[OF demo_started(3,1,2) k(1)] k demo_started(3) show ?thesis
    by (auto simp: demo_task_def)
qed

text \<open>C15: Round robin.  From a running system, any number of ticks or yields always returns, and the list
  of the running task followed by the ready queue has turned by one place per tick: after \<open>n\<close> ticks
  it is the same list rotated \<open>n\<close> times, and its head is running.\<close>

theorem round_robin:
  assumes "current_task (sched k) = Some c" and "task_state_of c = Running"
  shows "\<exists>k' c'. sched_steps (map (Tick False) sps) k k' \<and> current_task (sched k') = Some c'
    \<and> task_state_of c' = Running
    \<and> map task_id (live k') = rotate (length sps) (map task_id (live k))"
  using assms
proof (induction sps arbitrary: k c)
  case (Cons sp sps)
  from tick_rotates[OF Cons.prems, of sp] obtain k1 c1 where
    1: "sched_step (Tick False sp) k k1" "current_task (sched k1) = Some c1" "task_state_of c1 = Running"
      "map task_id (live k1) = rotate1 (map task_id (live k))" by auto
  from Cons.IH[OF 1(2,3)] 1 show ?case by (fastforce simp: rotate1_rotate_swap)
qed auto

theorem round_robin_witness:
  "map task_id (live demo_kernel) = [1, 2, 3]
   \<and> (\<exists>k'. sched_steps (map (Tick False) [0x900, 0x1900]) demo_kernel k'
        \<and> map task_id (live k') = [3, 1, 2])"
proof -
  have l: "map task_id (live demo_kernel) = [1, 2, 3]"
    by (simp add: live_def demo_kernel_sched demo_task_def)
  from round_robin[OF demo_kernel_sched(1), of "[0x900, 0x1900]"] l show ?thesis by auto
qed

text \<open>C14: Bounded waiting.  A task at place \<open>i\<close> of the ready queue becomes the current task at the
  \<open>i + 1\<close>st tick at which the scheduler is not locked, whatever else happens in between: tasks
  created, the running tasks exiting, ticks that find the scheduler locked.\<close>

theorem bounded_waiting:
  assumes "sched_inv k" and "i < length (tasks (sched k))" and "sched_steps es k k'"
    and "i < switches es"
  shows "\<exists>es1 es2 k1. es = es1 @ es2 \<and> sched_steps es1 k k1 \<and> switches es1 = i + 1
    \<and> get_current_task_id k1 = Some (task_id (tasks (sched k) ! i))"
  using assms
proof (induction es arbitrary: k i)
  case (Cons e es)
  from Cons.prems(3) obtain k1 where k1: "sched_step e k k1" "sched_steps es k1 k'" by auto
  show ?case
  proof (cases "\<exists>sp. e = Tick False sp")
    case True
    then obtain sp where e: "e = Tick False sp" ..
    with k1(1) obtain p where p: "timer_tick False sp k = (Resume p, k1)" by (auto simp: sched_step_simps)
    from Cons.prems(2) obtain t ts where ts: "tasks (sched k) = t # ts" by (cases "tasks (sched k)") auto
    obtain c where c: "current_task (sched k) = Some c" using inv_current[OF Cons.prems(1)] by auto
    note s = tick_switch[OF c ts p]
    show ?thesis
    proof (cases i)
      case 0
      have "sched_steps [e] k k1" using k1(1) by auto
      with s 0 ts e show ?thesis
        by (intro exI[of _ "[e]"] exI[of _ es] exI[of _ k1]) (simp add: get_current_task_id_def)
    next
      case (Suc j)
      with Cons.prems(2,4) ts s e have "j < length (tasks (sched k1))" "j < switches es"
        "tasks (sched k1) ! j = tasks (sched k) ! i" by (auto simp: nth_append)
      with Cons.IH[OF step_inv[OF Cons.prems(1) k1(1)] _ k1(2)] obtain es1 es2 k2 where
        "es = es1 @ es2" "sched_steps es1 k1 k2" "switches es1 = j + 1"
        "get_current_task_id k2 = Some (task_id (tasks (sched k) ! i))" by metis
      with Suc e k1(1) show ?thesis
        by (intro exI[of _ "e # es1"] exI[of _ es2] exI[of _ k2]) auto
    qed
  next
    case False
    then have w: "switches (e # fs) = switches fs" for fs
      by (cases e) (auto elim: switches_Tick)
    from wait_step[OF k1(1) Cons.prems(2,1)] False
    have n: "i < length (tasks (sched k1))" "tasks (sched k1) ! i = tasks (sched k) ! i" by auto
    with Cons.IH[OF step_inv[OF Cons.prems(1) k1(1)] n(1) k1(2)] Cons.prems(4) w obtain es1 es2 k2 where
      "es = es1 @ es2" "sched_steps es1 k1 k2" "switches es1 = i + 1"
      "get_current_task_id k2 = Some (task_id (tasks (sched k) ! i))" by auto
    with w k1(1) show ?thesis
      by (intro exI[of _ "e # es1"] exI[of _ es2] exI[of _ k2]) auto
  qed
qed simp

theorem bounded_waiting_witness:
  "\<exists>es1 k1. sched_steps es1 demo_kernel k1 \<and> switches es1 = 2 \<and> get_current_task_id k1 = Some 3"
proof -
  obtain k' where k': "sched_steps (map (Tick False) [1, 2, 3]) demo_kernel k'"
    using round_robin[OF demo_kernel_sched(1), of "[1, 2, 3]"] by auto
  from bounded_waiting[OF demo_kernel_inv _ k', of 1] show ?thesis
    by (auto simp: demo_kernel_sched demo_task_def numeral_2_eq_2)
qed

text \<open>C16: An exited task never runs again.  Once the current task is marked as exited and the scheduler
  has switched away from it, no sequence of events brings its number back, neither as the current
  task nor in the ready queue, and no new task gets its number.\<close>

theorem exited_task_never_runs_again:
  assumes "sched_inv k" and "current_task (sched k) = Some c" and "task_state_of c = Zombie"
    and "sched_steps es k k'" and "0 < switches es"
  shows "task_id c \<notin> task_id ` set (live k')"
  using assms(4,1-3,5)
proof (induction arbitrary: c rule: sched_steps.induct)
  case (steps_step e k k1 es k')
  note inv1 = step_inv[OF steps_step.prems(1) steps_step.hyps(1)]
  show ?case
  proof (cases "switches [e] = 0")
    case True
    then have "switches (e # es) = switches es" by (cases e) (auto elim: switches.elims)
    with zombie_step[OF steps_step.prems(1-3) steps_step.hyps(1)] True steps_step.IH[OF inv1]
      steps_step.prems(4) show ?thesis by auto
  next
    case False
    with zombie_step[OF steps_step.prems(1-3) steps_step.hyps(1)]
      gone_steps[OF steps_step.hyps(2) inv1] show ?thesis by auto
  qed
qed simp

theorem exited_task_never_runs_again_witness:
  "\<exists>k k'. sched_step Exit demo_kernel k \<and> sched_steps [Tick False 5] k k' \<and> 1 \<notin> task_id ` set (live k')"
proof -
  define k where "k = mark_zombie demo_kernel"
  have e: "sched_step Exit demo_kernel k" by (simp add: sched_step_simps k_def)
  have c: "current_task (sched k) = Some ((demo_task 1)\<lparr>task_state_of := Zombie\<rparr>)"
    by (simp add: k_def mark_zombie_def demo_kernel_sched)
  have "\<exists>k'. sched_steps [Tick False 5] k k'"
    by (simp add: sched_step_simps k_def mark_zombie_def demo_kernel_sched timer_tick_def Let_def pop_front_def)
  then obtain k' where k': "sched_steps [Tick False 5] k k'" ..
  from exited_task_never_runs_again[OF step_inv[OF demo_kernel_inv e] c _ k'] e k' show ?thesis
    by (auto simp: demo_task_def)
qed

text \<open>C17: No task is lost or duplicated.  As long as no task exits, the tasks that are current or ready
  after any sequence of events are, number by number, those there were before and those created since.\<close>

theorem tasks_conserved:
  assumes "sched_inv k" and "current_task (sched k) = Some c" and "task_state_of c = Running"
    and "sched_steps es k k'" and "Exit \<notin> set es"
  shows "mset (map task_id (live k'))
    = mset (map task_id (live k)) + mset (concat (map (\<lambda>e. case e of Add t \<Rightarrow> [task_id t] | _ \<Rightarrow> []) es))"
  using assms(4,1-3,5)
proof (induction arbitrary: c rule: sched_steps.induct)
  case (steps_step e k k1 es k')
  note inv1 = step_inv[OF steps_step.prems(1) steps_step.hyps(1)]
  have "\<exists>c1. current_task (sched k1) = Some c1 \<and> task_state_of c1 = Running \<and> mset (map task_id (live k1))
      = mset (map task_id (live k)) + mset (case e of Add t \<Rightarrow> [task_id t] | _ \<Rightarrow> [])"
  proof (cases e)
    case (Add t)
    with steps_step.hyps(1) steps_step.prems(2,3) add_step[of t k k1] live_add[of t k k1]
    show ?thesis by simp
  next
    case (Tick l sp)
    show ?thesis
    proof (cases l)
      case True
      with Tick steps_step.hyps(1) steps_step.prems(2,3) show ?thesis
        by (auto simp: sched_step_simps tick_locked live_def)
    next
      case False
      with Tick steps_step.hyps(1) tick_rotates[OF steps_step.prems(2,3), of sp] show ?thesis
        by (auto simp: sched_step_simps mset_rotate1 simp flip: mset_map)
    qed
  qed (use steps_step.prems(4) in simp)
  with steps_step.IH[OF inv1] steps_step.prems(4) show ?case by (auto simp: ac_simps)
qed simp

theorem tasks_conserved_witness:
  "\<exists>k'. sched_steps (map (Tick False) [1, 2]) demo_kernel k'
     \<and> mset (map task_id (live k')) = {#1, 2, 3#}"
proof -
  obtain k' where k': "sched_steps (map (Tick False) [1, 2]) demo_kernel k'"
    using round_robin[OF demo_kernel_sched(1), of "[1, 2]"] by auto
  from tasks_conserved[OF demo_kernel_inv demo_kernel_sched(1) _ k'] k' show ?thesis
    by (auto simp: live_def demo_kernel_sched demo_task_def)
qed

text \<open>Exit hands over or halts.  When the running task exits, the scheduler resumes the task at the
  head of the ready queue on the stack pointer it saved, on its own page tables and interrupt stack;
  it halts the machine exactly when no other task is left.\<close>

theorem exit_switches_or_halts:
  assumes "sched_inv k"
  shows "case tasks (sched k) of
      [] \<Rightarrow> fst (exit_current_task sp k) = Halted
    | t # ts \<Rightarrow> \<exists>k'. exit_current_task sp k = (Resume (stack_ptr t), k') \<and> tasks (sched k') = ts
        \<and> current_task (sched k') = Some (t\<lparr>task_state_of := Running\<rparr>)
        \<and> cr3 k' = pml4_frame (proc_heap k (task_process t)) \<and> tss_rsp0 k' = kernel_stack_top t"
proof -
  from inv_current[OF assms] obtain c where c: "current_task (sched k) = Some c" by auto
  let ?z = "mark_zombie k"
  have z: "current_task (sched ?z) = Some (c\<lparr>task_state_of := Zombie\<rparr>)" "tasks (sched ?z) = tasks (sched k)"
    "proc_heap ?z = proc_heap k" using c by (simp_all add: mark_zombie_def)
  show ?thesis
  proof (cases "tasks (sched k)")
    case Nil
    with tick_halts[OF z(1), of sp] z(2) show ?thesis by (simp add: exit_current_task_def yield_task_def)
  next
    case (Cons t ts)
    with tick_switch[OF z(1), of t ts sp] z(2,3) show ?thesis
      by (cases "timer_tick False sp ?z")
         (auto simp: exit_current_task_def yield_task_def preempted_def)
  qed
qed

theorem exit_switches_or_halts_witness:
  "\<exists>k'. exit_current_task 9 demo_kernel = (Resume 0x2000, k') \<and> cr3 k' = 2"
  using exit_switches_or_halts[OF demo_kernel_inv, of 9]
  by (auto simp: demo_kernel_sched demo_task_def demo_kernel_def demo_boot_def)

end
