(* ===== verification/User_Kernel.thy ===== *)
theory User_Kernel
  imports Libturnix Vfs_Props Scheduler_Props
begin

text \<open>
  Properties of the system-call interface as a user program sees it: the library's wrappers, the
  dispatcher, the handlers and the file system together.
\<close>


section \<open>Lemmas\<close>

lemma sint_nonneg: "unat (w :: u64) \<le> vec_limit \<Longrightarrow> 0 \<le> sint w"
proof -
  assume "unat w \<le> vec_limit"
  then have "unat w \<le> 9223372036854775807" by (simp add: vec_limit_def)
  then have u: "uint w < 9223372036854775808" unfolding uint_nat by linarith
  have "signed_take_bit 63 (uint w) = uint w"
  proof (rule signed_take_bit_int_eq_self)
    show "- (2 ^ 63) \<le> uint w" by (rule order_trans[of _ 0]) simp_all
    show "uint w < 2 ^ 63" using u by simp
  qed
  moreover have "sint w = signed_take_bit 63 (uint w)" unfolding sint_uint by simp
  ultimately show ?thesis by simp
qed

definition listing :: "rstr list \<Rightarrow> u8 list" where
  "listing names = concat (map (\<lambda>n. n @ [10]) names)"

lemma listing_simps [simp]: "listing [] = []" "listing (n # ns) = n @ 10 # listing ns"
  by (simp_all add: listing_def)

lemma ls_loop_listing:
  assumes "offset \<le> length buf" "length buf \<le> vec_limit" "\<forall>n\<in>set names. length n \<le> vec_limit"
  shows "\<exists>k buf'. ls_loop names offset buf = Done (offset + length (listing (take k names)), buf')
    \<and> take (offset + length (listing (take k names))) buf' = take offset buf @ listing (take k names)
    \<and> offset + length (listing (take k names)) \<le> length buf \<and> length buf' = length buf
    \<and> (names \<noteq> take k names \<longrightarrow> length buf < offset + length (listing (take (Suc k) names)))"
  using assms
proof (induction names arbitrary: offset buf)
  case (Cons name names)
  have u: "usize_add offset (length name) = Done (offset + length name)"
    "usize_add (offset + length name) 1 = Done (offset + length name + 1)"
    using Cons.prems by (auto simp: usize_add_def vec_limit_def)
  show ?case
  proof (cases "length buf < offset + length name + 1")
    case True
    with u Cons.prems show ?thesis by (intro exI[of _ 0] exI[of _ buf]) (auto simp del: One_nat_def)
  next
    case False
    let ?o = "offset + length name + 1"
    let ?b = "copy_at (offset + length name) [10] (copy_at offset name buf)"
    have b: "length ?b = length buf" "take ?o ?b = take offset buf @ name @ [10]"
      using False by (auto simp: copy_at_def)
    from Cons.IH[of ?o ?b] Cons.prems False b obtain k buf' where
      k: "ls_loop names ?o ?b = Done (?o + length (listing (take k names)), buf')"
        "take (?o + length (listing (take k names))) buf' = take ?o ?b @ listing (take k names)"
        "?o + length (listing (take k names)) \<le> length buf" "length buf' = length buf"
        "names \<noteq> take k names \<longrightarrow> length buf < ?o + length (listing (take (Suc k) names))"
      by (auto simp del: One_nat_def)
    with u False b(2) show ?thesis
      by (intro exI[of _ "Suc k"] exI[of _ buf']) (auto simp: ac_simps plus_1_eq_Suc simp del: One_nat_def)
  qed
qed auto

lemma ls_names_ok: "slices_ok args s \<Longrightarrow> \<forall>n\<in>set (list_dir (fst (ks_files s))). length n \<le> vec_limit"
  by (auto simp: slices_ok_def list_dir_def)

lemma lib_read_result:
  assumes "vfs_wf v" "ks_files s = (v, t, scr)" "handles (abs_fs v) (unat fd) = Some (q, off)"
    "q \<noteq> ascii ''tty''" "store (abs_fs v) q = Some (ty, Some data)" "p \<noteq> 0" "n \<noteq> 0"
  defines "k \<equiv> min (unat n) (length data - off)"
  shows "\<exists>v' t'. lib_read fd p n r s = Done (Some (Some (of_nat k)),
      s\<lparr>ks_files := (v', t', scr),
        ks_mem := write_mem p (take k (drop off data) @ drop k (read_mem (ks_mem s) p (unat n))) (ks_mem s)\<rparr>)
    \<and> abs_fs v' = (abs_fs v)\<lparr>handles := (handles (abs_fs v))(unat fd \<mapsto> (q, off + k))\<rparr>"
proof -
  from read_file[OF assms(1,3-5), of "read_mem (ks_mem s) p (unat n)" t scr] obtain v' t' where
    v: "vfs_read (unat fd) (read_mem (ks_mem s) p (unat n)) (v, t, scr) = Done ((Some k,
        take k (drop off data) @ drop k (read_mem (ks_mem s) p (unat n))), (v', t', scr))"
      "abs_fs v' = (abs_fs v)\<lparr>handles := (handles (abs_fs v))(unat fd \<mapsto> (q, off + k))\<rparr>"
    by (auto simp: k_def run_bind_eq_Done)
  have "length data \<le> vec_limit" using assms(1,5) by (auto simp: vfs_wf_def abs_fs_def find_entry_def find_Some_iff)
  then have k: "k \<le> vec_limit" by (simp add: k_def)
  then have "unat (of_nat k :: u64) = k" by (simp add: vec_limit_def unat_of_nat)
  with k sint_nonneg[of "of_nat k"] have "0 \<le> sint (of_nat k :: u64)" by simp
  with v assms(2,6,7) show ?thesis
    by (auto simp: lib_read_def syscall3_def do_syscall_handler[where c = SRead] handle_read_def ret_def
        check_result_def result_bits_def)
qed


section \<open>Properties\<close>

text \<open>C20: Reading a file through the library.  \<open>read\<close> on an open descriptor of a regular file returns the
  number of bytes left, at most the buffer's size, puts exactly those bytes of the file at the start
  of the caller's buffer, changes no other byte of memory, and moves only that descriptor.\<close>

theorem lib_read_delivers_file:
  assumes "vfs_wf v" and "ks_files s = (v, t, scr)" and "handles (abs_fs v) (unat fd) = Some (q, off)"
    and "q \<noteq> ascii ''tty''" and "store (abs_fs v) q = Some (ty, Some data)" and "p \<noteq> 0" and "n \<noteq> 0"
  defines "got \<equiv> take (unat n) (drop off data)"
  shows "\<exists>s' v' t'. lib_read fd p n r s = Done (Some (Some (of_nat (length got))), s')
    \<and> read_mem (ks_mem s') p (length got) = got
    \<and> (\<forall>a. length got \<le> unat (a - p) \<longrightarrow> ks_mem s' a = ks_mem s a)
    \<and> ks_files s' = (v', t', scr)
    \<and> abs_fs v' = (abs_fs v)\<lparr>handles := (handles (abs_fs v))(unat fd \<mapsto> (q, off + length got))\<rparr>"
proof -
  define k where "k = min (unat n) (length data - off)"
  let ?m = "write_mem p (take k (drop off data) @ drop k (read_mem (ks_mem s) p (unat n))) (ks_mem s)"
  from lib_read_result[OF assms(1-7), of r] obtain v' t' where
    v: "lib_read fd p n r s = Done (Some (Some (of_nat k)), s\<lparr>ks_files := (v', t', scr), ks_mem := ?m\<rparr>)"
      "abs_fs v' = (abs_fs v)\<lparr>handles := (handles (abs_fs v))(unat fd \<mapsto> (q, off + k))\<rparr>"
    by (auto simp: k_def)
  have g: "length got = k" "got = take k (drop off data)" by (auto simp: got_def k_def min_def)
  have kn: "k \<le> unat n" "unat n < usize_limit" by (simp_all add: k_def)
  have "read_mem ?m p k = got" using kn g read_write_mem[of "take k (drop off data) @ drop k (read_mem (ks_mem s) p (unat n))" p "ks_mem s"]
    by (simp add: take_read_mem[OF kn(1)])
  moreover have "?m a = ks_mem s a" if "k \<le> unat (a - p)" for a
    using that g by (auto simp: write_mem_def nth_append read_mem_def)
  ultimately show ?thesis using v g(1) by auto
qed

definition demo_sys :: ksys where
  "demo_sys = \<lparr>ks_files = (demo_open, tty_new, blank_screen), ks_kernel = demo_boot, ks_mem = \<lambda>_. 97, ks_serial = []\<rparr>"

definition no_args :: syscall_args where
  "no_args = \<lparr>arg0 = 0, arg1 = 0, arg2 = 0, arg3 = 0\<rparr>"

theorem lib_read_delivers_file_witness:
  "\<exists>s'. lib_read 0 0x4000 2 no_args demo_sys = Done (Some (Some 2), s')
    \<and> read_mem (ks_mem s') 0x4000 2 = [1, 2]"
  using lib_read_delivers_file[OF demo_open_wf, where s = demo_sys and t = tty_new and scr = blank_screen and fd = 0
      and q = "ascii ''a''" and off = 0 and ty = Regular and data = "[1, 2, 3]" and p = "0x4000" and n = 2 and r = no_args] demo_open_abs
  by (auto simp: demo_sys_def simp flip: numeral_2_eq_2)





text \<open>C23: Listing the directory.  \<open>ls\<close> fills the caller's buffer with the names in the order of the
  directory, a newline after each, and returns how many bytes it wrote; it stops early only when the
  next name and its newline do not fit, never in the middle of a name.\<close>

theorem lib_ls_lists_names:
  assumes "slices_ok \<lparr>arg0 = p, arg1 = n, arg2 = arg2 r, arg3 = arg3 r\<rparr> s" and "p \<noteq> 0" and "n \<noteq> 0"
  defines "names \<equiv> list_dir (fst (ks_files s))"
  shows "\<exists>k s'. lib_ls p n r s = Done (Some (Some (of_nat (length (listing (take k names))))), s')
    \<and> read_mem (ks_mem s') p (length (listing (take k names))) = listing (take k names)
    \<and> length (listing (take k names)) \<le> unat n
    \<and> (names \<noteq> take k names \<longrightarrow> unat n < length (listing (take (Suc k) names)))"
proof -
  let ?args = "\<lparr>arg0 = p, arg1 = n, arg2 = arg2 r, arg3 = arg3 r\<rparr>"
  let ?buf = "read_mem (ks_mem s) p (unat n)"
  have n: "unat n \<le> vec_limit" using assms(1) by (simp add: slices_ok_def)
  from ls_loop_listing[of 0 ?buf names] ls_names_ok[OF assms(1)] n obtain k buf' where
    k: "ls_loop names 0 ?buf = Done (length (listing (take k names)), buf')"
      "take (length (listing (take k names))) buf' = listing (take k names)"
      "length (listing (take k names)) \<le> unat n" "length buf' = unat n"
      "names \<noteq> take k names \<longrightarrow> unat n < length (listing (take (Suc k) names))"
    by (auto simp: names_def)
  let ?l = "of_nat (length (listing (take k names))) :: u64"
  have "unat ?l \<le> vec_limit" using k(3) n by (subst unat_of_nat_u64) (simp_all add: vec_limit_def)
  then have "0 \<le> sint ?l" by (rule sint_nonneg)
  moreover have "r\<lparr>arg0 := p, arg1 := n\<rparr> = ?args" by (cases r) simp
  ultimately have "lib_ls p n r s = Done (Some (Some ?l), s\<lparr>ks_mem := write_mem p buf' (ks_mem s)\<rparr>)"
    using k(1) assms(2,3)
    by (simp add: lib_ls_def syscall2_def do_syscall_handler[where c = SLs] handle_ls_def ret_def
        check_result_def result_bits_def names_def)
  moreover have "read_mem (write_mem p buf' (ks_mem s)) p (length (listing (take k names))) = listing (take k names)"
    using read_write_mem[of buf' p "ks_mem s"] k(2-4) by (simp add: take_read_mem[OF k(3)])
  ultimately show ?thesis using k(3,5) by (intro exI[of _ k]) auto
qed

theorem lib_ls_lists_names_witness:
  "\<exists>k s'. lib_ls 0x4000 7 no_args demo_sys = Done (Some (Some (of_nat (length (listing (take k (list_dir demo_open)))))), s')
    \<and> length (listing (take k (list_dir demo_open))) \<le> 7
    \<and> read_mem (ks_mem s') 0x4000 (length (listing (take k (list_dir demo_open)))) = listing (take k (list_dir demo_open))"
proof -
  have "slices_ok \<lparr>arg0 = 0x4000, arg1 = 7, arg2 = arg2 no_args, arg3 = arg3 no_args\<rparr> demo_sys"
    by (auto simp: slices_ok_def demo_sys_def demo_open_def demo_vfs_def init_defaults_def vfs_new_def
        ascii_def vec_limit_def)
  from lib_ls_lists_names[OF this] show ?thesis by (auto simp: demo_sys_def)
qed

text \<open>C24: A failed call looks like a successful one to the library.  Opening a name that does not exist
  makes the kernel return the error code one, which the library takes for descriptor one instead of
  reporting the failure.\<close>

theorem failed_open_looks_successful:
  assumes "p \<noteq> 0" and "n \<noteq> 0" and "user_str p n s \<notin> set (list_dir (fst (ks_files s)))"
  shows "lib_open p n r s = Done (Some (Some 1), s)"
proof -
  have "\<forall>e\<in>set (vfs_entries (fst (ks_files s))). ve_name e \<noteq> user_str p n s"
    using assms(3) by (metis imageI list_dir_def set_map)
  then have "open_entries (user_str p n s) (vfs_entries (fst (ks_files s))) (open_files (fst (ks_files s))) = None"
    by (simp add: open_entries_None)
  then have "vfs_open (user_str p n s) (fst (ks_files s)) = (None, fst (ks_files s))"
    by (simp add: vfs_open_def)
  with assms(1,2) show ?thesis
    by (simp add: lib_open_def syscall2_def do_syscall_handler[where c = SOpen] handle_open_def ret_def
        check_result_def result_bits_def with_vfs_def)
qed

theorem failed_open_looks_successful_witness:
  "lib_open 0x4000 2 no_args demo_sys = Done (Some (Some 1), demo_sys)"
proof -
  have "from_utf8 [97, 97] = Some [97, 97]"
    using from_utf8_encode_str[of "[97, 97]"] by (simp add: encode_utf8_def is_scalar_def)
  then have "user_str 0x4000 2 demo_sys = [97, 97]"
    by (simp add: user_str_def demo_sys_def read_mem_def upt_conv_Cons)
  then have "user_str 0x4000 2 demo_sys \<notin> set (list_dir (fst (ks_files demo_sys)))"
    by (simp add: demo_sys_def list_dir_def demo_open_def demo_vfs_def init_defaults_def vfs_new_def ascii_def)
  then show ?thesis by (intro failed_open_looks_successful) simp_all
qed

text \<open>System-call numbers.  Decoding a number gives a call if and only if it is that call's number, and
  the numbers that decode are exactly 1 to 20.\<close>

theorem syscall_numbers_roundtrip:
  "(syscall_from_u16 n = Some c \<longleftrightarrow> n = syscall_id c)
   \<and> (syscall_from_u16 n = None \<longleftrightarrow> n = 0 \<or> 20 < n)"
proof -
  have "syscall_from_u16 n \<noteq> None" if "unat n \<in> set [1..<21]"
    using that by (auto simp: syscall_from_u16_def word_unat_eq_iff upt_conv_Cons)
  then have "n = 0 \<or> 20 < n" if "syscall_from_u16 n = None"
    using that by (force simp: word_less_nat_alt word_unat_eq_iff)
  moreover have "syscall_from_u16 n = None" if "n = 0 \<or> 20 < n"
    using that by (auto simp: syscall_from_u16_def)
  ultimately show ?thesis by (auto dest: from_u16_Some)
qed

end
