(* ===== verification/Context.thy ===== *)
theory Context
  imports Scheduler
begin

text \<open>
  Context switches: the assembly entry points of the timer and yield interrupts
  (\<^verbatim>\<open>kernel/src/interrupts/mod.rs\<close>), of the system call (\<^verbatim>\<open>kernel/src/syscall/mod.rs\<close>), the first
  dispatch of \<open>start_scheduling\<close> and the frames that \<open>Task::new\<close> and \<open>Task::new_user\<close> build
  (\<^verbatim>\<open>kernel/src/task/mod.rs\<close>), over a machine with the general registers, the registers of the
  \<open>iretq\<close> frame, the choice of GS base, and memory as 8-byte slots at aligned addresses.  The stack
  that the called Rust functions use below the saved frame is not represented.
\<close>


section \<open>The machine\<close>

record regs =
  rax :: u64
  rbx :: u64
  rcx :: u64
  rdx :: u64
  rbp :: u64
  rsi :: u64
  rdi :: u64
  r8 :: u64
  r9 :: u64
  r10 :: u64
  r11 :: u64
  r12 :: u64
  r13 :: u64
  r14 :: u64
  r15 :: u64

type_synonym slots = "u64 \<Rightarrow> u64"

record machine =
  gprs :: regs
  rip :: u64
  cs :: u64
  rflags :: u64
  rsp :: u64
  ss :: u64
  gs_kernel :: bool
  slots_of :: slots
  kern :: kernel
  user_rsp_temp :: u64
  serial_out :: "u8 list"
  lapic_writes :: "(u32 \<times> u32) list"

text \<open>The order in which every entry point pushes the general registers.\<close>

definition regs_list :: "regs \<Rightarrow> u64 list" where
  "regs_list r = [rax r, rbx r, rcx r, rdx r, rbp r, rsi r, rdi r, r8 r, r9 r, r10 r, r11 r, r12 r,
     r13 r, r14 r, r15 r]"

definition push :: "u64 \<Rightarrow> machine \<Rightarrow> machine" where
  "push v m = m\<lparr>rsp := rsp m - 8, slots_of := (slots_of m)(rsp m - 8 := v)\<rparr>"

definition pop :: "machine \<Rightarrow> u64 \<times> machine" where
  "pop m = (slots_of m (rsp m), m\<lparr>rsp := rsp m + 8\<rparr>)"

definition push_regs :: "machine \<Rightarrow> machine" where
  "push_regs m = fold push (regs_list (gprs m)) m"

definition pop_regs :: "machine \<Rightarrow> machine" where
  "pop_regs m =
     (let (v15, m) = pop m; (v14, m) = pop m; (v13, m) = pop m; (v12, m) = pop m; (v11, m) = pop m;
          (v10, m) = pop m; (v9, m) = pop m; (v8, m) = pop m; (vdi, m) = pop m; (vsi, m) = pop m;
          (vbp, m) = pop m; (vdx, m) = pop m; (vcx, m) = pop m; (vbx, m) = pop m; (vax, m) = pop m in
      m\<lparr>gprs := \<lparr>rax = vax, rbx = vbx, rcx = vcx, rdx = vdx, rbp = vbp, rsi = vsi, rdi = vdi, r8 = v8,
        r9 = v9, r10 = v10, r11 = v11, r12 = v12, r13 = v13, r14 = v14, r15 = v15\<rparr>\<rparr>)"

definition is_user :: "u64 \<Rightarrow> bool" where
  "is_user sel \<longleftrightarrow> sel AND 3 \<noteq> 0"

definition swapgs :: "machine \<Rightarrow> machine" where
  "swapgs m = m\<lparr>gs_kernel := \<not> gs_kernel m\<rparr>"

text \<open>\<open>test qword ptr [rsp + 8], 0x3; jz ...; swapgs\<close>\<close>

definition swapgs_if_user :: "machine \<Rightarrow> machine" where
  "swapgs_if_user m = (if is_user (slots_of m (rsp m + 8)) then swapgs m else m)"

definition iretq :: "machine \<Rightarrow> machine" where
  "iretq m =
     (let (vip, m) = pop m; (vcs, m) = pop m; (vfl, m) = pop m; (vsp, m) = pop m; (vss, m) = pop m in
      m\<lparr>rip := vip, cs := vcs, rflags := vfl, rsp := vsp, ss := vss\<rparr>)"

text \<open>Delivery of an interrupt by the processor: the stack of the task state segment when it comes from
  user mode, the current stack aligned to 16 otherwise; then SS, RSP, RFLAGS, CS and RIP.\<close>

definition deliver :: "machine \<Rightarrow> machine" where
  "deliver m =
     (let user = is_user (cs m);
          m1 = m\<lparr>rsp := (if user then tss_rsp0 (kern m) else rsp m AND NOT 15)\<rparr>;
          m2 = push (rip m) (push (cs m) (push (rflags m) (push (rsp m) (push (ss m) m1)))) in
      m2\<lparr>cs := 0x08, ss := (if user then 0 else ss m), rflags := rflags m AND NOT 0x200\<rparr>)"


section \<open>Timer and yield\<close>

definition signal_eoi :: "machine \<Rightarrow> machine" where
  "signal_eoi m = m\<lparr>lapic_writes := lapic_writes m @ [(0xB0, 0)]\<rparr>"

text \<open>The handler called with the saved frame, \<open>mov rsp, rax\<close>, and the restore.\<close>

definition resume :: "tick_result \<times> kernel \<Rightarrow> machine \<Rightarrow> machine option" where
  "resume r m = (case r of
       (Halted, _) \<Rightarrow> None
     | (Resume p, k) \<Rightarrow> Some (iretq (swapgs_if_user (pop_regs (m\<lparr>kern := k, rsp := p\<rparr>)))))"

definition trace_T :: "machine \<Rightarrow> machine" where
  "trace_T m =
     (let m = push (rdx (gprs m)) (push (rax (gprs m)) m);
          m = m\<lparr>serial_out := serial_out m @ [84]\<rparr> in
      snd (pop (snd (pop m))))"

definition timer_interrupt_entry :: "bool \<Rightarrow> machine \<Rightarrow> machine option" where
  "timer_interrupt_entry locked m =
     (let m = push_regs (swapgs_if_user (trace_T m));
          m = signal_eoi m in
      resume (timer_tick locked (rsp m) (kern m)) m)"

definition yield_interrupt_entry :: "bool \<Rightarrow> machine \<Rightarrow> machine option" where
  "yield_interrupt_entry locked m =
     (let m = push_regs (swapgs_if_user m) in
      resume (timer_tick locked (rsp m) (kern m)) m)"

definition timer_interrupt :: "bool \<Rightarrow> machine \<Rightarrow> machine option" where
  "timer_interrupt locked m = timer_interrupt_entry locked (deliver m)"

definition yield_interrupt :: "bool \<Rightarrow> machine \<Rightarrow> machine option" where
  "yield_interrupt locked m = yield_interrupt_entry locked (deliver m)"


text \<open>The page-fault and general-protection handlers, entered without \<open>swapgs\<close>: a fault in user mode
  ends the task (the error code is on the stack), a fault in kernel mode panics.\<close>

definition fault_handler :: "u64 \<Rightarrow> machine \<Rightarrow> machine option run" where
  "fault_handler error_code m =
     (let d = push error_code (deliver m) in
      if cs m AND 3 = 3 then Done (yield_interrupt False (d\<lparr>kern := mark_zombie (kern d)\<rparr>))
      else Panic)"


section \<open>System call entry\<close>

text \<open>The \<open>syscall\<close> instruction of the processor, with the flags mask that \<open>syscall::init\<close> sets.\<close>

definition syscall_instruction :: "machine \<Rightarrow> machine" where
  "syscall_instruction m = m\<lparr>gprs := (gprs m)\<lparr>rcx := rip m, r11 := rflags m\<rparr>, cs := 0x08, ss := 0x10,
     rflags := rflags m AND NOT 0x200\<rparr>"

text \<open>The entry point; \<open>dispatch\<close> is \<open>syscall_dispatch\<close>, given the address of the saved frame.  Without
  the kernel's GS base after \<open>swapgs\<close> the access to \<open>gs:[8]\<close> is not to the per-CPU area: None.\<close>

definition syscall_entry :: "(u64 \<Rightarrow> machine \<Rightarrow> (u64 \<times> machine) option) \<Rightarrow> machine \<Rightarrow> machine option" where
  "syscall_entry dispatch m =
     (let m = swapgs m in
      if \<not> gs_kernel m then None
      else
        let m = m\<lparr>user_rsp_temp := rsp m\<rparr>;
            m = m\<lparr>rsp := per_cpu_stack (kern m)\<rparr>;
            m = push 0x23 m;
            m = push (user_rsp_temp m) m;
            m = push (r11 (gprs m)) m;
            m = push 0x2b m;
            m = push (rcx (gprs m)) m;
            m = push_regs m in
        (case dispatch (rsp m) m of
           None \<Rightarrow> None
         | Some (result, m) \<Rightarrow>
             let m = m\<lparr>slots_of := (slots_of m)(rsp m + 14 * 8 := result)\<rparr> in
             Some (iretq (swapgs (pop_regs m)))))"


section \<open>Frames of new tasks\<close>

definition KERNEL_STACK_REGION_BASE :: u64 where "KERNEL_STACK_REGION_BASE = 0xFFFFFE0000000000"
definition STACK_SIZE :: u64 where "STACK_SIZE = 8 * 4096"
definition STACK_STRIDE :: u64 where "STACK_STRIDE = (8 + 1 + 1) * 4096"

definition stack_top_virt :: "nat \<Rightarrow> u64 run" where
  "stack_top_virt n =
     run_bind (mul_or_panic (of_nat n) STACK_STRIDE) (\<lambda>off.
     run_bind (add_or_panic KERNEL_STACK_REGION_BASE off) (\<lambda>stack_region_base.
     run_bind (add_or_panic stack_region_base 4096) (\<lambda>usable_stack_start.
       add_or_panic usable_stack_start STACK_SIZE)))"

definition write_frame :: "u64 \<Rightarrow> u64 \<Rightarrow> u64 \<Rightarrow> u64 \<Rightarrow> u64 \<Rightarrow> slots \<Rightarrow> u64 \<times> slots" where
  "write_frame stack_top vss vsp vcs entry mem =
     fold (\<lambda>v (p, mem). (p - 8, mem(p - 8 := v)))
       ([vss, vsp, 0x202, vcs, entry] @ replicate 15 0) (stack_top, mem)"

definition new_kernel_frame :: "u64 \<Rightarrow> u64 \<Rightarrow> slots \<Rightarrow> u64 \<times> slots" where
  "new_kernel_frame stack_top entry mem = write_frame stack_top 0x10 stack_top 0x08 entry mem"

definition new_user_frame :: "u64 \<Rightarrow> process_inner \<Rightarrow> slots \<Rightarrow> u64 \<times> slots" where
  "new_user_frame stack_top proc mem =
     write_frame stack_top 0x23 (proc_stack_top proc) 0x2b (entry_point proc) mem"

text \<open>\<open>start_scheduling\<close>: the first task's registers are popped like those of a preempted one.\<close>

definition first_dispatch :: "machine \<Rightarrow> machine run" where
  "first_dispatch m = run_bind (start_scheduling (kern m)) (\<lambda>(p, k).
     Done (iretq (swapgs_if_user (pop_regs (m\<lparr>kern := k, rsp := p\<rparr>)))))"



section \<open>Saved contexts\<close>

record cpu_context =
  c_gprs :: regs
  c_rip :: u64
  c_cs :: u64
  c_rflags :: u64
  c_rsp :: u64
  c_ss :: u64

definition context_of :: "machine \<Rightarrow> cpu_context" where
  "context_of m = \<lparr>c_gprs = gprs m, c_rip = rip m, c_cs = cs m, c_rflags = rflags m, c_rsp = rsp m,
     c_ss = ss m\<rparr>"

text \<open>The context that a stack pointer saved by the scheduler refers to.\<close>

definition frame_at :: "slots \<Rightarrow> u64 \<Rightarrow> cpu_context" where
  "frame_at mem p = \<lparr>c_gprs = \<lparr>rax = mem (p + 112), rbx = mem (p + 104), rcx = mem (p + 96),
     rdx = mem (p + 88), rbp = mem (p + 80), rsi = mem (p + 72), rdi = mem (p + 64), r8 = mem (p + 56),
     r9 = mem (p + 48), r10 = mem (p + 40), r11 = mem (p + 32), r12 = mem (p + 24), r13 = mem (p + 16),
     r14 = mem (p + 8), r15 = mem p\<rparr>,
     c_rip = mem (p + 120), c_cs = mem (p + 128), c_rflags = mem (p + 136), c_rsp = mem (p + 144),
     c_ss = mem (p + 152)\<rparr>"

lemma restore_context:
  "context_of (iretq (swapgs_if_user (pop_regs (m\<lparr>rsp := p\<rparr>)))) = frame_at (slots_of m) p"
  "gs_kernel (iretq (swapgs_if_user (pop_regs (m\<lparr>rsp := p\<rparr>)))) =
     (gs_kernel m \<noteq> is_user (c_cs (frame_at (slots_of m) p)))"
  "kern (iretq (swapgs_if_user (pop_regs (m\<lparr>rsp := p\<rparr>)))) = kern m"
  "slots_of (iretq (swapgs_if_user (pop_regs (m\<lparr>rsp := p\<rparr>)))) = slots_of m"
  by (auto simp: context_of_def frame_at_def iretq_def swapgs_if_user_def swapgs_def pop_regs_def
      pop_def Let_def add.assoc)

text \<open>The twenty slots that an interrupt at stack pointer \<open>b\<close> writes.\<close>

definition frame_slots :: "u64 \<Rightarrow> u64 set" where
  "frame_slots b = (\<lambda>i. b - 8 * of_nat i) ` {1..20}"

definition save_base :: "machine \<Rightarrow> u64" where
  "save_base m = (if is_user (cs m) then tss_rsp0 (kern m) else rsp m AND NOT 15)"

lemma save_yield:
  assumes "m' = push_regs (swapgs_if_user (deliver m))"
  shows "rsp m' = save_base m - 160" "kern m' = kern m" "frame_at (slots_of m') (rsp m') = context_of m"
    "gs_kernel m' = (gs_kernel m \<noteq> is_user (cs m))"
  using assms
  by (simp_all add: push_regs_def regs_list_def swapgs_if_user_def swapgs_def deliver_def push_def
      save_base_def frame_at_def context_of_def Let_def)

end
