(* ===== verification/Context_Switch.thy ===== *)
theory Context_Switch
  imports Context Scheduler_Props
begin

text \<open>
  A preempted task resumes where it was.  The machine of theory \<open>Context\<close> runs tasks, takes timer and
  yield interrupts and creates tasks; the kernel stacks of different tasks are disjoint, so the
  context that an interrupt saves is the context the task is given back.
\<close>


section \<open>Saving\<close>

definition save :: "machine \<Rightarrow> machine" where
  "save m = push_regs (swapgs_if_user (deliver m))"

lemma push_overwrites:
  "push v2 (push v1 (m\<lparr>slots_of := (slots_of m)(rsp m - 8 := w1, rsp m - 16 := w2)\<rparr>)) = push v2 (push v1 m)"
  by (simp add: push_def fun_eq_iff)

lemma push_serial: "push v (m\<lparr>serial_out := s\<rparr>) = (push v m)\<lparr>serial_out := s\<rparr>"
  by (simp add: push_def)

lemma pushes_serial: "fold push vs (m\<lparr>serial_out := s\<rparr>) = (fold push vs m)\<lparr>serial_out := s\<rparr>"
  by (induction vs arbitrary: m) (simp_all add: push_serial)

lemma trace_T_slots:
  "trace_T m = m\<lparr>slots_of := (slots_of m)(rsp m - 8 := rax (gprs m), rsp m - 16 := rdx (gprs m)),
     serial_out := serial_out m @ [84]\<rparr>"
  by (simp add: trace_T_def push_def pop_def Let_def)

lemma push_regs_overwrites:
  "push_regs (m\<lparr>slots_of := (slots_of m)(rsp m - 8 := w1, rsp m - 16 := w2), serial_out := s\<rparr>) =
   (push_regs m)\<lparr>serial_out := s\<rparr>"
  using push_overwrites[of "rbx (gprs m)" "rax (gprs m)" m w1 w2]
  by (simp add: push_regs_def regs_list_def push_serial)

lemma trace_T_overwritten:
  "push_regs (swapgs_if_user (trace_T (deliver m))) = (save m)\<lparr>serial_out := serial_out m @ [84]\<rparr>"
proof -
  let ?d = "deliver m"
  have ser: "serial_out ?d = serial_out m" by (simp add: deliver_def push_def Let_def)
  have g: "swapgs_if_user (?d\<lparr>slots_of := (slots_of ?d)(rsp ?d - 8 := a, rsp ?d - 16 := b), serial_out := s\<rparr>)
    = (let d = swapgs_if_user ?d in
       d\<lparr>slots_of := (slots_of d)(rsp d - 8 := a, rsp d - 16 := b), serial_out := s\<rparr>)" for a b s
    by (simp add: swapgs_if_user_def swapgs_def Let_def)
  show ?thesis unfolding trace_T_slots g Let_def push_regs_overwrites save_def ser ..
qed

lemma pushes_outside:
  "(\<And>i. 1 \<le> i \<Longrightarrow> i \<le> length vs \<Longrightarrow> a \<noteq> rsp m - 8 * of_nat i) \<Longrightarrow> slots_of (fold push vs m) a = slots_of m a"
proof (induction vs arbitrary: m)
  case (Cons v vs)
  have "slots_of (push v m) a = slots_of m a" using Cons.prems[of 1] by (simp add: push_def)
  moreover have "slots_of (fold push vs (push v m)) a = slots_of (push v m) a"
  proof (rule Cons.IH)
    fix i assume "1 \<le> i" "i \<le> length vs"
    then show "a \<noteq> rsp (push v m) - 8 * of_nat i"
      using Cons.prems[of "Suc i"] by (simp add: push_def algebra_simps)
  qed
  ultimately show ?case by simp
qed simp

lemma save_outside:
  assumes "a \<notin> frame_slots (save_base m)"
  shows "slots_of (save m) a = slots_of m a"
proof -
  have n: "a \<noteq> save_base m - 8 * of_nat i" if "1 \<le> i" "i \<le> 20" for i
    using assms that by (auto simp: frame_slots_def)
  let ?d = "swapgs_if_user (deliver m)"
  have d: "slots_of ?d = slots_of (deliver m)" "rsp ?d = save_base m - 40"
    by (simp_all add: swapgs_if_user_def swapgs_def deliver_def push_def save_base_def Let_def)
  have "slots_of (deliver m) a = slots_of m a"
    using n[of 1] n[of 2] n[of 3] n[of 4] n[of 5]
    by (simp add: deliver_def push_def save_base_def Let_def)
  moreover have "slots_of (save m) a = slots_of ?d a" unfolding save_def push_regs_def
  proof (rule pushes_outside)
    fix i assume "1 \<le> i" "i \<le> length (regs_list (gprs ?d))"
    then show "a \<noteq> rsp ?d - 8 * of_nat i"
      using n[of "i + 5"] by (simp add: d regs_list_def algebra_simps)
  qed
  ultimately show ?thesis using d by simp
qed

lemma frame_at_cong:
  assumes "\<And>j. j < 20 \<Longrightarrow> mem' (p + 8 * of_nat j) = mem (p + 8 * of_nat j)"
  shows "frame_at mem' p = frame_at mem p"
  using assms[of 0] assms[of 1] assms[of 2] assms[of 3] assms[of 4] assms[of 5] assms[of 6]
    assms[of 7] assms[of 8] assms[of 9] assms[of 10] assms[of 11] assms[of 12] assms[of 13]
    assms[of 14] assms[of 15] assms[of 16] assms[of 17] assms[of 18] assms[of 19]
  by (simp add: frame_at_def)

lemma frame_at_rax:
  "frame_at (mem(p + 112 := r)) p = (frame_at mem p)\<lparr>c_gprs := (c_gprs (frame_at mem p))\<lparr>rax := r\<rparr>\<rparr>"
  by (simp add: frame_at_def)

text \<open>One interrupt: the context is saved, the scheduler runs, the frame it returns is restored.\<close>

lemma interrupt_cases:
  assumes "timer_interrupt locked m = Some m' \<or> yield_interrupt locked m = Some m'"
  obtains p where "timer_tick locked (save_base m - 160) (kern m) = (Resume p, kern m')"
    "slots_of m' = slots_of (save m)" "context_of m' = frame_at (slots_of (save m)) p"
    "gs_kernel m' = ((gs_kernel m \<noteq> is_user (cs m)) \<noteq> is_user (cs m'))"
proof -
  note s = save_yield[of "save m" m, OF save_def]
  have r: "\<exists>p. timer_tick locked (save_base m - 160) (kern m) = (Resume p, kern m') \<and>
      slots_of m' = slots_of (save m) \<and> context_of m' = frame_at (slots_of (save m)) p \<and>
      gs_kernel m' = ((gs_kernel m \<noteq> is_user (cs m)) \<noteq> is_user (cs m'))"
    if res: "resume (timer_tick locked (rsp x) (kern x)) x = Some m'"
      and x: "rsp x = rsp (save m)" "kern x = kern (save m)" "slots_of x = slots_of (save m)"
        "gs_kernel x = gs_kernel (save m)" for x
  proof -
    from res obtain p k where p: "timer_tick locked (rsp x) (kern x) = (Resume p, k)"
      "m' = iretq (swapgs_if_user (pop_regs (x\<lparr>kern := k, rsp := p\<rparr>)))"
      by (auto simp: resume_def split: prod.splits tick_result.splits)
    from restore_context[where m = "x\<lparr>kern := k\<rparr>" and p = p] p(2)
    have q: "context_of m' = frame_at (slots_of x) p" "kern m' = k" "slots_of m' = slots_of x"
      "gs_kernel m' = (gs_kernel x \<noteq> is_user (c_cs (frame_at (slots_of x) p)))" by simp_all
    then have "cs m' = c_cs (frame_at (slots_of x) p)" by (metis context_of_def cpu_context.select_convs(3))
    with p q x s show ?thesis by (intro exI[of _ p]) simp
  qed
  from assms have "\<exists>x. resume (timer_tick locked (rsp x) (kern x)) x = Some m' \<and> rsp x = rsp (save m)
      \<and> kern x = kern (save m) \<and> slots_of x = slots_of (save m) \<and> gs_kernel x = gs_kernel (save m)"
  proof
    assume "timer_interrupt locked m = Some m'"
    then show ?thesis
      by (intro exI[of _ "signal_eoi ((save m)\<lparr>serial_out := serial_out m @ [84]\<rparr>)"])
         (auto simp: timer_interrupt_def timer_interrupt_entry_def trace_T_overwritten Let_def
           signal_eoi_def)
  next
    assume "yield_interrupt locked m = Some m'"
    then show ?thesis
      by (intro exI[of _ "save m"])
         (auto simp: yield_interrupt_def yield_interrupt_entry_def save_def Let_def)
  qed
  with r that show thesis by blast
qed


section \<open>Kernel stacks\<close>

definition own_stack :: "task \<Rightarrow> u64 set" where
  "own_stack t = {a. unat (kernel_stack_top t) - 32768 \<le> unat a \<and> unat a < unat (kernel_stack_top t)}"

definition stack_ok :: "task \<Rightarrow> bool" where
  "stack_ok t \<longleftrightarrow> task_id t < usize_limit \<and> stack_top_virt (task_id t) = Done (kernel_stack_top t)"

lemma stack_ok_top:
  assumes "stack_ok t"
  shows "unat (kernel_stack_top t) = 0xFFFFFE0000009000 + task_id t * 40960"
proof -
  from assms obtain a b c where
    1: "mul_or_panic (of_nat (task_id t)) STACK_STRIDE = Done a"
      "add_or_panic KERNEL_STACK_REGION_BASE a = Done b" "add_or_panic b 4096 = Done c"
      "add_or_panic c STACK_SIZE = Done (kernel_stack_top t)" and u: "task_id t < usize_limit"
    by (auto simp: stack_ok_def stack_top_virt_def run_bind_eq_Done)
  have "unat a = task_id t * 40960" using mul_or_panic_Done[OF 1(1)] u by (simp add: STACK_STRIDE_def)
  with add_or_panic_Done[OF 1(2)] add_or_panic_Done[OF 1(3)] add_or_panic_Done[OF 1(4)] show ?thesis
    by (simp add: KERNEL_STACK_REGION_BASE_def STACK_SIZE_def)
qed

lemma own_stacks_disjoint:
  assumes "stack_ok t" "stack_ok t'" "task_id t \<noteq> task_id t'"
  shows "own_stack t \<inter> own_stack t' = {}"
  using stack_ok_top[OF assms(1)] stack_ok_top[OF assms(2)] assms(3)
  by (auto simp: own_stack_def)

text \<open>There is room for a frame below \<open>b\<close> in the kernel stack of \<open>t\<close>.\<close>

definition room :: "task \<Rightarrow> u64 \<Rightarrow> bool" where
  "room t b \<longleftrightarrow> unat (kernel_stack_top t) - 32768 + 160 \<le> unat b \<and> unat b \<le> unat (kernel_stack_top t)"

lemma unat_minus_small: "n \<le> unat (b :: u64) \<Longrightarrow> unat (b - of_nat n) = unat b - n"
proof -
  assume n: "n \<le> unat b"
  then have "n < usize_limit" using unat_u64_limit[of b] by linarith
  with n show ?thesis by (simp add: unat_sub word_le_nat_alt)
qed

lemma aligned_16: "unat (w :: u64) mod 16 = 0 \<Longrightarrow> w AND NOT 15 = w"
proof -
  assume a: "unat w mod 16 = 0"
  have "unat (take_bit 4 w) = 0" using a by (simp add: take_bit_eq_mod unat_mod)
  then have z: "take_bit 4 w = 0" by (simp add: unat_eq_0)
  have low: "\<not> bit w n" if "n < 4" for n
    using bit_take_bit_iff[of 4 w n] that by (simp add: z)
  have "w AND NOT (mask 4) = w"
    by (rule bit_word_eqI) (use low in \<open>force simp: bit_and_iff bit_not_iff bit_mask_iff\<close>)
  then show ?thesis by (simp add: mask_numeral)
qed

lemma room_frame_slots:
  assumes "room t b"
  shows "frame_slots b \<subseteq> own_stack t"
proof
  fix a assume "a \<in> frame_slots b"
  then obtain i where i: "1 \<le> i" "i \<le> 20" "a = b - of_nat (8 * i)" by (auto simp: frame_slots_def)
  with assms unat_minus_small[of "8 * i" b] show "a \<in> own_stack t"
    by (auto simp: room_def own_stack_def)
qed

text \<open>A saved frame lies in the kernel stack of its task.\<close>

definition saved_ok :: "task \<Rightarrow> bool" where
  "saved_ok t \<longleftrightarrow> unat (kernel_stack_top t) - 32768 \<le> unat (stack_ptr t)
     \<and> unat (stack_ptr t) + 160 \<le> unat (kernel_stack_top t)"

lemma saved_ok_frame:
  assumes "saved_ok t" "j < 20"
  shows "stack_ptr t + 8 * of_nat j \<in> own_stack t"
proof -
  have "8 * of_nat j = (of_nat (8 * j) :: u64)" by simp
  moreover have "unat (stack_ptr t) + 8 * j < usize_limit"
    using assms unat_u64_limit[of "kernel_stack_top t"] unfolding saved_ok_def by linarith
  then have "unat (stack_ptr t + of_nat (8 * j)) = unat (stack_ptr t) + 8 * j"
    using assms unat_of_nat_u64[of "8 * j"]
    by (subst unat_add_no_wrap) (simp_all del: of_nat_mult)
  ultimately show ?thesis using assms by (simp add: own_stack_def saved_ok_def del: of_nat_mult)
qed

lemma saved_frame_kept:
  assumes "saved_ok t" "\<forall>a\<in>own_stack t. mem' a = mem a"
  shows "frame_at mem' (stack_ptr t) = frame_at mem (stack_ptr t)"
  using assms saved_ok_frame by (intro frame_at_cong) blast


section \<open>Frames of new tasks\<close>

definition store_below :: "u64 list \<Rightarrow> u64 \<times> slots \<Rightarrow> u64 \<times> slots" where
  "store_below = fold (\<lambda>v (p, mem). (p - 8, mem(p - 8 := v)))"

lemma store_below_outside:
  "(\<And>i. 1 \<le> i \<Longrightarrow> i \<le> length vs \<Longrightarrow> a \<noteq> p - 8 * of_nat i) \<Longrightarrow>
   snd (store_below vs (p, mem)) a = mem a \<and> fst (store_below vs (p, mem)) = p - 8 * of_nat (length vs)"
proof (induction vs arbitrary: p mem)
  case (Cons v vs)
  have "a \<noteq> p - 8 - 8 * of_nat i" if "1 \<le> i" "i \<le> length vs" for i
    using Cons.prems[of "Suc i"] that by (simp add: algebra_simps)
  note IH = Cons.IH[of "p - 8" "mem(p - 8 := v)", OF this]
  have "store_below (v # vs) (p, mem) = store_below vs (p - 8, mem(p - 8 := v))"
    by (simp add: store_below_def)
  moreover have "p - 8 - 8 * of_nat (length vs) = p - (8 + 8 * of_nat (length vs))"
    by (simp add: algebra_simps)
  moreover have "a \<noteq> p - 8" using Cons.prems[of 1] by simp
  ultimately show ?case using IH by (simp add: fun_upd_def)
qed (simp add: store_below_def)

lemma write_frame_outside:
  assumes "a \<notin> frame_slots stack_top"
  shows "snd (write_frame stack_top vss vsp vcs entry mem) a = mem a"
proof -
  have "snd (store_below ([vss, vsp, 0x202, vcs, entry] @ replicate 15 0) (stack_top, mem)) a = mem a"
    using assms by (intro store_below_outside[THEN conjunct1]) (auto simp: frame_slots_def)
  then show ?thesis by (simp only: write_frame_def store_below_def)
qed

lemma replicate_15: "replicate 15 x = [x, x, x, x, x, x, x, x, x, x, x, x, x, x, x]"
  by (simp add: numeral_eq_Suc)

lemma write_frame_context:
  "fst (write_frame stack_top vss vsp vcs entry mem) = stack_top - 160"
  "frame_at (snd (write_frame stack_top vss vsp vcs entry mem)) (stack_top - 160) =
    \<lparr>c_gprs = \<lparr>rax = 0, rbx = 0, rcx = 0, rdx = 0, rbp = 0, rsi = 0, rdi = 0, r8 = 0, r9 = 0, r10 = 0,
       r11 = 0, r12 = 0, r13 = 0, r14 = 0, r15 = 0\<rparr>,
     c_rip = entry, c_cs = vcs, c_rflags = 0x202, c_rsp = vsp, c_ss = vss\<rparr>"
  by (simp_all add: write_frame_def replicate_15 frame_at_def)


section \<open>The system\<close>

definition ctx_room :: "task \<Rightarrow> cpu_context \<Rightarrow> bool" where
  "ctx_room t c \<longleftrightarrow> is_user (c_cs c) \<or> room t (c_rsp c AND NOT 15)"

text \<open>What a running task may do between interrupts: anything to its registers and to memory, except
  to the kernel stacks of the tasks that are waiting; in kernel mode it leaves room on its own
  kernel stack, and the GS base follows the privilege level.\<close>

definition runs :: "machine \<Rightarrow> machine \<Rightarrow> bool" where
  "runs m m' \<longleftrightarrow> kern m' = kern m
     \<and> (\<forall>t\<in>set (tasks (sched (kern m))). \<forall>a\<in>own_stack t. slots_of m' a = slots_of m a)
     \<and> (\<forall>c. current_task (sched (kern m)) = Some c \<longrightarrow> ctx_room c (context_of m'))
     \<and> gs_kernel m' = (\<not> is_user (cs m'))"

text \<open>The creation of a kernel or a user task, up to the mapping of its stack pages.\<close>

definition spawns :: "task \<Rightarrow> machine \<Rightarrow> machine \<Rightarrow> bool" where
  "spawns t m m' \<longleftrightarrow> stack_top_virt (task_id t) = Done (kernel_stack_top t)
     \<and> (\<exists>entry proc mem. (new_kernel_frame (kernel_stack_top t) entry (slots_of m) = (stack_ptr t, mem)
            \<or> new_user_frame (kernel_stack_top t) proc (slots_of m) = (stack_ptr t, mem))
          \<and> m' = m\<lparr>slots_of := mem, kern := kern m'\<rparr> \<and> sched_step (Add t) (kern m) (kern m'))"

inductive sys_step :: "machine \<Rightarrow> machine \<Rightarrow> bool" where
  sys_timer: "timer_interrupt locked m = Some m' \<Longrightarrow> sys_step m m'"
| sys_yield: "yield_interrupt locked m = Some m' \<Longrightarrow> sys_step m m'"
| sys_run: "runs m m' \<Longrightarrow> sys_step m m'"
| sys_spawn: "spawns t m m' \<Longrightarrow> sys_step m m'"
| sys_exit: "sys_step m (m\<lparr>kern := mark_zombie (kern m)\<rparr>)"

definition switch_inv :: "machine \<Rightarrow> bool" where
  "switch_inv m \<longleftrightarrow> sched_inv (kern m) \<and> (\<forall>t\<in>set (live (kern m)). stack_ok t)
     \<and> (\<forall>t\<in>set (tasks (sched (kern m))). saved_ok t \<and> ctx_room t (frame_at (slots_of m) (stack_ptr t)))
     \<and> (\<forall>c. current_task (sched (kern m)) = Some c \<longrightarrow> ctx_room c (context_of m))
     \<and> gs_kernel m = (\<not> is_user (cs m))"

lemma switch_inv_room:
  assumes "switch_inv m" "current_task (sched (kern m)) = Some c"
  shows "room c (save_base m)"
proof (cases "is_user (cs m)")
  case True
  have "stack_ok c" "tss_rsp0 (kern m) = kernel_stack_top c"
    using assms by (auto simp: switch_inv_def live_def sched_inv_def current_inv_def)
  with stack_ok_top[of c] True show ?thesis by (simp add: save_base_def room_def)
next
  case False
  with assms show ?thesis by (auto simp: switch_inv_def ctx_room_def save_base_def context_of_def)
qed

text \<open>An interrupt leaves the saved frames of the waiting tasks alone.\<close>

lemma save_keeps_frames:
  assumes "switch_inv m" "t \<in> set (tasks (sched (kern m)))"
  shows "frame_at (slots_of (save m)) (stack_ptr t) = frame_at (slots_of m) (stack_ptr t)"
proof (rule saved_frame_kept)
  show "saved_ok t" using assms by (simp add: switch_inv_def)
  obtain c where c: "current_task (sched (kern m)) = Some c"
    using inv_current[of "kern m"] assms(1) by (auto simp: switch_inv_def)
  have "task_id c \<noteq> task_id t" "stack_ok c" "stack_ok t"
    using assms c by (auto simp: switch_inv_def sched_inv_def queue_inv_def live_def)
  then have "own_stack t \<inter> own_stack c = {}" using own_stacks_disjoint[of t c] by simp
  moreover have "frame_slots (save_base m) \<subseteq> own_stack c"
    by (rule room_frame_slots[OF switch_inv_room[OF assms(1) c]])
  ultimately show "\<forall>a\<in>own_stack t. slots_of (save m) a = slots_of m a"
    using save_outside by blast
qed

text \<open>The preempted task's own frame is its context, in its own kernel stack.\<close>

lemma save_own_frame:
  assumes "switch_inv m" "current_task (sched (kern m)) = Some c"
  shows "frame_at (slots_of (save m)) (save_base m - 160) = context_of m"
    "saved_ok (c\<lparr>stack_ptr := save_base m - 160, task_state_of := s\<rparr>)"
proof -
  show "frame_at (slots_of (save m)) (save_base m - 160) = context_of m"
    using save_yield[of "save m" m, OF save_def] by simp
  have "room c (save_base m)" by (rule switch_inv_room[OF assms])
  moreover have "unat (save_base m - 160) = unat (save_base m) - 160"
    using unat_minus_small[of 160 "save_base m"] calculation by (simp add: room_def)
  ultimately show "saved_ok (c\<lparr>stack_ptr := save_base m - 160, task_state_of := s\<rparr>)"
    unfolding room_def saved_ok_def by (simp, linarith)
qed

lemma stack_attrs [simp]:
  "stack_ok (t\<lparr>stack_ptr := p\<rparr>) = stack_ok t" "stack_ok (t\<lparr>task_state_of := s\<rparr>) = stack_ok t"
  "ctx_room (t\<lparr>stack_ptr := p\<rparr>) x = ctx_room t x" "ctx_room (t\<lparr>task_state_of := s\<rparr>) x = ctx_room t x"
  "saved_ok (t\<lparr>task_state_of := s\<rparr>) = saved_ok t"
  by (simp_all add: stack_ok_def ctx_room_def room_def saved_ok_def)

lemma context_of_cs: "context_of m = x \<Longrightarrow> cs m = c_cs x"
  by (auto simp: context_of_def)

text \<open>What an interrupt does to the system, by cases: the running task goes on with the same context,
  or the next task in the queue gets its own.\<close>

lemma interrupt_effect:
  assumes "switch_inv m" "current_task (sched (kern m)) = Some c"
    "timer_interrupt locked m = Some m' \<or> yield_interrupt locked m = Some m'"
  shows "sched_step (Tick locked (save_base m - 160)) (kern m) (kern m')
    \<and> slots_of m' = slots_of (save m) \<and> gs_kernel m' = (\<not> is_user (cs m'))
    \<and> (if locked \<or> tasks (sched (kern m)) = []
       then context_of m' = context_of m
       else context_of m' = frame_at (slots_of m) (stack_ptr (hd (tasks (sched (kern m))))))"
proof -
  obtain p where p: "timer_tick locked (save_base m - 160) (kern m) = (Resume p, kern m')"
    "slots_of m' = slots_of (save m)" "context_of m' = frame_at (slots_of (save m)) p"
    "gs_kernel m' = ((gs_kernel m \<noteq> is_user (cs m)) \<noteq> is_user (cs m'))"
    by (rule interrupt_cases[OF assms(3)])
  have gs: "gs_kernel m' = (\<not> is_user (cs m'))" using p(4) assms(1) by (simp add: switch_inv_def)
  have st: "sched_step (Tick locked (save_base m - 160)) (kern m) (kern m')"
    using p(1) by (auto simp: sched_step_simps)
  note own = save_own_frame(1)[OF assms(1,2)]
  show ?thesis
  proof (cases "locked \<or> tasks (sched (kern m)) = []")
    case True
    have "p = save_base m - 160"
    proof (cases locked)
      case True
      with p(1) show ?thesis by (simp add: tick_locked)
    next
      case False
      with True have e: "tasks (sched (kern m)) = []" by simp
      have "task_state_of c \<noteq> Zombie" using tick_halts[OF assms(2) e, of "save_base m - 160"] p(1) False by auto
      with tick_stay[OF assms(2) e this, of "save_base m - 160" "Resume p" "kern m'"] p(1) False
      show ?thesis by simp
    qed
    with True p own gs st show ?thesis by simp
  next
    case False
    then obtain t ts where ts: "tasks (sched (kern m)) = t # ts" "\<not> locked"
      by (cases "tasks (sched (kern m))") auto
    with tick_switch[OF assms(2) ts(1), of "save_base m - 160" "Resume p" "kern m'"] p(1)
    have "p = stack_ptr t" by simp
    with ts p(2,3) gs st save_keeps_frames[OF assms(1), of t] show ?thesis by simp
  qed
qed

lemma interrupt_inv:
  assumes "switch_inv m" "timer_interrupt locked m = Some m' \<or> yield_interrupt locked m = Some m'"
  shows "switch_inv m'"
proof -
  obtain c where c: "current_task (sched (kern m)) = Some c"
    using inv_current[of "kern m"] assms(1) by (auto simp: switch_inv_def)
  note e = interrupt_effect[OF assms(1) c assms(2)]
  let ?sp = "save_base m - 160"
  obtain p where tick: "timer_tick locked ?sp (kern m) = (Resume p, kern m')"
    using e by (auto simp: sched_step_simps)
  have inv: "sched_inv (kern m')" using e step_inv assms(1) by (auto simp: switch_inv_def)
  have old: "stack_ok c" "ctx_room c (context_of m)"
    "\<And>t. t \<in> set (tasks (sched (kern m))) \<Longrightarrow> stack_ok t \<and> saved_ok t
       \<and> ctx_room t (frame_at (slots_of m) (stack_ptr t))
       \<and> frame_at (slots_of m') (stack_ptr t) = frame_at (slots_of m) (stack_ptr t)"
    using assms(1) c e save_keeps_frames[OF assms(1)] by (auto simp: switch_inv_def live_def)
  show ?thesis
  proof (cases "locked \<or> tasks (sched (kern m)) = []")
    case True
    have "tasks (sched (kern m')) = tasks (sched (kern m)) \<and> (\<exists>p. current_task (sched (kern m')) = Some (c\<lparr>stack_ptr := p\<rparr>))"
    proof (cases locked)
      case True
      with tick have "kern m' = (kern m)\<lparr>uptime_ticks := uptime_ticks (kern m) + 1\<rparr>"
        by (simp add: tick_locked)
      with c show ?thesis by (auto intro!: exI[of _ "stack_ptr c"])
    next
      case False
      with True have n: "tasks (sched (kern m)) = []" by simp
      have "task_state_of c \<noteq> Zombie" using tick_halts[OF c n, of ?sp] tick False by auto
      with tick_stay[OF c n this, of ?sp "Resume p" "kern m'"] tick False show ?thesis by auto
    qed
    with True e old inv show ?thesis by (auto simp: switch_inv_def live_def)
  next
    case False
    then obtain t ts where ts: "tasks (sched (kern m)) = t # ts" "\<not> locked"
      by (cases "tasks (sched (kern m))") auto
    with tick_switch[OF c ts(1), of ?sp "Resume p" "kern m'"] tick
    have k: "current_task (sched (kern m')) = Some (t\<lparr>task_state_of := Running\<rparr>)"
      "tasks (sched (kern m')) = ts @ preempted ?sp c" by auto
    have q: "stack_ok x \<and> saved_ok x \<and> ctx_room x (frame_at (slots_of m') (stack_ptr x))"
      if "x \<in> set (tasks (sched (kern m')))" for x
      using that k(2) old(3)[of x] old(1,2) ts(1) e save_own_frame(1)[OF assms(1) c]
        save_own_frame(2)[OF assms(1) c, of Ready]
      by (auto simp: preempted_def split: if_splits)
    have "stack_ok t" "ctx_room t (context_of m')" using old(3)[of t] e ts False by auto
    with q inv k(1) e show ?thesis by (auto simp: switch_inv_def live_def)
  qed
qed

lemma run_inv:
  assumes "switch_inv m" "runs m m'"
  shows "switch_inv m'"
proof -
  have "frame_at (slots_of m') (stack_ptr t) = frame_at (slots_of m) (stack_ptr t)"
    if "t \<in> set (tasks (sched (kern m)))" for t
    using that assms by (intro saved_frame_kept) (auto simp: switch_inv_def runs_def)
  with assms show ?thesis by (auto simp: switch_inv_def runs_def)
qed

lemma spawn_frame:
  assumes "spawns t m m'"
  shows "stack_ptr t = kernel_stack_top t - 160"
    "\<And>a. a \<notin> frame_slots (kernel_stack_top t) \<Longrightarrow> slots_of m' a = slots_of m a"
    "context_of m' = context_of m" "gs_kernel m' = gs_kernel m" "cs m' = cs m"
    "c_cs (frame_at (slots_of m') (stack_ptr t)) = 0x2b \<or>
     c_cs (frame_at (slots_of m') (stack_ptr t)) = 0x08 \<and>
       c_rsp (frame_at (slots_of m') (stack_ptr t)) = kernel_stack_top t"
proof -
  obtain entry proc mem k where s: "new_kernel_frame (kernel_stack_top t) entry (slots_of m) = (stack_ptr t, mem)
      \<or> new_user_frame (kernel_stack_top t) proc (slots_of m) = (stack_ptr t, mem)"
    "m' = m\<lparr>slots_of := mem, kern := k\<rparr>"
    using assms by (auto simp: spawns_def)
  obtain vss vsp vcs ent where w: "write_frame (kernel_stack_top t) vss vsp vcs ent (slots_of m) = (stack_ptr t, mem)"
    "vcs = 0x2b \<or> vcs = 0x08 \<and> vsp = kernel_stack_top t"
    using s(1) by (auto simp: new_kernel_frame_def new_user_frame_def)
  from write_frame_context[where stack_top = "kernel_stack_top t" and vss = vss and vsp = vsp and vcs = vcs
      and entry = ent and mem = "slots_of m"] w(1)
  have f: "stack_ptr t = kernel_stack_top t - 160" "c_cs (frame_at mem (stack_ptr t)) = vcs"
    "c_rsp (frame_at mem (stack_ptr t)) = vsp" by simp_all
  show "stack_ptr t = kernel_stack_top t - 160" by (rule f(1))
  show "slots_of m' a = slots_of m a" if "a \<notin> frame_slots (kernel_stack_top t)" for a
    using write_frame_outside[OF that, of vss vsp vcs ent "slots_of m"] w(1) s(2) by simp
  show "context_of m' = context_of m" "gs_kernel m' = gs_kernel m" "cs m' = cs m"
    using s(2) by (simp_all add: context_of_def)
  show "c_cs (frame_at (slots_of m') (stack_ptr t)) = 0x2b \<or>
     c_cs (frame_at (slots_of m') (stack_ptr t)) = 0x08 \<and>
       c_rsp (frame_at (slots_of m') (stack_ptr t)) = kernel_stack_top t"
    using s(2) f w(2) by simp
qed

lemma is_user_selectors [simp]: "is_user 0x2b" "\<not> is_user 0x08" "is_user 0x23" "\<not> is_user 0x10"
  by (simp_all add: is_user_def)

text \<open>The part of the invariant that concerns the waiting tasks; it also holds before the first task runs.\<close>

definition ready_inv :: "machine \<Rightarrow> bool" where
  "ready_inv m \<longleftrightarrow> queue_inv (kern m) \<and> (\<forall>t\<in>set (tasks (sched (kern m))).
     stack_ok t \<and> saved_ok t \<and> ctx_room t (frame_at (slots_of m) (stack_ptr t)))"

lemma switch_ready: "switch_inv m \<Longrightarrow> ready_inv m"
  by (auto simp: switch_inv_def ready_inv_def sched_inv_def live_def split: option.splits)

lemma spawn_ready:
  assumes "ready_inv m" "spawns t m m'"
  shows "ready_inv m'" "stack_ok t" "\<forall>x\<in>set (tasks (sched (kern m))).
    frame_at (slots_of m') (stack_ptr x) = frame_at (slots_of m) (stack_ptr x)"
proof -
  have add: "sched_step (Add t) (kern m) (kern m')" using assms(2) by (auto simp: spawns_def)
  have inv: "queue_inv (kern m')" using add_queue_inv[OF _ add] assms(1) by (simp add: ready_inv_def)
  note a = add_step[OF add] live_add[OF add] and f = spawn_frame[OF assms(2)]
  have id: "task_id t < usize_limit" using inv a by (auto simp: queue_inv_def)
  show ok: "stack_ok t" using assms(2) id by (simp add: spawns_def stack_ok_def)
  note top = stack_ok_top[OF ok]
  have room: "room t (kernel_stack_top t)" using top by (simp add: room_def)
  show fr: "\<forall>x\<in>set (tasks (sched (kern m))).
    frame_at (slots_of m') (stack_ptr x) = frame_at (slots_of m) (stack_ptr x)"
  proof (rule ballI, rule saved_frame_kept)
    fix x assume x: "x \<in> set (tasks (sched (kern m)))"
    show "saved_ok x" using x assms(1) by (simp add: ready_inv_def)
    have "task_id x \<noteq> task_id t" "stack_ok x"
      using x inv a assms(1) by (auto simp: queue_inv_def live_def ready_inv_def split: option.splits)
    then have "own_stack x \<inter> own_stack t = {}" using own_stacks_disjoint[of x t] ok by simp
    then show "\<forall>b\<in>own_stack x. slots_of m' b = slots_of m b"
      using f(2) room_frame_slots[OF room] by blast
  qed
  have "saved_ok t" using f(1) top unat_minus_small[of 160 "kernel_stack_top t"]
    by (simp add: saved_ok_def)
  moreover have "ctx_room t (frame_at (slots_of m') (stack_ptr t))"
  proof -
    have "kernel_stack_top t AND NOT 15 = kernel_stack_top t"
      by (rule aligned_16) (simp add: top)
    then show ?thesis using f(6) room by (auto simp: ctx_room_def)
  qed
  ultimately show "ready_inv m'" using assms(1) inv a fr ok unfolding ready_inv_def by auto
qed

lemma spawn_inv:
  assumes "switch_inv m" "spawns t m m'"
  shows "switch_inv m' \<and> (\<forall>x\<in>set (tasks (sched (kern m))).
    frame_at (slots_of m') (stack_ptr x) = frame_at (slots_of m) (stack_ptr x))"
proof -
  have add: "sched_step (Add t) (kern m) (kern m')" using assms(2) by (auto simp: spawns_def)
  have inv: "sched_inv (kern m')" using step_inv[OF _ add] assms(1) by (simp add: switch_inv_def)
  note r = spawn_ready[OF switch_ready[OF assms(1)] assms(2)] and f = spawn_frame[OF assms(2)]
  have "switch_inv m'" using assms(1) inv r f(3-5) add_step[OF add] live_add[OF add]
    unfolding switch_inv_def ready_inv_def by auto
  with r(3) show ?thesis by blast
qed

text \<open>The first dispatch starts the task at the head of the queue with the context built for it.\<close>

lemma first_dispatch_inv:
  assumes "ready_inv m" "current_task (sched (kern m)) = None" "gs_kernel m" "first_dispatch m = Done m'"
  shows "\<exists>t ts. tasks (sched (kern m)) = t # ts \<and> switch_inv m' \<and> context_of m' = frame_at (slots_of m) (stack_ptr t)
    \<and> current_task (sched (kern m')) = Some (t\<lparr>task_state_of := Running\<rparr>) \<and> tasks (sched (kern m')) = ts
    \<and> cr3 (kern m') = pml4_frame (proc_heap (kern m) (task_process t)) \<and> proc_heap (kern m') = proc_heap (kern m)"
proof (cases "tasks (sched (kern m))")
  case Nil
  with assms(4) show ?thesis by (simp add: first_dispatch_def start_scheduling_def pop_front_def)
next
  case (Cons t ts)
  obtain p k where st: "start_scheduling (kern m) = Done (p, k)"
    and m': "m' = iretq (swapgs_if_user (pop_regs (m\<lparr>kern := k, rsp := p\<rparr>)))"
    using assms(4) by (auto simp: first_dispatch_def run_bind_eq_Done)
  have k: "p = stack_ptr t" "current_task (sched k) = Some (t\<lparr>task_state_of := Running\<rparr>)" "tasks (sched k) = ts"
    "cr3 k = pml4_frame (proc_heap (kern m) (task_process t))" "proc_heap k = proc_heap (kern m)"
    using st Cons by (auto simp: start_scheduling_def pop_front_def Let_def split: if_splits)
  have ctx: "context_of m' = frame_at (slots_of m) p" "kern m' = k" "slots_of m' = slots_of m"
    "gs_kernel m' = (\<not> is_user (c_cs (frame_at (slots_of m) p)))"
    using restore_context[of p "m\<lparr>kern := k\<rparr>"] assms(3) by (simp_all add: m')
  have cs: "cs m' = c_cs (frame_at (slots_of m) p)" unfolding ctx(1)[symmetric] by (simp add: context_of_def)
  have "sched_inv k" using start_inv[OF _ assms(2) st] assms(1) by (simp add: ready_inv_def)
  then have "switch_inv m'" using assms(1) Cons k ctx cs unfolding switch_inv_def ready_inv_def live_def
    by (auto simp: stack_ok_def ctx_room_def room_def)
  then show ?thesis using Cons k ctx by auto
qed

lemma exit_inv:
  assumes "switch_inv m"
  shows "switch_inv (m\<lparr>kern := mark_zombie (kern m)\<rparr>)"
proof -
  obtain c where c: "current_task (sched (kern m)) = Some c"
    using inv_current[of "kern m"] assms by (auto simp: switch_inv_def)
  have "sched_inv (mark_zombie (kern m))"
    using assms step_inv[OF _ step_exit[OF refl]] by (simp add: switch_inv_def)
  with assms c show ?thesis
    by (auto simp: switch_inv_def mark_zombie_def live_def context_of_def)
qed

lemma sys_step_inv: "sys_step m m' \<Longrightarrow> switch_inv m \<Longrightarrow> switch_inv m'"
  by (induction rule: sys_step.induct) (auto intro: interrupt_inv run_inv exit_inv dest: spawn_inv)


section \<open>Suspended tasks\<close>

definition suspended :: "nat \<Rightarrow> cpu_context \<Rightarrow> machine \<Rightarrow> bool" where
  "suspended x c m \<longleftrightarrow> (\<exists>t\<in>set (tasks (sched (kern m))). task_id t = x
     \<and> frame_at (slots_of m) (stack_ptr t) = c)"

lemma interrupt_suspended:
  assumes "switch_inv m" "timer_interrupt l m = Some m' \<or> yield_interrupt l m = Some m'"
    "suspended x ctx m"
  shows "suspended x ctx m' \<or> get_current_task_id (kern m') = Some x \<and> context_of m' = ctx"
proof -
  obtain c where c: "current_task (sched (kern m)) = Some c"
    using inv_current[of "kern m"] assms(1) by (auto simp: switch_inv_def)
  note e = interrupt_effect[OF assms(1) c assms(2)]
  let ?sp = "save_base m - 160"
  obtain p where tick: "timer_tick l ?sp (kern m) = (Resume p, kern m')"
    using e by (auto simp: sched_step_simps)
  obtain t where t: "t \<in> set (tasks (sched (kern m)))" "task_id t = x"
    "frame_at (slots_of m) (stack_ptr t) = ctx" using assms(3) by (auto simp: suspended_def)
  have kept: "frame_at (slots_of m') (stack_ptr t) = ctx"
    using e save_keeps_frames[OF assms(1) t(1)] t(3) by simp
  show ?thesis
  proof (cases l)
    case True
    with tick have "kern m' = (kern m)\<lparr>uptime_ticks := uptime_ticks (kern m) + 1\<rparr>" by (simp add: tick_locked)
    with t kept show ?thesis by (auto simp: suspended_def)
  next
    case False
    from t(1) obtain t0 ts where ts: "tasks (sched (kern m)) = t0 # ts" by (cases "tasks (sched (kern m))") auto
    with tick_switch[OF c ts, of ?sp "Resume p" "kern m'"] tick False
    have k: "tasks (sched (kern m')) = ts @ preempted ?sp c" "get_current_task_id (kern m') = Some (task_id t0)"
      by (auto simp: get_current_task_id_def)
    show ?thesis
    proof (cases "t = t0")
      case True
      with k(2) e ts False t show ?thesis by simp
    next
      case False
      with t(1,2) ts k(1) kept show ?thesis by (auto simp: suspended_def)
    qed
  qed
qed

lemma suspended_step:
  assumes "sys_step m m'" "switch_inv m" "suspended x ctx m"
  shows "suspended x ctx m' \<or> get_current_task_id (kern m') = Some x \<and> context_of m' = ctx"
  using assms
proof (induction rule: sys_step.induct)
  case (sys_run m m')
  from sys_run(3) obtain t where t: "t \<in> set (tasks (sched (kern m)))" "task_id t = x"
    "frame_at (slots_of m) (stack_ptr t) = ctx" by (auto simp: suspended_def)
  have "frame_at (slots_of m') (stack_ptr t) = frame_at (slots_of m) (stack_ptr t)"
    using t(1) sys_run(1,2) by (intro saved_frame_kept) (auto simp: switch_inv_def runs_def)
  with t sys_run(1) show ?case by (auto simp: suspended_def runs_def)
next
  case (sys_spawn t m m')
  then have "tasks (sched (kern m')) = tasks (sched (kern m)) @ [t]"
    using add_step[of t "kern m" "kern m'"] by (auto simp: spawns_def)
  with sys_spawn spawn_inv[OF sys_spawn(2,1)] show ?case by (auto simp: suspended_def)
next
  case (sys_exit m)
  then show ?case by (auto simp: suspended_def mark_zombie_def split: option.splits)
qed (use interrupt_suspended in blast)+

lemma current_not_suspended:
  assumes "switch_inv m" "get_current_task_id (kern m) = Some x"
  shows "\<not> suspended x ctx m"
proof -
  obtain d where "current_task (sched (kern m)) = Some d" "task_id d = x" "sched_inv (kern m)"
    using assms by (auto simp: switch_inv_def sched_inv_def current_inv_def get_current_task_id_def
        split: option.splits)
  then have "x \<notin> task_id ` set (tasks (sched (kern m)))"
    by (auto simp: sched_inv_def queue_inv_def live_def)
  then show ?thesis by (auto simp: suspended_def)
qed

text \<open>The system runs from \<open>m\<close> to \<open>m'\<close> without task \<open>x\<close> ever being the current one.\<close>

inductive away :: "nat \<Rightarrow> machine \<Rightarrow> machine \<Rightarrow> bool" where
  away_refl: "get_current_task_id (kern m) \<noteq> Some x \<Longrightarrow> away x m m"
| away_step: "away x m m1 \<Longrightarrow> sys_step m1 m2 \<Longrightarrow> get_current_task_id (kern m2) \<noteq> Some x \<Longrightarrow> away x m m2"

lemma away_suspended:
  "away x m m' \<Longrightarrow> switch_inv m \<Longrightarrow> suspended x ctx m \<Longrightarrow> suspended x ctx m' \<and> switch_inv m'"
  by (induction rule: away.induct) (auto dest: suspended_step sys_step_inv)

lemma preemption_suspends:
  assumes "switch_inv m" "current_task (sched (kern m)) = Some c" "task_state_of c = Running"
    "tasks (sched (kern m)) \<noteq> []" "timer_interrupt False m = Some m' \<or> yield_interrupt False m = Some m'"
  shows "suspended (task_id c) (context_of m) m'"
proof -
  note e = interrupt_effect[OF assms(1,2,5)]
  obtain t ts where ts: "tasks (sched (kern m)) = t # ts" using assms(4) by (cases "tasks (sched (kern m))") auto
  obtain p where tick: "timer_tick False (save_base m - 160) (kern m) = (Resume p, kern m')"
    using e by (auto simp: sched_step_simps)
  from tick_switch[OF assms(2) ts tick] assms(3) e save_own_frame(1)[OF assms(1,2)] show ?thesis
    by (auto simp: suspended_def preempted_def)
qed



lemma unat_minus_chain: "room t b \<Longrightarrow> k \<le> 160 \<Longrightarrow> unat (b - of_nat k) = unat b - k"
  unfolding room_def by (intro unat_minus_small) linarith

text \<open>A fault taken in user mode writes only to the kernel stack of the faulting task.\<close>

lemma fault_keeps_frames:
  assumes "switch_inv m" "current_task (sched (kern m)) = Some c" "is_user (cs m)"
    "t \<in> set (tasks (sched (kern m)))"
  shows "frame_at (slots_of (save ((push e (deliver m))\<lparr>kern := k\<rparr>))) (stack_ptr t)
    = frame_at (slots_of m) (stack_ptr t)"
proof (rule saved_frame_kept)
  show "saved_ok t" using assms by (simp add: switch_inv_def)
  let ?d = "(push e (deliver m))\<lparr>kern := k\<rparr>" and ?top = "kernel_stack_top c"
  have ids: "task_id c \<noteq> task_id t" "stack_ok c" "stack_ok t" "tss_rsp0 (kern m) = ?top"
    using assms by (auto simp: switch_inv_def sched_inv_def queue_inv_def live_def current_inv_def)
  then have dis: "own_stack t \<inter> own_stack c = {}" using own_stacks_disjoint[of t c] by simp
  note top = stack_ok_top[OF ids(2)]
  have d: "save_base ?d = (?top - 48) AND NOT 15"
    using assms(3) ids(4) by (simp add: save_base_def push_def deliver_def Let_def)
  have "unat (?top - 48) = unat ?top - 48" using unat_minus_small[of 48 ?top] top by simp
  moreover from this have "(?top - 48) AND NOT 15 = ?top - 48" using top by (intro aligned_16) simp
  ultimately have r: "room c (save_base ?d)" "room c ?top" using top d by (simp_all add: room_def)
  have own: "?top - 8 \<in> own_stack c" "?top - 16 \<in> own_stack c" "?top - 24 \<in> own_stack c"
    "?top - 32 \<in> own_stack c" "?top - 40 \<in> own_stack c" "?top - 48 \<in> own_stack c"
    using top unat_minus_small[of 8 ?top] unat_minus_small[of 16 ?top] unat_minus_small[of 24 ?top]
      unat_minus_small[of 32 ?top] unat_minus_small[of 40 ?top] unat_minus_small[of 48 ?top]
    by (simp_all add: own_stack_def)
  show "\<forall>a\<in>own_stack t. slots_of (save ?d) a = slots_of m a"
  proof
    fix a assume a: "a \<in> own_stack t"
    then have "a \<notin> frame_slots (save_base ?d)" using room_frame_slots[OF r(1)] dis by blast
    then have "slots_of (save ?d) a = slots_of ?d a" by (rule save_outside)
    also have "\<dots> = slots_of m a" using a own dis assms(3) ids(4)
      by (auto simp: deliver_def push_def Let_def)
    finally show "slots_of (save ?d) a = slots_of m a" .
  qed
qed


section \<open>Properties\<close>

text \<open>C12: A preempted task resumes exactly where it was.  A running task is interrupted by the timer or
  yields while others are ready; then anything may happen while it is not current: other tasks
  run, are interrupted, exit, and new ones are created.  The moment the task is current again, all
  its general registers, its instruction pointer, flags, code and stack segments and stack pointer
  are what they were, and the GS base matches its privilege level.\<close>

theorem preempted_task_resumes:
  assumes "switch_inv m0" and "current_task (sched (kern m0)) = Some c" and "task_state_of c = Running"
    and "tasks (sched (kern m0)) \<noteq> []"
    and "timer_interrupt False m0 = Some m1 \<or> yield_interrupt False m0 = Some m1"
    and "away (task_id c) m1 m2" and "sys_step m2 m3"
    and "get_current_task_id (kern m3) = Some (task_id c)"
  shows "context_of m3 = context_of m0 \<and> gs_kernel m3 = gs_kernel m0"
proof -
  have "suspended (task_id c) (context_of m0) m1" by (rule preemption_suspends[OF assms(1-5)])
  moreover have "switch_inv m1" using interrupt_inv[OF assms(1,5)] .
  ultimately have 2: "suspended (task_id c) (context_of m0) m2" "switch_inv m2"
    using away_suspended[OF assms(6)] by blast+
  have inv3: "switch_inv m3" by (rule sys_step_inv[OF assms(7) 2(2)])
  have "\<not> suspended (task_id c) (context_of m0) m3"
    by (rule current_not_suspended[OF inv3 assms(8)])
  with suspended_step[OF assms(7) 2(2,1)] have e: "context_of m3 = context_of m0" by blast
  then have "cs m3 = cs m0" by (simp add: context_of_def)
  with e inv3 assms(1) show ?thesis by (simp add: switch_inv_def)
qed

text \<open>Two user tasks on their kernel stacks.\<close>

definition demo_stack_task :: "nat \<Rightarrow> task_state \<Rightarrow> task" where
  "demo_stack_task n s = \<lparr>task_id = n, stack_ptr = 0xFFFFFE0000008F60 + of_nat n * 0xA000,
     kernel_stack_top = 0xFFFFFE0000009000 + of_nat n * 0xA000, task_process = n, task_state_of = s\<rparr>"

definition demo_machine :: machine where
  "demo_machine = \<lparr>gprs = \<lparr>rax = 1, rbx = 2, rcx = 3, rdx = 4, rbp = 5, rsi = 6, rdi = 7, r8 = 8, r9 = 9,
       r10 = 10, r11 = 11, r12 = 12, r13 = 13, r14 = 14, r15 = 15\<rparr>,
     rip = 0x400000, cs = 0x2b, rflags = 0x202, rsp = 0x700000007000, ss = 0x23, gs_kernel = False,
     slots_of = (\<lambda>_. 0x2b),
     kern = \<lparr>sched = \<lparr>tasks = [demo_stack_task 2 Ready], current_task = Some (demo_stack_task 1 Running),
         task_count = 2, current_task_id = Some 1\<rparr>,
       uptime_ticks = 0, cr3 = 0, tss_rsp0 = 0xFFFFFE0000013000, per_cpu_stack = 0xFFFFFE0000013000,
       proc_heap = (\<lambda>i. \<lparr>proc_id = i, pml4_frame = 0, entry_point = 0, proc_stack_top = 0, threads = []\<rparr>),
       next_task_id = 3\<rparr>,
     user_rsp_temp = 0, serial_out = [], lapic_writes = []\<rparr>"

lemma demo_machine_inv: "switch_inv demo_machine"
proof -
  have "stack_ok (demo_stack_task 1 s)" "stack_ok (demo_stack_task 2 s)" for s
    by (simp_all add: stack_ok_def demo_stack_task_def stack_top_virt_def mul_or_panic_def add_or_panic_def
        STACK_STRIDE_def STACK_SIZE_def KERNEL_STACK_REGION_BASE_def)
  then show ?thesis
    by (simp add: switch_inv_def demo_machine_def sched_inv_def queue_inv_def current_inv_def live_def
        saved_ok_def ctx_room_def frame_at_def context_of_def) (simp add: demo_stack_task_def)
qed

lemma yield_returns:
  assumes "switch_inv m" "tasks (sched (kern m)) \<noteq> []"
  shows "\<exists>m'. yield_interrupt False m = Some m'"
proof -
  obtain c where c: "current_task (sched (kern m)) = Some c"
    using inv_current[of "kern m"] assms(1) by (auto simp: switch_inv_def)
  obtain t ts where ts: "tasks (sched (kern m)) = t # ts" using assms(2) by (cases "tasks (sched (kern m))") auto
  obtain r k where k: "timer_tick False (rsp (save m)) (kern (save m)) = (r, k)" by fastforce
  have "kern (save m) = kern m" using save_yield[of "save m" m, OF save_def] by simp
  with tick_switch[OF c ts] k have "r = Resume (stack_ptr t)" by simp
  with k show ?thesis
    by (simp add: yield_interrupt_def yield_interrupt_entry_def save_def[symmetric] Let_def resume_def)
qed

theorem preempted_task_resumes_witness:
  "\<exists>m1 m3. yield_interrupt False demo_machine = Some m1 \<and> yield_interrupt False m1 = Some m3
     \<and> get_current_task_id (kern m1) = Some 2 \<and> context_of m3 = context_of demo_machine"
proof -
  let ?m = demo_machine
  have c: "current_task (sched (kern ?m)) = Some (demo_stack_task 1 Running)"
    "tasks (sched (kern ?m)) = [demo_stack_task 2 Ready]" by (simp_all add: demo_machine_def)
  obtain m1 where m1: "yield_interrupt False ?m = Some m1" using yield_returns[OF demo_machine_inv] c by auto
  have i1: "switch_inv m1" using interrupt_inv[OF demo_machine_inv] m1 by blast
  have "sched_step (Tick False (save_base ?m - 160)) (kern ?m) (kern m1)"
    using interrupt_effect[OF demo_machine_inv c(1)] m1 by blast
  with tick_switch[OF c] have k1: "get_current_task_id (kern m1) = Some 2"
    "current_task (sched (kern m1)) = Some ((demo_stack_task 2 Ready)\<lparr>task_state_of := Running\<rparr>)"
    "tasks (sched (kern m1)) = preempted (save_base ?m - 160) (demo_stack_task 1 Running)"
    by (auto simp: sched_step_simps get_current_task_id_def demo_stack_task_def)
  then have n1: "tasks (sched (kern m1)) \<noteq> []" "task_id (hd (tasks (sched (kern m1)))) = 1"
    by (simp_all add: preempted_def demo_stack_task_def)
  obtain m3 where m3: "yield_interrupt False m1 = Some m3" using yield_returns[OF i1 n1(1)] by auto
  obtain t ts where ts: "tasks (sched (kern m1)) = t # ts" using n1(1) by (cases "tasks (sched (kern m1))") auto
  have "sched_step (Tick False (save_base m1 - 160)) (kern m1) (kern m3)"
    using interrupt_effect[OF i1 k1(2)] m3 by blast
  with tick_switch[OF k1(2) ts] n1(2) ts have k3: "get_current_task_id (kern m3) = Some 1"
    by (auto simp: sched_step_simps get_current_task_id_def)
  have "away 1 m1 m1" using k1(1) by (intro away_refl) simp
  with preempted_task_resumes[OF demo_machine_inv c(1) _ _ _ _ sys_yield[OF m3], of m1] m1 k1(1) k3 c m3
  show ?thesis by (auto simp: demo_stack_task_def)
qed



text \<open>C19: A fault in user mode breaks the GS base of the next user task.  The page-fault and protection
  handlers do not execute \<open>swapgs\<close> on entry, and the yield that ends the faulting task sees kernel
  mode: when the next ready task was in user mode, it resumes in user mode with the kernel's GS base,
  and the first system call it makes then swaps to the user's, so that the entry code has no access
  to the per-CPU area.\<close>

theorem user_fault_breaks_next_syscall:
  assumes "switch_inv m" and "cs m AND 3 = 3" and "tasks (sched (kern m)) = t # ts"
    and "is_user (c_cs (frame_at (slots_of m) (stack_ptr t)))"
  shows "\<exists>m'. fault_handler error_code m = Done (Some m') \<and> get_current_task_id (kern m') = Some (task_id t)
    \<and> context_of m' = frame_at (slots_of m) (stack_ptr t) \<and> gs_kernel m'
    \<and> syscall_entry dispatch (syscall_instruction m') = None"
proof -
  obtain c where c: "current_task (sched (kern m)) = Some c"
    using inv_current[of "kern m"] assms(1) by (auto simp: switch_inv_def)
  have u: "is_user (cs m)" using assms(2) by (simp add: is_user_def)
  define d where "d = (push error_code (deliver m))\<lparr>kern := mark_zombie (kern m)\<rparr>"
  have dk: "kern d = mark_zombie (kern m)" "cs d = 0x08" "gs_kernel d = gs_kernel m"
    "rsp d = kernel_stack_top c - 48" "\<not> gs_kernel m"
    using u assms(1) c by (auto simp: d_def deliver_def push_def Let_def switch_inv_def sched_inv_def current_inv_def)
  have z: "current_task (sched (kern d)) = Some (c\<lparr>task_state_of := Zombie\<rparr>)" "tasks (sched (kern d)) = t # ts"
    using c assms(3) by (simp_all add: dk mark_zombie_def)
  obtain r k where k: "timer_tick False (rsp (save d)) (kern (save d)) = (r, k)" by fastforce
  have sk: "kern (save d) = kern d" using save_yield[of "save d" d, OF save_def] by simp
  note ts = tick_switch[OF z] 
  have r: "r = Resume (stack_ptr t)" "current_task_id (sched k) = Some (task_id t)"
    using ts[OF k[unfolded sk]] by auto
  define m' where "m' = iretq (swapgs_if_user (pop_regs ((save d)\<lparr>kern := k, rsp := stack_ptr t\<rparr>)))"
  have y: "yield_interrupt False d = Some m'"
    using k r by (simp add: yield_interrupt_def yield_interrupt_entry_def save_def[symmetric] Let_def resume_def m'_def)
  have fh: "fault_handler error_code m = Done (Some m')"
    using y assms(2) by (simp add: fault_handler_def Let_def d_def deliver_def push_def)
  have frame: "frame_at (slots_of (save d)) (stack_ptr t) = frame_at (slots_of m) (stack_ptr t)"
    unfolding d_def by (rule fault_keeps_frames[OF assms(1) c u]) (simp add: assms(3))
  have x: "context_of m' = frame_at (slots_of (save d)) (stack_ptr t)" "kern m' = k"
    "gs_kernel m' = (gs_kernel (save d) \<noteq> is_user (c_cs (frame_at (slots_of (save d)) (stack_ptr t))))"
    using restore_context[where m = "(save d)\<lparr>kern := k\<rparr>" and p = "stack_ptr t"] by (simp_all add: m'_def)
  have "gs_kernel (save d) = gs_kernel d" using save_yield(4)[of "save d" d, OF save_def] dk by simp
  with x frame assms(4) dk have g: "gs_kernel m'" by simp
  have "syscall_entry dispatch (syscall_instruction m') = None"
    using g by (simp add: syscall_entry_def syscall_instruction_def swapgs_def)
  with fh x frame r g show ?thesis by (auto simp: get_current_task_id_def)
qed

theorem user_fault_breaks_next_syscall_witness:
  "\<exists>m'. fault_handler 4 demo_machine = Done (Some m') \<and> cs m' = 0x2b \<and> gs_kernel m'
     \<and> syscall_entry (\<lambda>p d. Some (0, d)) (syscall_instruction m') = None"
  using user_fault_breaks_next_syscall[OF demo_machine_inv, of "demo_stack_task 2 Ready" "[]" 4 "\<lambda>p d. Some (0, d)"]
  by (auto simp: demo_machine_def context_of_def frame_at_def)

end
