(* ===== verification/Loader_Elf.thy ===== *)
theory Loader_Elf
  imports Elf
begin

text \<open>
  The boot loader's ELF loader (\<^verbatim>\<open>boot/uefi-loader/src/elf.rs\<close>).  The firmware's page allocator is the
  parameter \<open>allocate_pages\<close>; the image is a byte string and physical memory an address space the
  loader clears and copies into.
\<close>


section \<open>Definitions\<close>

definition ELF_VERSION_CURRENT :: u8 where "ELF_VERSION_CURRENT = 1"

record loaded_kernel =
  lk_entry_point :: u64
  lk_virtual_base :: u64
  lk_physical_base :: u64
  lk_image_size :: u64

datatype load_error =
    LFileTooSmall | LBadMagic | LUnsupportedClass u8 | LUnsupportedEndian u8 | LUnsupportedVersion u8
  | LUnsupportedType u16 | LUnsupportedMachine u16 | LInvalidProgramHeaderSize u16
  | LProgramHeaderOutOfBounds | SegmentOutOfBounds | SegmentAlignment u64 | SegmentAddressOverflow
  | NoLoadSegments | AllocationFailed u64

record ld_elf_header =
  le_entry_point :: u64
  le_program_header_offset :: nat
  le_program_header_entry_size :: nat
  le_program_header_count :: nat

record ld_program_header =
  lp_file_offset :: nat
  lp_virtual_address :: u64
  lp_physical_address :: u64
  lp_file_size :: nat
  lp_memory_size :: nat

text \<open>\<open>bytes.get(offset..end)\<close>\<close>

definition get_range :: "nat \<Rightarrow> nat \<Rightarrow> 'a list \<Rightarrow> 'a list option" where
  "get_range i j xs = (if i \<le> j \<and> j \<le> length xs then Some (sub_slice i j xs) else None)"

definition ld_read_u16 :: "u8 list \<Rightarrow> nat \<Rightarrow> load_error + u16" where
  "ld_read_u16 bytes offset =
     attempt (ok_or (usize_checked_add offset 2) LProgramHeaderOutOfBounds) (\<lambda>end.
     attempt (ok_or (get_range offset end bytes) LProgramHeaderOutOfBounds) (\<lambda>slice.
     Inr (le_u16 slice)))"

definition ld_read_u32 :: "u8 list \<Rightarrow> nat \<Rightarrow> load_error + u32" where
  "ld_read_u32 bytes offset =
     attempt (ok_or (usize_checked_add offset 4) LProgramHeaderOutOfBounds) (\<lambda>end.
     attempt (ok_or (get_range offset end bytes) LProgramHeaderOutOfBounds) (\<lambda>slice.
     Inr (le_u32 slice)))"

definition ld_read_u64 :: "u8 list \<Rightarrow> nat \<Rightarrow> load_error + u64" where
  "ld_read_u64 bytes offset =
     attempt (ok_or (usize_checked_add offset 8) LProgramHeaderOutOfBounds) (\<lambda>end.
     attempt (ok_or (get_range offset end bytes) LProgramHeaderOutOfBounds) (\<lambda>slice.
     Inr (le_u64 slice)))"

definition ld_parse_header :: "u8 list \<Rightarrow> (load_error + ld_elf_header) run" where
  "ld_parse_header img =
     (if length img < 64 then Done (Inl LFileTooSmall) else
      run_bind (slice_or_panic 0 4 img) (\<lambda>magic.
      if magic \<noteq> ELF_MAGIC then Done (Inl LBadMagic) else
      run_bind (index_or_panic 4 img) (\<lambda>c.
      if c \<noteq> ELF_CLASS_64 then Done (Inl (LUnsupportedClass c)) else
      run_bind (index_or_panic 5 img) (\<lambda>d.
      if d \<noteq> ELF_DATA_LITTLE_ENDIAN then Done (Inl (LUnsupportedEndian d)) else
      run_bind (index_or_panic 6 img) (\<lambda>v.
      if v \<noteq> ELF_VERSION_CURRENT then Done (Inl (LUnsupportedVersion v)) else
      Done (attempt (ld_read_u16 img 16) (\<lambda>elf_type.
        if elf_type \<noteq> ELF_TYPE_EXEC \<and> elf_type \<noteq> ELF_TYPE_DYN then Inl (LUnsupportedType elf_type) else
        attempt (ld_read_u16 img 18) (\<lambda>machine.
        if machine \<noteq> ELF_MACHINE_X86_64 then Inl (LUnsupportedMachine machine) else
        attempt (ld_read_u16 img 54) (\<lambda>entry_size.
        if unat entry_size < 56 then Inl (LInvalidProgramHeaderSize entry_size) else
        attempt (ld_read_u64 img 24) (\<lambda>entry.
        attempt (ld_read_u64 img 32) (\<lambda>ph_off.
        attempt (ld_read_u16 img 56) (\<lambda>cnt.
        Inr \<lparr>le_entry_point = entry, le_program_header_offset = unat ph_off,
             le_program_header_entry_size = unat entry_size, le_program_header_count = unat cnt\<rparr>))))))))))))"

definition ld_parse_program_header ::
  "u8 list \<Rightarrow> ld_elf_header \<Rightarrow> nat \<Rightarrow> (load_error + ld_program_header option) run" where
  "ld_parse_program_header img header index =
     attempt_run (Done (ok_or (usize_checked_mul index (le_program_header_entry_size header)) LProgramHeaderOutOfBounds)) (\<lambda>skip.
     attempt_run (Done (ok_or (usize_checked_add (le_program_header_offset header) skip) LProgramHeaderOutOfBounds)) (\<lambda>start.
     attempt_run (Done (ok_or (usize_checked_add start (le_program_header_entry_size header)) LProgramHeaderOutOfBounds)) (\<lambda>end.
     if length img < end then Done (Inl LProgramHeaderOutOfBounds) else
     run_bind (slice_or_panic start end img) (\<lambda>ph.
     Done (attempt (ld_read_u32 ph 0) (\<lambda>p_type.
       if p_type \<noteq> PROGRAM_HEADER_LOAD then Inr None else
       attempt (ld_read_u64 ph 16) (\<lambda>virtual_address.
       attempt (ld_read_u64 ph 24) (\<lambda>physical_address.
       if virtual_address AND 0xFFF \<noteq> 0 then Inl (SegmentAlignment virtual_address) else
       attempt (ld_read_u64 ph 32) (\<lambda>file_size.
       attempt (ld_read_u64 ph 40) (\<lambda>memory_size.
       if unat memory_size < unat file_size then Inl SegmentOutOfBounds else
       attempt (ld_read_u64 ph 8) (\<lambda>file_offset.
       Inr (Some \<lparr>lp_file_offset = unat file_offset, lp_virtual_address = virtual_address,
         lp_physical_address = physical_address, lp_file_size = unat file_size,
         lp_memory_size = unat memory_size\<rparr>))))))))))))"

text \<open>The first loop of \<open>load_kernel\<close>: how many segments, and the addresses they span.\<close>

fun ld_measure :: "u8 list \<Rightarrow> ld_elf_header \<Rightarrow> nat list \<Rightarrow> nat \<Rightarrow> u64 \<Rightarrow> u64 \<Rightarrow> (load_error + nat \<times> u64 \<times> u64) run" where
  "ld_measure img header [] loadable base top_end = Done (Inr (loadable, base, top_end))"
| "ld_measure img header (i # is) loadable base top_end =
     attempt_run (ld_parse_program_header img header i) (\<lambda>ph. case ph of
         None \<Rightarrow> ld_measure img header is loadable base top_end
       | Some ph \<Rightarrow>
           run_bind (usize_add loadable 1) (\<lambda>loadable.
           let base = min base (lp_virtual_address ph) in
           attempt_run (Done (ok_or (checked_add (lp_virtual_address ph) (of_nat (lp_memory_size ph))) SegmentAddressOverflow))
             (\<lambda>segment_end. ld_measure img header is loadable base (max top_end segment_end))))"

text \<open>The second loop: copy the file part of each segment.  Memory already written stays written
  when a later segment is refused.\<close>

fun ld_copy :: "u8 list \<Rightarrow> ld_elf_header \<Rightarrow> u64 \<Rightarrow> u64 \<Rightarrow> nat list \<Rightarrow> memory \<Rightarrow> ((load_error + unit) \<times> memory) run" where
  "ld_copy img header base phys [] mem = Done (Inr (), mem)"
| "ld_copy img header base phys (i # is) mem =
     run_bind (ld_parse_program_header img header i) (\<lambda>r. case r of
         Inl e \<Rightarrow> Done (Inl e, mem)
       | Inr None \<Rightarrow> ld_copy img header base phys is mem
       | Inr (Some ph) \<Rightarrow> (case usize_checked_add (lp_file_offset ph) (lp_file_size ph) of
             None \<Rightarrow> Done (Inl SegmentOutOfBounds, mem)
           | Some source_end \<Rightarrow>
               if length img < source_end then Done (Inl SegmentOutOfBounds, mem) else
               run_bind (sub_or_panic (lp_virtual_address ph) base) (\<lambda>offset.
               run_bind (add_or_panic phys offset) (\<lambda>dest.
               ld_copy img header base phys is
                 (write_mem dest (sub_slice (lp_file_offset ph) source_end img) mem)))))"

definition div_ceil_4096 :: "u64 \<Rightarrow> nat" where
  "div_ceil_4096 n = (unat n + 4095) div 4096"

definition load_kernel ::
  "(nat \<Rightarrow> u64 + u64) \<Rightarrow> u8 list \<Rightarrow> memory \<Rightarrow> ((load_error + loaded_kernel) \<times> memory) run" where
  "load_kernel allocate_pages img mem =
     run_bind (ld_parse_header img) (\<lambda>r. case r of Inl e \<Rightarrow> Done (Inl e, mem) | Inr header \<Rightarrow>
     run_bind (ld_measure img header [0..<le_program_header_count header] 0 (- 1) 0)
      (\<lambda>r. case r of Inl e \<Rightarrow> Done (Inl e, mem) | Inr (loadable, base, top_end) \<Rightarrow>
     if loadable = 0 then Done (Inl NoLoadSegments, mem)
     else if base AND 0xFFF \<noteq> 0 then Done (Inl (SegmentAlignment base), mem)
     else case checked_sub top_end base of None \<Rightarrow> Done (Inl SegmentAddressOverflow, mem) | Some image_size \<Rightarrow>
     let page_count = div_ceil_4096 image_size in
     case allocate_pages page_count of Inl st \<Rightarrow> Done (Inl (AllocationFailed st), mem) | Inr phys \<Rightarrow>
     run_bind (usize_mul page_count 4096) (\<lambda>n.
     let mem = write_mem phys (replicate n 0) mem in
     run_bind (ld_copy img header base phys [0..<le_program_header_count header] mem)
      (\<lambda>(r, mem). Done (case r of Inl e \<Rightarrow> Inl e
        | Inr _ \<Rightarrow> Inr \<lparr>lk_entry_point = le_entry_point header, lk_virtual_base = base,
            lk_physical_base = phys, lk_image_size = image_size\<rparr>, mem)))))"


section \<open>Parsing\<close>

lemma ld_read_eq:
  assumes "length bytes < usize_limit"
  shows "offset + 2 \<le> length bytes \<Longrightarrow> ld_read_u16 bytes offset = Inr (le_u16 (sub_slice offset (offset + 2) bytes))"
    "offset + 4 \<le> length bytes \<Longrightarrow> ld_read_u32 bytes offset = Inr (le_u32 (sub_slice offset (offset + 4) bytes))"
    "offset + 8 \<le> length bytes \<Longrightarrow> ld_read_u64 bytes offset = Inr (le_u64 (sub_slice offset (offset + 8) bytes))"
  using assms
  by (simp_all add: ld_read_u16_def ld_read_u32_def ld_read_u64_def usize_checked_add_def get_range_def)

lemma ld_parse_header_eq:
  assumes "length img < usize_limit"
  shows "ld_parse_header img = Done
    (if length img < 64 then Inl LFileTooSmall
     else if sub_slice 0 4 img \<noteq> ELF_MAGIC then Inl LBadMagic
     else if img ! 4 \<noteq> ELF_CLASS_64 then Inl (LUnsupportedClass (img ! 4))
     else if img ! 5 \<noteq> ELF_DATA_LITTLE_ENDIAN then Inl (LUnsupportedEndian (img ! 5))
     else if img ! 6 \<noteq> ELF_VERSION_CURRENT then Inl (LUnsupportedVersion (img ! 6))
     else if le_u16 (sub_slice 16 18 img) \<notin> {ELF_TYPE_EXEC, ELF_TYPE_DYN}
       then Inl (LUnsupportedType (le_u16 (sub_slice 16 18 img)))
     else if le_u16 (sub_slice 18 20 img) \<noteq> ELF_MACHINE_X86_64
       then Inl (LUnsupportedMachine (le_u16 (sub_slice 18 20 img)))
     else if unat (le_u16 (sub_slice 54 56 img)) < 56
       then Inl (LInvalidProgramHeaderSize (le_u16 (sub_slice 54 56 img)))
     else Inr \<lparr>le_entry_point = le_u64 (sub_slice 24 32 img),
       le_program_header_offset = unat (le_u64 (sub_slice 32 40 img)),
       le_program_header_entry_size = unat (le_u16 (sub_slice 54 56 img)),
       le_program_header_count = unat (le_u16 (sub_slice 56 58 img))\<rparr>)"
  using assms
  by (cases "64 \<le> length img")
     (simp_all add: ld_parse_header_def slice_or_panic_def index_or_panic_def ld_read_eq)

text \<open>The fields of the program header at \<open>start\<close>.\<close>

definition ld_ph_at :: "u8 list \<Rightarrow> nat \<Rightarrow> ld_program_header" where
  "ld_ph_at img start = (let at = (\<lambda>k. le_u64 (sub_slice (start + k) (start + k + 8) img)) in
     \<lparr>lp_file_offset = unat (at 8), lp_virtual_address = at 16, lp_physical_address = at 24,
      lp_file_size = unat (at 32), lp_memory_size = unat (at 40)\<rparr>)"

definition ld_ph_start :: "ld_elf_header \<Rightarrow> nat \<Rightarrow> nat" where
  "ld_ph_start h i = le_program_header_offset h + i * le_program_header_entry_size h"

lemma ld_parse_program_header_eq:
  assumes "length img < usize_limit" "56 \<le> le_program_header_entry_size h"
  shows "ld_parse_program_header img h i = Done (let start = ld_ph_start h i; ph = ld_ph_at img start in
    if length img < start + le_program_header_entry_size h then Inl LProgramHeaderOutOfBounds
    else if le_u32 (sub_slice start (start + 4) img) \<noteq> PROGRAM_HEADER_LOAD then Inr None
    else if lp_virtual_address ph AND 0xFFF \<noteq> 0 then Inl (SegmentAlignment (lp_virtual_address ph))
    else if lp_memory_size ph < lp_file_size ph then Inl SegmentOutOfBounds
    else Inr (Some ph))"
proof (cases "ld_ph_start h i + le_program_header_entry_size h \<le> length img")
  case True
  define start where "start = ld_ph_start h i"
  define esz where "esz = le_program_header_entry_size h"
  define ph where "ph = sub_slice start (start + esz) img"
  have m: "usize_checked_mul i esz = Some (i * esz)"
    "usize_checked_add (le_program_header_offset h) (i * esz) = Some start"
    "usize_checked_add start esz = Some (start + esz)"
    using True assms(1) by (auto simp: usize_checked_Some start_def esz_def ld_ph_start_def)
  have l: "length ph = esz" "esz < usize_limit" using True assms(1) by (auto simp: ph_def esz_def start_def)
  have s: "sub_slice k (k + n) ph = sub_slice (start + k) (start + k + n) img" if "k + n \<le> 56" for k n
    using that assms(2) by (simp add: ph_def esz_def sub_slice_sub_slice add.assoc)
  have r: "ld_read_u32 ph 0 = Inr (le_u32 (sub_slice start (start + 4) img))"
    "k \<le> 48 \<Longrightarrow> ld_read_u64 ph k = Inr (le_u64 (sub_slice (start + k) (start + k + 8) img))" for k
    using l assms(2) s[of 0 4] s[of k 8] by (simp_all add: ld_read_eq esz_def)
  have "slice_or_panic start (start + esz) img = Done ph"
    using True by (simp add: slice_or_panic_def ph_def start_def esz_def)
  with True m r show ?thesis
    by (simp add: ld_parse_program_header_def start_def[symmetric] esz_def[symmetric] Let_def ld_ph_at_def)
next
  case False
  then show ?thesis
    by (auto simp: ld_parse_program_header_def ok_or_def usize_checked_Some ld_ph_start_def Let_def
        split: option.splits)
qed

lemma ld_header_entry_size:
  "length img < usize_limit \<Longrightarrow> ld_parse_header img = Done (Inr h) \<Longrightarrow> 56 \<le> le_program_header_entry_size h"
  by (auto simp: ld_parse_header_eq split: if_splits)


section \<open>Loading\<close>

text \<open>The loadable segments of an image, in the order of its program headers.\<close>

definition ld_segment :: "u8 list \<Rightarrow> ld_elf_header \<Rightarrow> nat \<Rightarrow> ld_program_header option" where
  "ld_segment img h i = (case ld_parse_program_header img h i of Done (Inr ph) \<Rightarrow> ph | _ \<Rightarrow> None)"

definition ld_segments :: "u8 list \<Rightarrow> ld_elf_header \<Rightarrow> nat list \<Rightarrow> ld_program_header list" where
  "ld_segments img h is = List.map_filter (ld_segment img h) is"

lemma ld_segments_simps [simp]:
  "ld_segments img h [] = []"
  "ld_segments img h (i # is) = (case ld_segment img h i of None \<Rightarrow> [] | Some ph \<Rightarrow> [ph]) @ ld_segments img h is"
  by (simp_all add: ld_segments_def map_filter_simps split: option.splits)

lemma ld_segment_sizes:
  assumes "length img < usize_limit" "56 \<le> le_program_header_entry_size h" "ld_segment img h i = Some ph"
  shows "lp_file_size ph \<le> lp_memory_size ph \<and> lp_memory_size ph < usize_limit"
proof -
  let ?ph = "ld_ph_at img (ld_ph_start h i)"
  have "ph = ?ph" "\<not> lp_memory_size ?ph < lp_file_size ?ph"
    using assms(3) unfolding ld_segment_def ld_parse_program_header_eq[OF assms(1,2)] Let_def
    by (auto split: if_splits)
  then show ?thesis by (simp add: ld_ph_at_def Let_def)
qed

lemma ld_measure_spec:
  assumes "length img < usize_limit" "56 \<le> le_program_header_entry_size h" "n + length is < usize_limit"
  shows "\<exists>r. ld_measure img h is n b e = Done r \<and> (\<forall>n' b' e'. r = Inr (n', b', e') \<longrightarrow>
      n' = n + length (ld_segments img h is) \<and> b' \<le> b \<and> e \<le> e'
      \<and> (\<forall>ph\<in>set (ld_segments img h is). b' \<le> lp_virtual_address ph
           \<and> unat (lp_virtual_address ph) + lp_memory_size ph \<le> unat e'))"
  using assms
proof (induction "is" arbitrary: n b e)
  case (Cons i "is")
  obtain r where r: "ld_parse_program_header img h i = Done r"
    using ld_parse_program_header_eq[OF assms(1,2), of i] by blast
  consider err where "r = Inl err" | "r = Inr None" | ph where "r = Inr (Some ph)"
    by (cases r; cases "case r of Inr x \<Rightarrow> x") auto
  then show ?case
  proof cases
    case 2
    with r Cons.IH[of n b e] Cons.prems show ?thesis by (simp add: ld_segment_def)
  next
    case (3 ph)
    let ?stop = "lp_virtual_address ph + of_nat (lp_memory_size ph)"
    have seg: "ld_segment img h i = Some ph" using 3 r by (simp add: ld_segment_def)
    have sz: "lp_memory_size ph < usize_limit" using ld_segment_sizes[OF assms(1,2) seg] by simp
    have n: "usize_add n 1 = Done (n + 1)" using Cons.prems by (simp add: usize_add_def)
    show ?thesis
    proof (cases "unat (lp_virtual_address ph) + lp_memory_size ph < usize_limit")
      case True
      then have c: "checked_add (lp_virtual_address ph) (of_nat (lp_memory_size ph)) = Some ?stop"
        and u: "unat ?stop = unat (lp_virtual_address ph) + lp_memory_size ph"
        using sz by (simp_all add: checked_add_def unat_add_no_wrap)
      from Cons.IH[of "n + 1" "min b (lp_virtual_address ph)" "max e ?stop"] Cons.prems obtain r' where
        r': "ld_measure img h is (n + 1) (min b (lp_virtual_address ph)) (max e ?stop) = Done r'"
          "\<forall>n' b' e'. r' = Inr (n', b', e') \<longrightarrow> n' = n + 1 + length (ld_segments img h is)
            \<and> b' \<le> min b (lp_virtual_address ph) \<and> max e ?stop \<le> e'
            \<and> (\<forall>ph\<in>set (ld_segments img h is). b' \<le> lp_virtual_address ph
                 \<and> unat (lp_virtual_address ph) + lp_memory_size ph \<le> unat e')"
        by auto
      have "unat (lp_virtual_address ph) + lp_memory_size ph \<le> unat e'" if "max e ?stop \<le> e'" for e'
      proof -
        have "?stop \<le> e'" using that by (rule max.boundedE)
        with u show ?thesis by (simp add: word_le_nat_alt)
      qed
      with r' show ?thesis using r 3 n c seg by (auto simp del: One_nat_def)
    qed (use r 3 n sz in \<open>simp add: checked_add_def del: One_nat_def\<close>)
  qed (use r in simp)
qed simp

text \<open>The copy of one segment, and when it stays within \<open>n\<close> bytes of the kernel's memory.\<close>

definition copy_segment :: "u8 list \<Rightarrow> u64 \<Rightarrow> u64 \<Rightarrow> ld_program_header \<Rightarrow> memory \<Rightarrow> memory" where
  "copy_segment img base phys ph = write_mem (phys + (lp_virtual_address ph - base))
     (sub_slice (lp_file_offset ph) (lp_file_offset ph + lp_file_size ph) img)"

definition fits_in :: "nat \<Rightarrow> u64 \<Rightarrow> ld_program_header \<Rightarrow> bool" where
  "fits_in n base ph \<longleftrightarrow> base \<le> lp_virtual_address ph
     \<and> unat (lp_virtual_address ph) + lp_file_size ph \<le> unat base + n"

definition in_file :: "u8 list \<Rightarrow> ld_program_header \<Rightarrow> bool" where
  "in_file img ph \<longleftrightarrow> lp_file_offset ph + lp_file_size ph \<le> length img"

lemma copy_segment_at:
  assumes "fits_in n base ph" "in_file img ph" "n \<le> usize_limit" "i < usize_limit"
  shows "copy_segment img base phys ph mem (phys + of_nat i) =
    (if unat (lp_virtual_address ph) \<le> unat base + i \<and> unat base + i < unat (lp_virtual_address ph) + lp_file_size ph
     then img ! (lp_file_offset ph + (unat base + i - unat (lp_virtual_address ph))) else mem (phys + of_nat i))"
proof -
  define d where "d = unat (lp_virtual_address ph) - unat base"
  have b: "unat base \<le> unat (lp_virtual_address ph)" using assms(1) by (simp add: fits_in_def word_le_nat_alt)
  then have "lp_virtual_address ph - base = of_nat d" by (simp add: d_def of_nat_diff)
  moreover have l: "length (sub_slice (lp_file_offset ph) (lp_file_offset ph + lp_file_size ph) img) = lp_file_size ph"
    using assms(2) by (simp add: in_file_def)
  moreover have "d + lp_file_size ph \<le> usize_limit" using assms(1,3) b unfolding fits_in_def d_def by linarith
  ultimately show ?thesis unfolding copy_segment_def
    using write_mem_at[of d _ i phys mem] assms(2,4) b by (auto simp: d_def in_file_def add.commute)
qed

lemma copy_segment_outside:
  assumes "fits_in n base ph" "in_file img ph" "n \<le> usize_limit" "n \<le> unat (a - phys)"
  shows "copy_segment img base phys ph mem a = mem a"
proof -
  have a: "phys + of_nat (unat (a - phys)) = a" by simp
  from copy_segment_at[OF assms(1-3), of "unat (a - phys)" phys mem] assms(1,4) show ?thesis
    unfolding a by (auto simp: fits_in_def)
qed

lemma ld_copy_spec:
  assumes "length img < usize_limit" "56 \<le> le_program_header_entry_size h"
    "\<forall>ph\<in>set (ld_segments img h is). fits_in n base ph" "unat phys + n < usize_limit"
  shows "\<exists>r mem'. ld_copy img h base phys is mem = Done (r, mem') \<and> (\<forall>a. n \<le> unat (a - phys) \<longrightarrow> mem' a = mem a)
    \<and> (r = Inr () \<longrightarrow> mem' = fold (copy_segment img base phys) (ld_segments img h is) mem
         \<and> (\<forall>ph\<in>set (ld_segments img h is). in_file img ph))"
  using assms(3)
proof (induction "is" arbitrary: mem)
  case (Cons i "is")
  obtain r where r: "ld_parse_program_header img h i = Done r"
    using ld_parse_program_header_eq[OF assms(1,2), of i] by blast
  consider err where "r = Inl err" | "r = Inr None" | ph where "r = Inr (Some ph)"
    by (cases r; cases "case r of Inr x \<Rightarrow> x") auto
  then show ?case
  proof cases
    case 2
    with r Cons show ?thesis by (simp add: ld_segment_def)
  next
    case (3 ph)
    have seg: "ld_segment img h i = Some ph" using 3 r by (simp add: ld_segment_def)
    then have fit: "fits_in n base ph" using Cons.prems by simp
    show ?thesis
    proof (cases "in_file img ph")
      case True
      then have c: "usize_checked_add (lp_file_offset ph) (lp_file_size ph) = Some (lp_file_offset ph + lp_file_size ph)"
        using assms(1) by (simp add: usize_checked_add_def in_file_def)
      have s: "sub_or_panic (lp_virtual_address ph) base = Done (lp_virtual_address ph - base)"
        using fit by (simp add: sub_or_panic_def fits_in_def)
      have "unat (lp_virtual_address ph - base) \<le> n"
        using fit by (auto simp: fits_in_def unat_sub word_le_nat_alt)
      then have "unat phys + unat (lp_virtual_address ph - base) < usize_limit" using assms(4) by linarith
      then have p: "add_or_panic phys (lp_virtual_address ph - base) = Done (phys + (lp_virtual_address ph - base))"
        by (simp add: add_or_panic_def)
      from Cons.IH[of "copy_segment img base phys ph mem"] Cons.prems obtain r' mem' where
        "ld_copy img h base phys is (copy_segment img base phys ph mem) = Done (r', mem')"
        "\<forall>a. n \<le> unat (a - phys) \<longrightarrow> mem' a = copy_segment img base phys ph mem a"
        "r' = Inr () \<longrightarrow> mem' = fold (copy_segment img base phys) (ld_segments img h is) (copy_segment img base phys ph mem)
           \<and> (\<forall>ph\<in>set (ld_segments img h is). in_file img ph)" by auto
      moreover have "copy_segment img base phys ph mem a = mem a" if "n \<le> unat (a - phys)" for a
        using copy_segment_outside[OF fit True _ that] assms(4) by simp
      moreover have "ld_copy img h base phys (i # is) mem = ld_copy img h base phys is (copy_segment img base phys ph mem)"
        using r 3 c s p True by (simp add: in_file_def copy_segment_def)
      ultimately show ?thesis using seg True by auto
    next
      case False
      then show ?thesis using r 3 seg
        by (auto simp: in_file_def usize_checked_Some split: option.splits)
    qed
  qed (use r in simp)
qed simp

text \<open>The byte of the loaded image at a virtual address: from the last segment whose file part covers
  it, zero where none does.\<close>

definition covers :: "nat \<Rightarrow> ld_program_header \<Rightarrow> bool" where
  "covers va ph \<longleftrightarrow> unat (lp_virtual_address ph) \<le> va \<and> va < unat (lp_virtual_address ph) + lp_file_size ph"

definition loaded_byte :: "u8 list \<Rightarrow> ld_program_header list \<Rightarrow> nat \<Rightarrow> u8" where
  "loaded_byte img segs va = (case List.find (covers va) (rev segs) of
      Some ph \<Rightarrow> img ! (lp_file_offset ph + (va - unat (lp_virtual_address ph))) | None \<Rightarrow> 0)"

lemma fold_copy_byte:
  assumes "\<forall>ph\<in>set segs. fits_in n base ph \<and> in_file img ph" "n \<le> usize_limit" "i < usize_limit"
    "mem (phys + of_nat i) = 0"
  shows "fold (copy_segment img base phys) segs mem (phys + of_nat i) = loaded_byte img segs (unat base + i)"
  using assms(1)
proof (induction segs rule: rev_induct)
  case (snoc ph segs)
  then show ?case using copy_segment_at[of n base ph img i phys] assms(2,3)
    by (simp add: loaded_byte_def covers_def)
qed (simp add: loaded_byte_def assms(4))


text \<open>The addresses the segments of an image span, as the first loop measures them, and what the
  second loop leaves in the allocated pages.\<close>

definition spans :: "u8 list \<Rightarrow> ld_elf_header \<Rightarrow> u64 \<Rightarrow> u64 \<Rightarrow> bool" where
  "spans img h b t \<longleftrightarrow> (\<forall>ph\<in>set (ld_segments img h [0..<le_program_header_count h]).
     b \<le> lp_virtual_address ph \<and> unat (lp_virtual_address ph) + lp_memory_size ph \<le> unat t)"

lemma ld_measure_header:
  assumes "length img < usize_limit" "ld_parse_header img = Done (Inr h)"
  shows "\<exists>r. ld_measure img h [0..<le_program_header_count h] 0 (- 1) 0 = Done r
    \<and> (\<forall>n b t. r = Inr (n, b, t) \<longrightarrow> spans img h b t)"
proof -
  have "le_program_header_count h < 65536"
    using assms(2) unsigned_less[of "le_u16 (sub_slice 56 58 img)", where ?'a = nat]
    by (auto simp: ld_parse_header_eq[OF assms(1)] split: if_splits)
  with ld_measure_spec[OF assms(1) ld_header_entry_size[OF assms], of 0 "[0..<le_program_header_count h]" "- 1" 0]
  show ?thesis unfolding spans_def by auto
qed

lemma ld_fill:
  assumes "length img < usize_limit" "ld_parse_header img = Done (Inr h)" "spans img h b t"
    "checked_sub t b = Some sz" "unat p + div_ceil_4096 sz * 4096 < usize_limit"
  defines "n \<equiv> div_ceil_4096 sz * 4096" and "segs \<equiv> ld_segments img h [0..<le_program_header_count h]"
  shows "\<exists>r mem'. ld_copy img h b p [0..<le_program_header_count h] (write_mem p (replicate n 0) mem) = Done (r, mem')
    \<and> (\<forall>a. n \<le> unat (a - p) \<longrightarrow> mem' a = mem a)
    \<and> (r = Inr () \<longrightarrow> (\<forall>i<n. mem' (p + of_nat i) = loaded_byte img segs (unat b + i)))"
proof -
  note e = ld_header_entry_size[OF assms(1,2)]
  have sz: "unat sz = unat t - unat b" "unat b \<le> unat t" using checked_sub_Some[OF assms(4)] by simp_all
  have n: "unat sz \<le> n" by (simp add: n_def div_ceil_4096_def)
  have lim: "unat p + n < usize_limit" using assms(5) by (simp add: n_def)
  have fit: "fits_in n b ph" if ph: "ph \<in> set segs" for ph
  proof -
    have "b \<le> lp_virtual_address ph" "unat (lp_virtual_address ph) + lp_memory_size ph \<le> unat t"
      using assms(3) ph by (auto simp: spans_def segs_def)
    moreover have "lp_file_size ph \<le> lp_memory_size ph"
      using ph ld_segment_sizes[OF assms(1) e] by (auto simp: segs_def ld_segments_def map_filter_def)
    ultimately show ?thesis using sz n unfolding fits_in_def by linarith
  qed
  let ?mem = "write_mem p (replicate n 0) mem"
  from ld_copy_spec[OF assms(1) e _ lim, of "[0..<le_program_header_count h]" b ?mem] fit obtain r mem' where
    cp: "ld_copy img h b p [0..<le_program_header_count h] ?mem = Done (r, mem')"
      "\<forall>a. n \<le> unat (a - p) \<longrightarrow> mem' a = ?mem a"
      "r = Inr () \<longrightarrow> mem' = fold (copy_segment img b p) segs ?mem \<and> (\<forall>ph\<in>set segs. in_file img ph)"
    unfolding segs_def by blast
  have "mem' (p + of_nat i) = loaded_byte img segs (unat b + i)" if "i < n" "r = Inr ()" for i
    using cp(3) that fit lim write_mem_at[of 0 "replicate n 0" i p mem] by (simp add: fold_copy_byte[of _ n])
  moreover have "mem' a = mem a" if "n \<le> unat (a - p)" for a
    using that cp(2) write_mem_outside[of "replicate n 0" a p mem] by simp
  ultimately show ?thesis using cp(1) by blast
qed


section \<open>Properties\<close>

text \<open>C25: The boot loader loads the kernel image faithfully.  On any byte string and whatever pages the
  firmware gives it, \<open>load_kernel\<close> returns without a panic and writes only to those pages.  When it
  succeeds every page it allocated holds exactly the image: at each address the file's byte of the last
  segment that covers the address, and zero where no segment's file part does.\<close>

theorem load_kernel_correct:
  assumes "length img < usize_limit"
    and "\<And>n p. allocate_pages n = Inr p \<Longrightarrow> unat p + n * 4096 < usize_limit"
  shows "\<exists>r mem'. load_kernel allocate_pages img mem = Done (r, mem')
    \<and> (\<forall>a. mem' a \<noteq> mem a \<longrightarrow> (\<exists>n p. allocate_pages n = Inr p \<and> unat (a - p) < n * 4096))
    \<and> (\<forall>k. r = Inr k \<longrightarrow> (\<exists>h. ld_parse_header img = Done (Inr h) \<and> lk_entry_point k = le_entry_point h
        \<and> (\<forall>i<div_ceil_4096 (lk_image_size k) * 4096. mem' (lk_physical_base k + of_nat i)
            = loaded_byte img (ld_segments img h [0..<le_program_header_count h]) (unat (lk_virtual_base k) + i))))"
proof -
  obtain rh where rh: "ld_parse_header img = Done rh" using ld_parse_header_eq[OF assms(1)] by blast
  show ?thesis
  proof (cases rh)
    case (Inr h)
    let ?is = "[0..<le_program_header_count h]"
    note rh' = rh[unfolded Inr]
    from ld_measure_header[OF assms(1) rh'] obtain rm where
      rm: "ld_measure img h ?is 0 (- 1) 0 = Done rm" "\<forall>n b t. rm = Inr (n, b, t) \<longrightarrow> spans img h b t" by blast
    show ?thesis
    proof (cases "\<exists>n b t sz p. rm = Inr (n, b, t) \<and> n \<noteq> 0 \<and> b AND 0xFFF = 0 \<and> checked_sub t b = Some sz
        \<and> allocate_pages (div_ceil_4096 sz) = Inr p")
      case True
      then obtain n b t sz p where c: "rm = Inr (n, b, t)" "n \<noteq> 0" "b AND 0xFFF = 0" "checked_sub t b = Some sz"
        "allocate_pages (div_ceil_4096 sz) = Inr p" by blast
      have lim: "unat p + div_ceil_4096 sz * 4096 < usize_limit" using assms(2)[OF c(5)] .
      from ld_fill[OF assms(1) rh' _ c(4) lim, of mem] rm(2) c(1) obtain r mem' where
        f: "ld_copy img h b p ?is (write_mem p (replicate (div_ceil_4096 sz * 4096) 0) mem) = Done (r, mem')"
          "\<forall>a. div_ceil_4096 sz * 4096 \<le> unat (a - p) \<longrightarrow> mem' a = mem a"
          "r = Inr () \<longrightarrow> (\<forall>i<div_ceil_4096 sz * 4096.
             mem' (p + of_nat i) = loaded_byte img (ld_segments img h ?is) (unat b + i))" by blast
      then have "\<exists>n p. allocate_pages n = Inr p \<and> unat (a - p) < n * 4096" if "mem' a \<noteq> mem a" for a
        using that c(5) by (metis not_le)
      with rh Inr rm(1) c f lim show ?thesis
        by (auto simp: load_kernel_def usize_mul_def Let_def split: sum.splits)
    next
      case False
      with rh Inr rm(1) show ?thesis
        by (auto simp: load_kernel_def Let_def split: sum.splits option.splits)
    qed
  qed (use rh in \<open>simp add: load_kernel_def\<close>)
qed

lemmas elf_constants = ELF_MAGIC_def ELF_CLASS_64_def ELF_DATA_LITTLE_ENDIAN_def ELF_VERSION_CURRENT_def
  ELF_TYPE_EXEC_def ELF_TYPE_DYN_def ELF_MACHINE_X86_64_def PROGRAM_HEADER_LOAD_def

text \<open>A small executable for the witnesses: an ELF header, one loadable segment of two bytes at the
  address \<open>0x200000\<close> with four bytes in memory.\<close>

definition demo_elf :: "u8 list" where
  "demo_elf = [0x7F, 0x45, 0x4C, 0x46, 2, 1, 1, 0] @ [0, 0, 0, 0, 0, 0, 0, 0] @ [2, 0, 62, 0, 1, 0, 0, 0]
     @ [0, 0, 0x20, 0, 0, 0, 0, 0] @ [64, 0, 0, 0, 0, 0, 0, 0] @ [0, 0, 0, 0, 0, 0, 0, 0]
     @ [0, 0, 0, 0, 64, 0, 56, 0] @ [1, 0, 0, 0, 0, 0, 0, 0]
     @ [1, 0, 0, 0, 5, 0, 0, 0] @ [120, 0, 0, 0, 0, 0, 0, 0] @ [0, 0, 0x20, 0, 0, 0, 0, 0]
     @ [0, 0, 0x20, 0, 0, 0, 0, 0] @ [2, 0, 0, 0, 0, 0, 0, 0] @ [4, 0, 0, 0, 0, 0, 0, 0]
     @ [0, 0x10, 0, 0, 0, 0, 0, 0] @ [0xAB, 0xCD]"

definition demo_header :: ld_elf_header where
  "demo_header = \<lparr>le_entry_point = 0x200000, le_program_header_offset = 64,
     le_program_header_entry_size = 56, le_program_header_count = 1\<rparr>"

definition demo_segment :: ld_program_header where
  "demo_segment = \<lparr>lp_file_offset = 120, lp_virtual_address = 0x200000, lp_physical_address = 0x200000,
      lp_file_size = 2, lp_memory_size = 4\<rparr>"

definition demo_pages :: "nat \<Rightarrow> u64 + u64" where
  "demo_pages n = (if n \<le> 256 then Inr 0x100000 else Inl 9)"

lemma demo_elf_header: "ld_parse_header demo_elf = Done (Inr demo_header)"
  by (simp add: ld_parse_header_eq demo_elf_def sub_slice_def elf_constants le_u16_def le_u64_def demo_header_def)

lemma demo_elf_segment: "ld_parse_program_header demo_elf demo_header 0 = Done (Inr (Some demo_segment))"
  by (simp add: ld_parse_program_header_eq demo_elf_def sub_slice_def elf_constants
      le_u32_def le_u64_def ld_ph_start_def ld_ph_at_def demo_header_def demo_segment_def)

lemma demo_elf_loads: "\<exists>mem'. load_kernel demo_pages demo_elf mem = Done (Inr \<lparr>lk_entry_point = 0x200000,
    lk_virtual_base = 0x200000, lk_physical_base = 0x100000, lk_image_size = 4\<rparr>, mem')"
proof -
  have "length demo_elf = 122" by (simp add: demo_elf_def)
  then show ?thesis
    by (simp add: load_kernel_def demo_elf_header demo_elf_segment demo_header_def[THEN arg_cong, of le_program_header_count]
        demo_header_def[THEN arg_cong, of le_entry_point]
        demo_segment_def usize_add_def checked_add_def checked_sub_def div_ceil_4096_def demo_pages_def
        usize_mul_def usize_checked_add_def sub_or_panic_def add_or_panic_def min_absorb2 max_def)
qed

theorem load_kernel_correct_witness:
  "\<exists>k mem'. load_kernel demo_pages demo_elf (\<lambda>_. 7) = Done (Inr k, mem')
    \<and> mem' 0x100001 = 0xCD \<and> mem' 0x100002 = 0 \<and> mem' 0x99999999 = 7"
proof -
  have law: "demo_pages n = Inr p \<Longrightarrow> unat p + n * 4096 < usize_limit" for n p
    by (auto simp: demo_pages_def split: if_splits)
  from demo_elf_loads[of "\<lambda>_. 7"] obtain mem' where
    l: "load_kernel demo_pages demo_elf (\<lambda>_. 7) = Done (Inr \<lparr>lk_entry_point = 0x200000,
      lk_virtual_base = 0x200000, lk_physical_base = 0x100000, lk_image_size = 4\<rparr>, mem')" by blast
  have len: "length demo_elf < usize_limit" by (simp add: demo_elf_def)
  have segs: "ld_segments demo_elf demo_header [0..<le_program_header_count demo_header] = [demo_segment]"
    by (simp add: demo_header_def[THEN arg_cong, of le_program_header_count] ld_segment_def demo_elf_segment)
  from load_kernel_correct[where allocate_pages = demo_pages, OF len law, where mem = "\<lambda>_. 7"] l demo_elf_header segs have
    m: "\<And>a. mem' a \<noteq> 7 \<Longrightarrow> \<exists>n p. demo_pages n = Inr p \<and> unat (a - p) < n * 4096"
      "\<And>i. i < 4096 \<Longrightarrow> mem' (0x100000 + of_nat i) = loaded_byte demo_elf [demo_segment] (0x200000 + i)"
    by (auto simp: div_ceil_4096_def)
  have "mem' 0x100001 = 0xCD" using m(2)[of 1] 
    by (simp add: loaded_byte_def covers_def demo_segment_def demo_elf_def)
  moreover have "mem' 0x100002 = 0" using m(2)[of 2]
    by (simp add: loaded_byte_def covers_def demo_segment_def)
  moreover have "mem' 0x99999999 = 7"
  proof (rule ccontr)
    assume "mem' 0x99999999 \<noteq> 7"
    from m(1)[OF this] obtain n p where "demo_pages n = Inr p" "unat (0x99999999 - p) < n * 4096" by blast
    then show False by (auto simp: demo_pages_def split: if_splits)
  qed
  ultimately show ?thesis using l by blast
qed

text \<open>How the loader's records correspond to the kernel's.\<close>

definition same_header :: "ld_elf_header \<Rightarrow> elf_header \<Rightarrow> bool" where
  "same_header h k \<longleftrightarrow> le_entry_point h = eh_entry k
     \<and> le_program_header_offset h = unat (program_header_offset k)
     \<and> le_program_header_entry_size h = unat (program_header_entry_size k)
     \<and> le_program_header_count h = unat (program_header_count k)"

definition ld_view :: "program_header \<Rightarrow> ld_program_header" where
  "ld_view kp = \<lparr>lp_file_offset = unat (ph_file_offset kp), lp_virtual_address = ph_virtual_address kp,
     lp_physical_address = ph_physical_address kp, lp_file_size = unat (ph_file_size kp),
     lp_memory_size = unat (ph_memory_size kp)\<rparr>"

lemma headers_agree:
  assumes "length img < usize_limit"
  shows "(\<exists>h. ld_parse_header img = Done (Inr h) \<and> same_header h k)
    \<longleftrightarrow> parse_header img = Done (Inr k) \<and> img ! 6 = ELF_VERSION_CURRENT"
  unfolding ld_parse_header_eq[OF assms] parse_header_eq[OF assms]
  by (cases k) (auto simp: same_header_def word_less_nat_alt word_unat_eq_iff split: if_splits)

lemma ld_view_ph_at: "ld_view (ph_at img start) = ld_ph_at img start"
  by (simp add: ld_view_def ph_at_def ld_ph_at_def Let_def)

lemma program_headers_agree:
  assumes "length img < usize_limit" "parse_header img = Done (Inr k) \<and> same_header h k \<and> i < 65536"
  shows "ld_parse_program_header img h i = Done (Inr (Some ph)) \<longleftrightarrow>
    (\<exists>kp. parse_program_header img k (of_nat i) = Done (Inr (Some kp))
       \<and> ph_virtual_address kp AND 0xFFF = 0 \<and> ph = ld_view kp)"
proof -
  have k: "56 \<le> program_header_entry_size k"
    using assms(2) by (auto simp: parse_header_eq[OF assms(1)] split: if_splits)
  then have h: "56 \<le> le_program_header_entry_size h"
    using assms(2) by (simp add: same_header_def word_le_nat_alt)
  have st: "ph_start k (unat (of_nat i :: u16)) = ld_ph_start h i"
    using assms(2) by (simp add: same_header_def ph_start_def ld_ph_start_def unat_of_nat_u16)
  define start where "start = ld_ph_start h i"
  have v: "lp_virtual_address (ld_ph_at img start) = ph_virtual_address (ph_at img start)"
    "lp_memory_size (ld_ph_at img start) < lp_file_size (ld_ph_at img start)
       \<longleftrightarrow> ph_memory_size (ph_at img start) < ph_file_size (ph_at img start)"
    by (simp_all add: ld_ph_at_def ph_at_def Let_def word_less_nat_alt)
  show ?thesis
    unfolding ld_parse_program_header_eq[OF assms(1) h] parse_program_header_eq[OF assms(1) k] st
      start_def[symmetric] Let_def v
    using assms(2) by (auto simp: same_header_def ld_view_ph_at)
qed

text \<open>C26: The loader and the kernel agree on what an executable is.  The kernel's parser accepts a header
  that the loader accepts, with the same fields; conversely the loader accepts what the kernel accepts
  if its version byte is one.  For a header both accept, a program header the loader accepts is accepted
  by the kernel with the same fields, and the loader refuses one the kernel accepts only because
  its address is not page aligned.\<close>

theorem elf_parsers_agree:
  assumes "length img < usize_limit"
  shows "((\<exists>h. ld_parse_header img = Done (Inr h) \<and> same_header h k)
      \<longleftrightarrow> parse_header img = Done (Inr k) \<and> img ! 6 = ELF_VERSION_CURRENT)
    \<and> (parse_header img = Done (Inr k) \<and> same_header h k \<and> i < 65536 \<longrightarrow>
      (ld_parse_program_header img h i = Done (Inr (Some ph)) \<longleftrightarrow>
       (\<exists>kp. parse_program_header img k (of_nat i) = Done (Inr (Some kp))
          \<and> ph_virtual_address kp AND 0xFFF = 0 \<and> ph = ld_view kp)))"
  using headers_agree[OF assms] program_headers_agree[OF assms] by blast

theorem elf_parsers_agree_witness:
  "\<exists>k. parse_header demo_elf = Done (Inr k) \<and> same_header demo_header k
     \<and> (\<exists>kp. parse_program_header demo_elf k 0 = Done (Inr (Some kp)) \<and> demo_segment = ld_view kp)"
proof -
  have len: "length demo_elf < usize_limit" by (simp add: demo_elf_def)
  let ?k = "\<lparr>eh_entry = 0x200000, program_header_offset = 64, program_header_entry_size = 56, program_header_count = 1\<rparr>"
  have k: "same_header demo_header ?k" by (simp add: same_header_def demo_header_def)
  from elf_parsers_agree[OF len, of ?k demo_header 0 demo_segment] k demo_elf_header demo_elf_segment
  show ?thesis by auto
qed

end
