(* ===== verification/Xtask.thy ===== *)
theory Xtask
  imports Vfs_Props
begin

text \<open>
  The build tool's part of the system (\<^verbatim>\<open>tools/xtask/src/main.rs\<close>): the command line, the
  initial ramdisk it packs, the console font it generates, and what it makes of the emulator's exit
  status.  The ramdisk and the font are what the kernel reads at start-up, so their properties join the
  tool to the kernel.
\<close>


section \<open>Definitions\<close>

datatype xtask_command = Status | Doctor | BuildUefi | RunUefi

text \<open>The line written to standard output and either the exit status or the command.\<close>

definition parse_command :: "rstr option \<Rightarrow> rstr list \<times> (nat + xtask_command)" where
  "parse_command raw = (case raw of
       None \<Rightarrow> ([], Inr Status)
     | Some w \<Rightarrow>
         if w = ascii ''doctor'' then ([], Inr Doctor)
         else if w = ascii ''build-uefi'' then ([], Inr BuildUefi)
         else if w = ascii ''run-uefi'' then ([], Inr RunUefi)
         else if w = ascii ''uefi-loader'' then
           ([ascii ''`cargo xtask uefi-loader` is kept as a compatibility alias for `cargo xtask run-uefi`.''], Inr RunUefi)
         else if w = ascii ''status'' then ([], Inr Status)
         else ([ascii ''Unknown xtask command: '' @ w,
                ascii ''Available commands: status, doctor, build-uefi, run-uefi, uefi-loader''], Inl 2))"

definition add_file :: "rstr \<Rightarrow> u8 list \<Rightarrow> u8 list \<Rightarrow> u8 list" where
  "add_file name data ramdisk =
     (let name_len = min (length name) 63;
          header = copy_at 0 (take name_len name) (replicate 64 0) in
      ramdisk @ header @ le_bytes 8 (length data) @ data)"

definition create_minimal_psf2_font :: "u8 list" where
  "create_minimal_psf2_font =
     [0x72, 0xb5, 0x4a, 0x86] @ le_bytes 4 0 @ le_bytes 4 32 @ le_bytes 4 0 @ le_bytes 4 256 @ le_bytes 4 16
     @ le_bytes 4 16 @ le_bytes 4 8
     @ concat (map (\<lambda>i. if i = 32 then replicate 16 0 else [0xFF] @ replicate 14 0x81 @ [0xFF]) [0..<256 :: nat])"

definition initramfs :: "u8 list \<Rightarrow> u8 list \<Rightarrow> u8 list \<Rightarrow> u8 list" where
  "initramfs init_data shell_data fault_tester_data =
     add_file (ascii ''font.psf'') create_minimal_psf2_font
      (add_file (ascii ''fault-tester'') fault_tester_data
       (add_file (ascii ''shell'') shell_data
        (add_file (ascii ''init'') init_data
         (add_file (ascii ''initramfs.txt'')
           (ascii ''Hello from Initramfs!\<newline>This is a kernel experiment.\<newline>'') []))))"

text \<open>The emulator's exit code, if it has one; the result is the tool's own exit status when it exits.\<close>

definition handle_qemu_status :: "int option \<Rightarrow> int option" where
  "handle_qemu_status code = (case code of
       Some c \<Rightarrow> if c = 33 then None else Some c
     | None \<Rightarrow> Some 1)"


section \<open>The ramdisk, read back\<close>

definition file_block :: "rstr \<times> u8 list \<Rightarrow> u8 list" where
  "file_block f = add_file (fst f) (snd f) []"

lemma add_file_block: "add_file name data disk = disk @ file_block (name, data)"
  by (simp add: add_file_def file_block_def Let_def)

lemma length_file_block [simp]: "length (file_block f) = 72 + length (snd f)"
  by (simp add: file_block_def add_file_def Let_def copy_at_def)

text \<open>A name the format stores exactly: at most 63 bytes, no zero byte, valid UTF-8.\<close>

definition good_name :: "rstr \<Rightarrow> bool" where
  "good_name n \<longleftrightarrow> length n \<le> 63 \<and> 0 \<notin> set n \<and> from_utf8 n = Some n"

lemma position_zero: "0 \<notin> set n \<Longrightarrow> position (\<lambda>b. b = 0) (n @ 0 # xs) = Some (length n)"
  by (induction n) auto

lemma ramdisk_name_padded:
  assumes "good_name n"
  shows "ramdisk_name (copy_at 0 n (replicate 64 0)) = n"
proof -
  have l: "length n \<le> 63" using assms by (simp add: good_name_def)
  then have "copy_at 0 n (replicate 64 0) = n @ 0 # replicate (63 - length n) 0"
    by (simp add: copy_at_def Suc_diff_le flip: replicate_Suc)
  with assms position_zero[of n "replicate (63 - length n) 0"] show ?thesis
    by (simp add: ramdisk_name_def good_name_def)
qed

definition file_entry :: "rstr \<times> u8 list \<Rightarrow> vfs_entry" where
  "file_entry f = \<lparr>ve_name = fst f, ve_file_type = Regular, ve_data = Some (snd f)\<rparr>"

lemma scan_blocks:
  assumes "\<forall>f\<in>set fs. good_name (fst f)" "length (pre @ concat (map file_block fs)) + 72 < usize_limit"
  shows "ramdisk_scan (pre @ concat (map file_block fs)) (length pre) es = Done (es @ map file_entry fs)"
  using assms
proof (induction fs arbitrary: pre es)
  case Nil
  then show ?case by (simp add: ramdisk_scan.simps usize_add_def)
next
  case (Cons f fs)
  obtain n d where f: "f = (n, d)" by (cases f)
  let ?rest = "concat (map file_block fs)"
  let ?data = "pre @ file_block f @ ?rest"
  have n: "good_name n" using Cons.prems f by simp
  have blk: "file_block f = copy_at 0 n (replicate 64 0) @ le_bytes 8 (length d) @ d"
    using n by (simp add: f file_block_def add_file_def Let_def good_name_def)
  have h: "length (copy_at 0 n (replicate 64 (0 :: u8))) = 64"
    using n by (simp add: good_name_def)
  have lim: "length pre + 72 + length d + length ?rest + 72 < usize_limit" using Cons.prems(2) f by simp
  have s: "sub_slice (length pre) (length pre + 64) ?data = copy_at 0 n (replicate 64 0)"
    "sub_slice (length pre + 64) (length pre + 72) ?data = le_bytes 8 (length d)"
    "sub_slice (length pre + 72) (length pre + 72 + length d) ?data = d"
    using h by (simp_all add: blk sub_slice_def)
  have sz: "unat (le_u64 (le_bytes 8 (length d))) = length d" using lim by (simp add: le_u64_le_bytes)
  have "ramdisk_scan ?data (length pre) es
      = ramdisk_scan ((pre @ file_block f) @ ?rest) (length (pre @ file_block f)) (es @ [file_entry f])"
    using lim h s sz ramdisk_name_padded[OF n]
    by (subst ramdisk_scan.simps) (simp add: usize_add_def f file_entry_def Let_def add.assoc)
  with Cons.IH[of "pre @ file_block f" "es @ [file_entry f]"] Cons.prems show ?case by simp
qed

lemma fold_add_file: "fold (\<lambda>(n, d). add_file n d) fs disk = disk @ concat (map file_block fs)"
  by (induction fs arbitrary: disk) (auto simp: add_file_block)

lemma init_blocks:
  assumes "\<forall>f\<in>set fs. good_name (fst f)" "length (concat (map file_block fs)) + 72 < usize_limit"
    "read_mem mem addr (length (concat (map file_block fs))) = concat (map file_block fs)" "addr \<noteq> 0" "fs \<noteq> []"
  shows "init_from_ramdisk mem addr (of_nat (length (concat (map file_block fs)))) vfs_new
    = Done ((init_defaults vfs_new)\<lparr>vfs_entries := vfs_entries (init_defaults vfs_new) @ map file_entry fs\<rparr>)"
proof -
  let ?img = "concat (map file_block fs)"
  have "0 < length ?img" using assms(5) by (cases fs) simp_all
  then have "(0 :: u64) < of_nat (length ?img)"
    using assms(2) by (simp add: word_less_nat_alt del: length_concat)
  moreover have "unat (of_nat (length ?img) :: u64) = length ?img" using assms(2) by (intro unat_of_nat_u64) simp
  moreover have "ramdisk_scan ?img 0 es = Done (es @ map file_entry fs)" for es
    using scan_blocks[of fs "[]"] assms(1,2) by simp
  ultimately show ?thesis using assms(3,4)
    by (simp add: init_from_ramdisk_def Let_def del: length_concat)
qed


section \<open>The font\<close>

definition box_glyph :: "nat \<Rightarrow> u8 list" where
  "box_glyph i = (if i = 32 then replicate 16 0 else [0xFF] @ replicate 14 0x81 @ [0xFF])"

lemma sub_slice_concat:
  assumes "\<And>i. length (g i) = k" "c < n"
  shows "sub_slice (c * k) (c * k + k) (concat (map g [0..<n])) = g c"
proof -
  have "[0..<n] = [0..<c] @ c # [Suc c..<n]" using assms(2) upt_add_eq_append[of 0 c "n - c"]
    by (simp add: upt_conv_Cons)
  moreover have "length (concat (map g [0..<c])) = c * k" for c by (induction c) (simp_all add: assms(1))
  ultimately show ?thesis by (simp add: sub_slice_def assms(1) del: length_concat)
qed

lemma le_bytes_4: "le_bytes 4 v = [of_nat (v mod 256), of_nat (v div 256 mod 256),
    of_nat (v div 65536 mod 256), of_nat (v div 16777216 mod 256)]"
proof -
  have "le_bytes (Suc (Suc (Suc (Suc 0)))) v = [of_nat (v mod 256), of_nat (v div 256 mod 256),
    of_nat (v div 65536 mod 256), of_nat (v div 16777216 mod 256)]"
    by (simp flip: div_mult2_eq)
  moreover have "4 = Suc (Suc (Suc (Suc 0)))" by simp
  ultimately show ?thesis by (simp only:)
qed

lemma font_eq: "create_minimal_psf2_font = [0x72, 0xb5, 0x4a, 0x86, 0, 0, 0, 0, 32, 0, 0, 0, 0, 0, 0, 0,
    0, 1, 0, 0, 16, 0, 0, 0, 16, 0, 0, 0, 8, 0, 0, 0] @ concat (map box_glyph [0..<256])"
  unfolding create_minimal_psf2_font_def box_glyph_def[abs_def] le_bytes_4 by simp

lemma length_glyphs: "length (concat (map box_glyph [0..<n])) = n * 16"
  by (induction n) (simp_all add: box_glyph_def)

definition default_font :: psf2_font where
  "default_font = \<lparr>font_header = \<lparr>psf_magic = [0x72, 0xb5, 0x4a, 0x86], psf_version = 0, psf_header_size = 32,
     psf_flags = 0, psf_length = 256, psf_char_size = 16, psf_height = 16, psf_width = 8\<rparr>,
     font_glyphs = concat (map box_glyph [0..<256])\<rparr>"

lemma font_parses: "psf2_font_new create_minimal_psf2_font = Done (Some default_font)"
  using length_glyphs[of 256]
  by (simp add: psf2_font_new_def font_eq psf2_read_header_def sub_slice_def le_u32_def Let_def
      mul_or_panic_def usize_add_def slice_or_panic_def default_font_def del: length_concat)

lemma font_glyph: "c < 256 \<Longrightarrow> get_glyph default_font c = Done (Some (box_glyph c))"
  using sub_slice_concat[of box_glyph 16 c 256] length_glyphs[of 256]
  by (simp add: get_glyph_def default_font_def usize_mul_def usize_add_def slice_or_panic_def box_glyph_def
      del: length_concat)


section \<open>Properties\<close>

text \<open>C27: What the build tool packs is what the kernel finds.  For any list of files whose names fit the
  format, the image \<open>add_file\<close> builds, loaded anywhere in memory, gives a file system whose entries are
  the defaults followed by exactly those files, with the same names and the same bytes, in order.\<close>

theorem ramdisk_roundtrip:
  assumes "\<forall>f\<in>set fs. good_name (fst f)"
  defines "img \<equiv> fold (\<lambda>(n, d). add_file n d) fs []"
  assumes "length img + 72 < usize_limit" and "read_mem mem addr (length img) = img" and "addr \<noteq> 0" and "fs \<noteq> []"
  shows "init_from_ramdisk mem addr (of_nat (length img)) vfs_new
    = Done ((init_defaults vfs_new)\<lparr>vfs_entries := vfs_entries (init_defaults vfs_new)
        @ map (\<lambda>(n, d). \<lparr>ve_name = n, ve_file_type = Regular, ve_data = Some d\<rparr>) fs\<rparr>)"
proof -
  have "map (\<lambda>(n, d). \<lparr>ve_name = n, ve_file_type = Regular, ve_data = Some d\<rparr>) fs = map file_entry fs"
    by (auto simp: file_entry_def)
  with init_blocks[OF assms(1), of mem addr] assms(3-) show ?thesis
    by (simp add: img_def fold_add_file)
qed

theorem ramdisk_roundtrip_witness:
  "init_from_ramdisk (write_mem 0x1000 (add_file (ascii ''b'') [7] (add_file (ascii ''a'') [] [])) (\<lambda>_. 0)) 0x1000 145 vfs_new
    = Done ((init_defaults vfs_new)\<lparr>vfs_entries := vfs_entries (init_defaults vfs_new)
        @ [\<lparr>ve_name = ascii ''a'', ve_file_type = Regular, ve_data = Some []\<rparr>,
           \<lparr>ve_name = ascii ''b'', ve_file_type = Regular, ve_data = Some [7]\<rparr>]\<rparr>)"
proof -
  let ?fs = "[(ascii ''a'', []), (ascii ''b'', [7 :: u8])]"
  let ?img = "fold (\<lambda>(n, d). add_file n d) ?fs []"
  have g: "\<forall>f\<in>set ?fs. good_name (fst f)"
    by (simp add: good_name_def ascii_def from_utf8_ascii_bytes)
  have l: "length ?img = 145" by (simp add: add_file_block)
  have "read_mem (write_mem 0x1000 ?img (\<lambda>_. 0)) 0x1000 (length ?img) = ?img"
    using l by (intro read_write_mem) simp
  from ramdisk_roundtrip[OF g _ this] l show ?thesis by simp
qed

text \<open>C28: The shipped ramdisk boots.  Whatever the three program binaries are, the kernel finds each of
  them under its name in the image the build tool writes, and finds a console font that its font
  parser accepts and that has a glyph of sixteen rows for every character code below 256.\<close>

theorem initramfs_boots:
  assumes "length (initramfs ib sb fb) + 72 < usize_limit" and "addr \<noteq> 0"
    and "read_mem mem addr (length (initramfs ib sb fb)) = initramfs ib sb fb"
  shows "\<exists>v fd font. init_from_ramdisk mem addr (of_nat (length (initramfs ib sb fb))) vfs_new = Done v
    \<and> map_option ve_data (find_entry (ascii ''init'') v) = Some (Some ib)
    \<and> map_option ve_data (find_entry (ascii ''shell'') v) = Some (Some sb)
    \<and> map_option ve_data (find_entry (ascii ''fault-tester'') v) = Some (Some fb)
    \<and> map_option ve_data (find_entry (ascii ''font.psf'') v) = Some (Some fd)
    \<and> psf2_font_new fd = Done (Some font)
    \<and> (\<forall>c<256. \<exists>g. get_glyph font c = Done (Some g) \<and> length g = 16)"
proof -
  let ?fs = "[(ascii ''initramfs.txt'', ascii ''Hello from Initramfs!\<newline>This is a kernel experiment.\<newline>''),
    (ascii ''init'', ib), (ascii ''shell'', sb), (ascii ''fault-tester'', fb),
    (ascii ''font.psf'', create_minimal_psf2_font)]"
  have i: "initramfs ib sb fb = concat (map file_block ?fs)" by (simp add: initramfs_def add_file_block)
  have g: "\<forall>f\<in>set ?fs. good_name (fst f)" by (simp add: good_name_def ascii_def from_utf8_ascii_bytes)
  show ?thesis
    unfolding i using init_blocks[OF g] assms[unfolded i] font_parses font_glyph
    by (simp add: find_entry_def file_entry_def init_defaults_def vfs_new_def ascii_def box_glyph_def)
qed

theorem initramfs_boots_witness:
  "\<exists>v. init_from_ramdisk (write_mem 0x1000 (initramfs [1] [2] [3, 4]) (\<lambda>_. 0)) 0x1000
      (of_nat (length (initramfs [1] [2] [3, 4]))) vfs_new = Done v
    \<and> map_option ve_data (find_entry (ascii ''fault-tester'') v) = Some (Some [3, 4])"
proof -
  have l: "length (initramfs [1] [2] [3, 4]) + 72 < usize_limit"
    using length_glyphs[of 256] by (simp add: initramfs_def add_file_block ascii_def font_eq del: length_concat)
  then have "read_mem (write_mem 0x1000 (initramfs [1] [2] [3, 4]) (\<lambda>_. 0)) 0x1000
      (length (initramfs [1] [2] [3, 4])) = initramfs [1] [2] [3, 4]"
    by (intro read_write_mem) simp
  from initramfs_boots[OF l _ this] show ?thesis by auto
qed

end
