(* ===== verification/Alignment.thy ===== *)
theory Alignment
  imports Bytes
begin

text \<open>
  Rounding to powers of two as the sources write it, \<open>x & !(a - 1)\<close>, and in terms of division.
\<close>

lemma and_not_mask:
  fixes w :: "'a::len word"
  assumes "k < LENGTH('a)"
  shows "w AND NOT (2 ^ k - 1) = push_bit k (drop_bit k w)"
  by (rule bit_word_eqI) (auto simp: bit_simps simp flip: mask_eq_exp_minus_1)

lemma unat_and_not_mask:
  fixes w :: "'a::len word"
  assumes "k < LENGTH('a)"
  shows "unat (w AND NOT (2 ^ k - 1)) = unat w div 2 ^ k * 2 ^ k"
proof -
  have "unat w div 2 ^ k * 2 ^ k \<le> unat w" by simp
  also have "unat w < 2 ^ LENGTH('a)" by (rule unsigned_less)
  finally have "take_bit LENGTH('a) (unat w div 2 ^ k * 2 ^ k) = unat w div 2 ^ k * 2 ^ k"
    by (simp add: take_bit_nat_eq_self)
  then show ?thesis
    unfolding and_not_mask[OF assms]
    unfolding unsigned_push_bit_eq unsigned_drop_bit_eq push_bit_eq_mult[of k "_ :: nat"]
      drop_bit_eq_div[of k "_ :: nat"] by (simp add: take_bit_nat_eq_self)
qed

lemma unat_and_mask:
  fixes w :: "'a::len word"
  assumes "k < LENGTH('a)"
  shows "unat (w AND (2 ^ k - 1)) = unat w mod 2 ^ k"
proof -
  have "w AND (2 ^ k - 1) = take_bit k w" by (simp add: take_bit_eq_mask mask_eq_exp_minus_1)
  then show ?thesis
    using assms by (simp only: unsigned_take_bit_eq take_bit_eq_mod[of k "unat w"])
qed

lemma and_fff_zero: "(w :: u64) AND 0xFFF = 0 \<longleftrightarrow> 4096 dvd unat w"
proof -
  have "unat (w AND 0xFFF) = unat w mod 4096" using unat_and_mask[of 12 w] by simp
  then show ?thesis by (metis dvd_eq_mod_eq_0 unat_eq_0)
qed

text \<open>The least multiple of \<open>m\<close> that is not below \<open>a\<close>.\<close>

definition round_up :: "nat \<Rightarrow> nat \<Rightarrow> nat" where
  "round_up m a = (a + m - 1) div m * m"

lemma round_up_props:
  assumes "0 < m"
  shows "m dvd round_up m a" "a \<le> round_up m a" "round_up m a < a + m"
    "m dvd b \<Longrightarrow> a \<le> b \<Longrightarrow> round_up m a \<le> b"
proof -
  have d: "round_up m a + (a + m - 1) mod m = a + m - 1" by (simp add: round_up_def)
  have r: "(a + m - 1) mod m \<le> m - 1" using assms by (simp add: less_imp_le_nat Suc_le_eq flip: less_Suc_eq_le)
  show "m dvd round_up m a" by (simp add: round_up_def)
  show "a \<le> round_up m a" "round_up m a < a + m" using d r assms by linarith+
  assume b: "m dvd b" "a \<le> b"
  then obtain q where q: "b = m * q" by auto
  have "(a + m - 1) div m \<le> q"
  proof -
    have "a + m - 1 < m * (q + 1)" using b(2) q assms by simp
    then have "(a + m - 1) div m < q + 1" using assms by (simp add: less_mult_imp_div_less mult.commute)
    then show ?thesis by simp
  qed
  then show "round_up m a \<le> b" by (simp add: round_up_def q mult.commute)
qed

lemma round_up_id: "0 < m \<Longrightarrow> m dvd a \<Longrightarrow> round_up m a = a"
  using round_up_props(2)[of m a] round_up_props(4)[of m a a] by simp

end
