(* ===== verification/Heap.thy ===== *)
theory Heap
  imports Alignment
begin

text \<open>
  The kernel heap (\<^verbatim>\<open>kernel/src/memory/allocator\<close>): the linked-list allocator and the fixed-size block
  allocator on top of it.  A free node lives inside the memory it describes; the lists below are the
  chains those nodes form, first node first.  Addresses and sizes are \<open>usize\<close> values.
\<close>


section \<open>Definitions\<close>

record layout =
  la_size :: nat
  la_align :: nat

abbreviation isize_max :: nat where "isize_max \<equiv> 9223372036854775807"

type_synonym region = "nat \<times> nat"

definition heap_align_up :: "nat \<Rightarrow> nat \<Rightarrow> nat run" where
  "heap_align_up addr align =
     run_bind (usize_add addr align) (\<lambda>x. run_bind (usize_sub x 1) (\<lambda>y. run_bind (usize_sub align 1) (\<lambda>m.
     Done (unat (of_nat y AND NOT (of_nat m) :: u64)))))"

text \<open>\<open>ListNode\<close> has a size and a pointer: 16 bytes, aligned to 8.\<close>

definition add_free_region :: "nat \<Rightarrow> nat \<Rightarrow> region list \<Rightarrow> region list run" where
  "add_free_region addr sz regions =
     run_bind (heap_align_up addr 8) (\<lambda>a.
     run_bind (run_guard (a = addr)) (\<lambda>_.
     run_bind (run_guard (16 \<le> sz)) (\<lambda>_.
     Done ((addr, sz) # regions))))"

definition alloc_from_region :: "region \<Rightarrow> nat \<Rightarrow> nat \<Rightarrow> nat option run" where
  "alloc_from_region region sz align =
     run_bind (heap_align_up (fst region) align) (\<lambda>alloc_start.
     case usize_checked_add alloc_start sz of None \<Rightarrow> Done None
     | Some alloc_end \<Rightarrow>
         run_bind (usize_add (fst region) (snd region)) (\<lambda>end_addr.
         if end_addr < alloc_end then Done None else
         run_bind (usize_sub end_addr alloc_end) (\<lambda>excess.
         if 0 < excess \<and> excess < 16 then Done None else Done (Some alloc_start))))"

fun find_region :: "region list \<Rightarrow> nat \<Rightarrow> nat \<Rightarrow> ((region \<times> nat) option \<times> region list) run" where
  "find_region [] sz align = Done (None, [])"
| "find_region (r # rs) sz align =
     run_bind (alloc_from_region r sz align) (\<lambda>a. case a of
         Some alloc_start \<Rightarrow> Done (Some (r, alloc_start), rs)
       | None \<Rightarrow> run_bind (find_region rs sz align) (\<lambda>(found, rs'). Done (found, r # rs')))"

text \<open>\<open>Layout::align_to\<close> fails when the padded size would exceed \<open>isize::MAX\<close>.\<close>

definition size_align :: "layout \<Rightarrow> (nat \<times> nat) run" where
  "size_align l = (let align = max (la_align l) 8 in
     run_bind (run_guard (la_size l + (align - 1) \<le> isize_max)) (\<lambda>_.
     Done (max (round_up align (la_size l)) 16, align)))"

definition ll_allocate :: "layout \<Rightarrow> region list \<Rightarrow> (nat \<times> region list) run" where
  "ll_allocate l regions =
     run_bind (size_align l) (\<lambda>(sz, align).
     run_bind (find_region regions sz align) (\<lambda>(found, regions). case found of
         None \<Rightarrow> Done (0, regions)
       | Some (region, alloc_start) \<Rightarrow>
           run_bind (usize_add alloc_start sz) (\<lambda>alloc_end.
           run_bind (usize_add (fst region) (snd region)) (\<lambda>end_addr.
           run_bind (usize_sub end_addr alloc_end) (\<lambda>excess.
           if 0 < excess then
             run_bind (add_free_region alloc_end excess regions) (\<lambda>regions. Done (alloc_start, regions))
           else Done (alloc_start, regions))))))"

definition ll_deallocate :: "nat \<Rightarrow> layout \<Rightarrow> region list \<Rightarrow> region list run" where
  "ll_deallocate ptr l regions =
     run_bind (size_align l) (\<lambda>(sz, _). add_free_region ptr sz regions)"

definition BLOCK_SIZES :: "nat list" where
  "BLOCK_SIZES = [8, 16, 32, 64, 128, 256, 512, 1024, 2048]"

record fsb =
  list_heads :: "nat list list"
  fallback :: "region list"

definition fsb_new :: fsb where
  "fsb_new = \<lparr>list_heads = replicate 9 [], fallback = []\<rparr>"

definition fsb_init :: "nat \<Rightarrow> nat \<Rightarrow> fsb \<Rightarrow> fsb run" where
  "fsb_init heap_start heap_size a =
     run_bind (add_free_region heap_start heap_size (fallback a)) (\<lambda>rs. Done (a\<lparr>fallback := rs\<rparr>))"

definition list_index :: "layout \<Rightarrow> nat option" where
  "list_index l = position (\<lambda>s. max (la_size l) (la_align l) \<le> s) BLOCK_SIZES"

definition fallback_alloc :: "layout \<Rightarrow> fsb \<Rightarrow> (nat \<times> fsb) run" where
  "fallback_alloc l a = run_bind (ll_allocate l (fallback a)) (\<lambda>(p, rs). Done (p, a\<lparr>fallback := rs\<rparr>))"

definition fsb_alloc :: "layout \<Rightarrow> fsb \<Rightarrow> (nat \<times> fsb) run" where
  "fsb_alloc l a = (case list_index l of
       Some index \<Rightarrow> (case list_heads a ! index of
           node # rest \<Rightarrow> Done (node, a\<lparr>list_heads := (list_heads a)[index := rest]\<rparr>)
         | [] \<Rightarrow> fallback_alloc \<lparr>la_size = BLOCK_SIZES ! index, la_align = BLOCK_SIZES ! index\<rparr> a)
     | None \<Rightarrow> fallback_alloc l a)"

definition fsb_dealloc :: "nat \<Rightarrow> layout \<Rightarrow> fsb \<Rightarrow> fsb run" where
  "fsb_dealloc ptr l a = (case list_index l of
       Some index \<Rightarrow> run_bind (run_guard (8 \<le> BLOCK_SIZES ! index)) (\<lambda>_.
         Done (a\<lparr>list_heads := (list_heads a)[index := ptr # list_heads a ! index]\<rparr>))
     | None \<Rightarrow> run_bind (ll_deallocate ptr l (fallback a)) (\<lambda>rs. Done (a\<lparr>fallback := rs\<rparr>)))"


section \<open>The linked-list allocator\<close>

lemma heap_align_up_Done:
  assumes "align = 2 ^ k" "addr + align < usize_limit"
  shows "heap_align_up addr align = Done (round_up align addr)"
proof -
  have k: "k < 64"
  proof (rule ccontr)
    assume "\<not> k < 64"
    then have "(2 :: nat) ^ 64 \<le> 2 ^ k" by (intro power_increasing) simp_all
    with assms show False by simp
  qed
  have "(of_nat (2 ^ k - 1) :: u64) = 2 ^ k - 1" by (simp add: of_nat_diff)
  moreover have "unat (of_nat (addr + 2 ^ k - 1) :: u64) = addr + 2 ^ k - 1"
    using assms by (intro unat_of_nat_u64) simp
  ultimately have "unat (of_nat (addr + 2 ^ k - 1) AND NOT (of_nat (2 ^ k - 1)) :: u64) = round_up (2 ^ k) addr"
    using unat_and_not_mask[of k "of_nat (addr + 2 ^ k - 1) :: u64"] k by (simp add: round_up_def)
  moreover have "usize_add addr (2 ^ k) = Done (addr + 2 ^ k)" "usize_sub (addr + 2 ^ k) 1 = Done (addr + 2 ^ k - 1)"
    "usize_sub (2 ^ k) 1 = Done (2 ^ k - 1)"
    using assms by (simp_all add: usize_add_def usize_sub_def Suc_le_eq)
  ultimately show ?thesis unfolding heap_align_up_def assms(1) by (simp only: run_bind_simps)
qed

text \<open>How many of a list of pieces of memory contain an address.\<close>

definition inside :: "nat \<Rightarrow> region \<Rightarrow> bool" where
  "inside x r \<longleftrightarrow> fst r \<le> x \<and> x < fst r + snd r"

definition cover :: "region list \<Rightarrow> nat \<Rightarrow> nat" where
  "cover rs x = length (filter (inside x) rs)"

lemma cover_simps [simp]:
  "cover [] x = 0" "cover (r # rs) x = (if inside x r then 1 else 0) + cover rs x"
  "cover (rs @ qs) x = cover rs x + cover qs x"
  by (simp_all add: cover_def)

lemma cover_mem: "r \<in> set rs \<Longrightarrow> inside x r \<Longrightarrow> 1 \<le> cover rs x"
  by (induction rs) auto

definition regions_ok :: "nat \<Rightarrow> nat \<Rightarrow> region list \<Rightarrow> bool" where
  "regions_ok lo hi rs \<longleftrightarrow> (\<forall>r\<in>set rs. 8 dvd fst r \<and> 16 \<le> snd r \<and> lo \<le> fst r \<and> fst r + snd r \<le> hi)"

lemma regions_ok_simps [simp]:
  "regions_ok lo hi []"
  "regions_ok lo hi (r # rs) \<longleftrightarrow>
     8 dvd fst r \<and> 16 \<le> snd r \<and> lo \<le> fst r \<and> fst r + snd r \<le> hi \<and> regions_ok lo hi rs"
  by (auto simp: regions_ok_def)

lemma add_free_region_Done:
  assumes "8 dvd addr" "16 \<le> sz" "addr + 8 < usize_limit"
  shows "add_free_region addr sz rs = Done ((addr, sz) # rs)"
  using assms heap_align_up_Done[of 8 3 addr] by (simp add: add_free_region_def round_up_id)

lemma alloc_from_region_spec:
  assumes "align = 2 ^ k" "fst r + align < usize_limit" "fst r + snd r < usize_limit"
  shows "\<exists>x. alloc_from_region r sz align = Done x \<and> (\<forall>p. x = Some p \<longrightarrow>
    p = round_up align (fst r) \<and> p + sz \<le> fst r + snd r
    \<and> (fst r + snd r = p + sz \<or> p + sz + 16 \<le> fst r + snd r))"
  using assms(3) heap_align_up_Done[OF assms(1,2)]
  by (auto simp: alloc_from_region_def usize_add_def usize_sub_def usize_checked_add_def Let_def split: option.splits)

lemma find_region_spec:
  assumes "align = 2 ^ k" "hi + align < usize_limit" "regions_ok lo hi rs"
  shows "\<exists>found rs'. find_region rs sz align = Done (found, rs') \<and> regions_ok lo hi rs'
    \<and> (case found of None \<Rightarrow> rs' = rs
       | Some (r, p) \<Rightarrow> p = round_up align (fst r) \<and> p + sz \<le> fst r + snd r \<and> regions_ok lo hi [r]
           \<and> (fst r + snd r = p + sz \<or> p + sz + 16 \<le> fst r + snd r)
           \<and> (\<forall>x. cover rs x = cover (r # rs') x))"
  using assms(3)
proof (induction rs)
  case (Cons r rs)
  from Cons.prems assms(2) alloc_from_region_spec[OF assms(1), of r sz] obtain x where
    x: "alloc_from_region r sz align = Done x" "\<forall>p. x = Some p \<longrightarrow>
      p = round_up align (fst r) \<and> p + sz \<le> fst r + snd r
      \<and> (fst r + snd r = p + sz \<or> p + sz + 16 \<le> fst r + snd r)" by auto
  show ?case
  proof (cases x)
    case None
    from Cons obtain found rs' where f: "find_region rs sz align = Done (found, rs')" "regions_ok lo hi rs'"
      "case found of None \<Rightarrow> rs' = rs
       | Some (r, p) \<Rightarrow> p = round_up align (fst r) \<and> p + sz \<le> fst r + snd r \<and> regions_ok lo hi [r]
           \<and> (fst r + snd r = p + sz \<or> p + sz + 16 \<le> fst r + snd r)
           \<and> (\<forall>x. cover rs x = cover (r # rs') x)" by auto
    with x None Cons.prems show ?thesis by (cases found) (auto split: prod.splits)
  qed (use x Cons.prems in auto)
qed simp

text \<open>A layout whose alignment is a power of two and whose size is far from the limits.\<close>

definition layout_ok :: "nat \<Rightarrow> layout \<Rightarrow> bool" where
  "layout_ok hi l \<longleftrightarrow> (\<exists>k. la_align l = 2 ^ k) \<and> hi + max (la_align l) 8 < usize_limit
     \<and> la_size l + max (la_align l) 8 \<le> isize_max"

definition ll_size :: "layout \<Rightarrow> nat" where
  "ll_size l = max (round_up (max (la_align l) 8) (la_size l)) 16"

lemma max_align_power:
  assumes "la_align l = 2 ^ k"
  shows "\<exists>j. max (la_align l) 8 = 2 ^ j" and "8 dvd max (la_align l) 8" and "la_align l dvd max (la_align l) 8"
proof -
  have "2 ^ k \<le> (2 :: nat) ^ 3 \<longleftrightarrow> k \<le> 3" by (rule power_increasing_iff) simp
  then have m: "max (la_align l) 8 = 2 ^ max k 3" using assms by (auto simp: max_def)
  then show "\<exists>j. max (la_align l) 8 = 2 ^ j" by blast
  have "(2 :: nat) ^ 3 dvd 2 ^ max k 3" "(2 :: nat) ^ k dvd 2 ^ max k 3" by (rule le_imp_power_dvd, simp)+
  then show "8 dvd max (la_align l) 8" "la_align l dvd max (la_align l) 8" using m assms by simp_all
qed

lemma ll_size_props:
  assumes "la_align l = 2 ^ k"
  shows "8 dvd ll_size l" "16 \<le> ll_size l" "la_size l \<le> ll_size l"
proof -
  have "max (la_align l) 8 dvd round_up (max (la_align l) 8) (la_size l)" by (rule round_up_props) simp
  with max_align_power(2)[OF assms] have "8 dvd round_up (max (la_align l) 8) (la_size l)"
    using dvd_trans by blast
  then show "8 dvd ll_size l" by (simp add: ll_size_def max_def)
  show "16 \<le> ll_size l" by (simp add: ll_size_def)
  have "la_size l \<le> round_up (max (la_align l) 8) (la_size l)" by (rule round_up_props) simp
  then show "la_size l \<le> ll_size l" by (simp add: ll_size_def)
qed

lemma size_align_Done: "layout_ok hi l \<Longrightarrow> size_align l = Done (ll_size l, max (la_align l) 8)"
proof -
  assume "layout_ok hi l"
  then have "la_size l + max (la_align l) 8 \<le> isize_max" by (simp add: layout_ok_def)
  then have "la_size l + (max (la_align l) 8 - 1) \<le> isize_max" by linarith
  then show ?thesis by (simp add: size_align_def ll_size_def Let_def)
qed

lemma ll_allocate_spec:
  assumes "layout_ok hi l" "regions_ok lo hi rs" "0 < lo"
  shows "\<exists>p rs'. ll_allocate l rs = Done (p, rs') \<and> regions_ok lo hi rs'
    \<and> (p = 0 \<and> rs' = rs \<or> p \<noteq> 0 \<and> la_align l dvd p \<and> 8 dvd p
       \<and> (\<forall>x. cover ((p, ll_size l) # rs') x \<le> cover rs x))"
proof -
  obtain k where k: "la_align l = 2 ^ k" and lim: "hi + max (la_align l) 8 < usize_limit"
    using assms(1) by (auto simp: layout_ok_def)
  obtain j where j: "max (la_align l) 8 = 2 ^ j" using max_align_power(1)[OF k] by blast
  note sz = ll_size_props[OF k]
  from find_region_spec[OF j _ assms(2), of "ll_size l"] lim obtain found rs' where
    f: "find_region rs (ll_size l) (max (la_align l) 8) = Done (found, rs')" "regions_ok lo hi rs'"
      "case found of None \<Rightarrow> rs' = rs
       | Some (r, p) \<Rightarrow> p = round_up (max (la_align l) 8) (fst r) \<and> p + ll_size l \<le> fst r + snd r \<and> regions_ok lo hi [r]
           \<and> (fst r + snd r = p + ll_size l \<or> p + ll_size l + 16 \<le> fst r + snd r)
           \<and> (\<forall>x. cover rs x = cover (r # rs') x)" by auto
  show ?thesis
  proof (cases found)
    case None
    with f size_align_Done[OF assms(1)] show ?thesis by (simp add: ll_allocate_def)
  next
    case (Some q)
    then obtain r p where q: "found = Some (r, p)" by (cases q) simp
    with f(3) have r: "p = round_up (max (la_align l) 8) (fst r)" "p + ll_size l \<le> fst r + snd r"
      "lo \<le> fst r" "fst r + snd r \<le> hi" "fst r + snd r = p + ll_size l \<or> p + ll_size l + 16 \<le> fst r + snd r"
      "\<And>x. cover rs x = cover (r # rs') x" by auto
    have p: "max (la_align l) 8 dvd p" "fst r \<le> p" using round_up_props(1,2)[of "max (la_align l) 8" "fst r"] r(1) by simp_all
    then have d: "la_align l dvd p" "8 dvd p" using max_align_power(2,3)[OF k] dvd_trans by blast+
    define e where "e = p + ll_size l"
    have ae: "add_free_region e (fst r + snd r - e) rs' = Done ((e, fst r + snd r - e) # rs')"
      if "e < fst r + snd r"
      using that r(2,4,5) lim d(2) sz(1) by (intro add_free_region_Done) (auto simp: e_def)
    have c: "cover ((p, ll_size l) # rs') x \<le> cover rs x"
      "cover ((p, ll_size l) # (e, fst r + snd r - e) # rs') x \<le> cover rs x" for x
      using r(2,6) p(2) by (auto simp: inside_def e_def)
    have ok: "regions_ok lo hi ((e, fst r + snd r - e) # rs')" if "e < fst r + snd r"
      using that f(2) r(2-5) p(2) d(2) sz(1) by (auto simp: e_def)
    have "ll_allocate l rs = Done (p, if e < fst r + snd r then (e, fst r + snd r - e) # rs' else rs')"
      using size_align_Done[OF assms(1)] f(1) q r(2,4) lim ae
      by (auto simp: ll_allocate_def usize_add_def usize_sub_def e_def)
    with c ok f(2) d p(2) r(3) assms(3) show ?thesis by auto
  qed
qed

lemma ll_deallocate_Done:
  assumes "layout_ok hi l" "8 dvd p" "p + 8 < usize_limit"
  shows "ll_deallocate p l rs = Done ((p, ll_size l) # rs)"
proof -
  obtain k where "la_align l = 2 ^ k" using assms(1) by (auto simp: layout_ok_def)
  from ll_size_props(2)[OF this] assms show ?thesis
    by (simp add: ll_deallocate_def size_align_Done add_free_region_Done)
qed


section \<open>The fixed-size block allocator\<close>

definition block_ext :: "nat \<Rightarrow> nat" where
  "block_ext i = max (BLOCK_SIZES ! i) 16"

text \<open>The bytes an allocation of a layout occupies.\<close>

definition ext :: "layout \<Rightarrow> nat" where
  "ext l = (case list_index l of Some i \<Rightarrow> block_ext i | None \<Rightarrow> ll_size l)"

fun blocks_from :: "nat \<Rightarrow> nat list list \<Rightarrow> region list" where
  "blocks_from i [] = []"
| "blocks_from i (h # hs) = map (\<lambda>p. (p, block_ext i)) h @ blocks_from (i + 1) hs"

type_synonym heap = "fsb \<times> (nat \<times> layout) list"

definition live_pieces :: "(nat \<times> layout) list \<Rightarrow> region list" where
  "live_pieces live = map (\<lambda>(p, l). (p, ext l)) live"

definition heads_ok :: "nat list list \<Rightarrow> bool" where
  "heads_ok hs \<longleftrightarrow> length hs = 9 \<and> (\<forall>i<9. \<forall>p\<in>set (hs ! i). BLOCK_SIZES ! i dvd p \<and> 8 dvd p)"

definition live_ok :: "nat \<Rightarrow> (nat \<times> layout) list \<Rightarrow> bool" where
  "live_ok hi live \<longleftrightarrow> (\<forall>(p, l)\<in>set live. layout_ok hi l \<and> la_align l dvd p \<and> 8 dvd p
     \<and> (\<forall>i. list_index l = Some i \<longrightarrow> BLOCK_SIZES ! i dvd p))"

definition heap_inv :: "nat \<Rightarrow> nat \<Rightarrow> heap \<Rightarrow> bool" where
  "heap_inv lo hi h \<longleftrightarrow> 0 < lo \<and> regions_ok lo hi (fallback (fst h)) \<and> heads_ok (list_heads (fst h))
     \<and> live_ok hi (snd h)
     \<and> (\<forall>x. cover (fallback (fst h) @ blocks_from 0 (list_heads (fst h)) @ live_pieces (snd h)) x
          \<le> (if lo \<le> x \<and> x < hi then 1 else 0))"

lemma block_size_power: "i < 9 \<Longrightarrow> BLOCK_SIZES ! i = 2 ^ (i + 3)"
proof -
  assume "i < 9"
  then have "i \<in> set [0..<9]" by simp
  then show ?thesis by (auto simp: BLOCK_SIZES_def upt_conv_Cons)
qed

lemma list_index_Some:
  assumes "list_index l = Some i"
  shows "i < 9" "la_size l \<le> BLOCK_SIZES ! i" "la_align l \<le> BLOCK_SIZES ! i"
  using position_SomeD[OF assms[unfolded list_index_def]] by (auto simp: BLOCK_SIZES_def)

lemma power_dvd_block:
  assumes "la_align l = 2 ^ k" "list_index l = Some i"
  shows "la_align l dvd BLOCK_SIZES ! i"
proof -
  have "(2 :: nat) ^ k \<le> 2 ^ (i + 3)" using list_index_Some[OF assms(2)] assms(1) block_size_power by simp
  then have "k \<le> i + 3" by (simp add: power_increasing_iff)
  then show ?thesis using assms list_index_Some(1)[OF assms(2)] by (simp add: block_size_power le_imp_power_dvd)
qed

lemma cover_blocks_update:
  "j < length hs \<Longrightarrow> hs ! j = p # rest \<Longrightarrow>
   cover (blocks_from i hs) x = cover ((p, block_ext (i + j)) # blocks_from i (hs[j := rest])) x"
proof (induction hs arbitrary: i j)
  case (Cons h hs)
  then show ?case by (cases j) auto
qed simp

lemma cover_live_remove:
  "(p, l) \<in> set live \<Longrightarrow> cover (live_pieces live) x = cover ((p, ext l) # live_pieces (remove1 (p, l) live)) x"
  by (induction live) (auto simp: live_pieces_def)

lemma ext_props:
  assumes "la_align l = 2 ^ k"
  shows "16 \<le> ext l" "la_size l \<le> ext l"
  using ll_size_props[OF assms] list_index_Some(2)[of l]
  by (auto simp: ext_def block_ext_def max_def split: option.splits intro: order_trans)

lemma heap_inv_cover:
  "heap_inv lo hi (a, live) \<Longrightarrow> cover (fallback a) x + cover (blocks_from 0 (list_heads a)) x + cover (live_pieces live) x
    \<le> (if lo \<le> x \<and> x < hi then 1 else 0)"
  by (simp add: heap_inv_def add.assoc)

lemma live_in_heap:
  assumes "heap_inv lo hi (a, live)" "(p, l) \<in> set live"
  shows "lo \<le> p" "p + ext l \<le> hi"
proof -
  obtain k where k: "la_align l = 2 ^ k" using assms by (auto simp: heap_inv_def live_ok_def layout_ok_def)
  have m: "(p, ext l) \<in> set (live_pieces live)" using assms(2) by (force simp: live_pieces_def)
  have in_heap: "lo \<le> x \<and> x < hi" if "inside x (p, ext l)" for x
    using cover_mem[OF m that] heap_inv_cover[OF assms(1), of x] by (auto split: if_splits)
  have "inside p (p, ext l)" "inside (p + ext l - 1) (p, ext l)"
    using ext_props(1)[OF k] by (auto simp: inside_def)
  from in_heap[OF this(1)] in_heap[OF this(2)] ext_props(1)[OF k] show "lo \<le> p" "p + ext l \<le> hi"
    by linarith+
qed

lemma heap_invI:
  assumes "0 < lo" "regions_ok lo hi (fallback a)" "heads_ok (list_heads a)" "live_ok hi live"
    "\<And>x. cover (fallback a) x + cover (blocks_from 0 (list_heads a)) x + cover (live_pieces live) x
      \<le> (if lo \<le> x \<and> x < hi then 1 else 0)"
  shows "heap_inv lo hi (a, live)"
  using assms by (simp add: heap_inv_def add.assoc)

lemma ll_size_block:
  assumes "i < 9"
  shows "ll_size \<lparr>la_size = BLOCK_SIZES ! i, la_align = BLOCK_SIZES ! i\<rparr> = block_ext i"
proof -
  have "(2 :: nat) ^ 3 \<le> 2 ^ (i + 3)" by (intro power_increasing) simp_all
  then have "max (BLOCK_SIZES ! i) 8 = BLOCK_SIZES ! i" using assms by (simp add: block_size_power)
  then show ?thesis by (simp add: ll_size_def block_ext_def round_up_id block_size_power[OF assms])
qed

lemma block_layout_ok:
  assumes "i < 9" "hi + 2048 < usize_limit"
  shows "layout_ok hi \<lparr>la_size = BLOCK_SIZES ! i, la_align = BLOCK_SIZES ! i\<rparr>"
proof -
  have "(2 :: nat) ^ (i + 3) \<le> 2 ^ 11" using assms(1) by (intro power_increasing) simp_all
  then show ?thesis using assms by (auto simp: layout_ok_def block_size_power)
qed

lemma fallback_alloc_spec:
  assumes "heap_inv lo hi (a, live)" "layout_ok hi l'" "layout_ok hi l" "ext l = ll_size l'" "la_align l dvd la_align l'"
    "\<And>i. list_index l = Some i \<Longrightarrow> BLOCK_SIZES ! i dvd la_align l'"
  shows "\<exists>p a'. fallback_alloc l' a = Done (p, a') \<and> (p = 0 \<and> a' = a \<or> p \<noteq> 0 \<and> heap_inv lo hi (a', (p, l) # live))"
proof -
  have inv: "0 < lo" "regions_ok lo hi (fallback a)" "heads_ok (list_heads a)" "live_ok hi live"
    using assms(1) by (auto simp: heap_inv_def)
  from ll_allocate_spec[OF assms(2) inv(2,1)] obtain p rs where
    p: "ll_allocate l' (fallback a) = Done (p, rs)" "regions_ok lo hi rs"
      "p = 0 \<and> rs = fallback a \<or> p \<noteq> 0 \<and> la_align l' dvd p \<and> 8 dvd p
       \<and> (\<forall>x. cover ((p, ll_size l') # rs) x \<le> cover (fallback a) x)" by blast
  show ?thesis
  proof (cases "p = 0")
    case True
    with p show ?thesis by (simp add: fallback_alloc_def)
  next
    case False
    with p(3) have q: "la_align l' dvd p" "8 dvd p" "\<And>x. cover ((p, ll_size l') # rs) x \<le> cover (fallback a) x" by auto
    have "heap_inv lo hi (a\<lparr>fallback := rs\<rparr>, (p, l) # live)"
    proof (rule heap_invI)
      show "live_ok hi ((p, l) # live)" using inv(4) q(1,2) assms(3,5,6) dvd_trans unfolding live_ok_def by fastforce
      fix x
      show "cover (fallback (a\<lparr>fallback := rs\<rparr>)) x + cover (blocks_from 0 (list_heads (a\<lparr>fallback := rs\<rparr>))) x
          + cover (live_pieces ((p, l) # live)) x \<le> (if lo \<le> x \<and> x < hi then 1 else 0)"
        using heap_inv_cover[OF assms(1), of x] q(3)[of x] assms(4) by (simp add: live_pieces_def)
    qed (use inv p(2) in simp_all)
    with False p(1) show ?thesis by (simp add: fallback_alloc_def)
  qed
qed

lemma fsb_alloc_spec:
  assumes "heap_inv lo hi (a, live)" "layout_ok hi l" "hi + 2048 < usize_limit"
  shows "\<exists>p a'. fsb_alloc l a = Done (p, a') \<and> (p = 0 \<and> a' = a \<or> p \<noteq> 0 \<and> heap_inv lo hi (a', (p, l) # live))"
proof (cases "list_index l")
  case None
  with fallback_alloc_spec[OF assms(1,2,2)] show ?thesis by (simp add: fsb_alloc_def ext_def)
next
  case (Some i)
  obtain k where k: "la_align l = 2 ^ k" using assms(2) by (auto simp: layout_ok_def)
  have i: "i < 9" by (rule list_index_Some[OF Some])
  have inv: "0 < lo" "regions_ok lo hi (fallback a)" "heads_ok (list_heads a)" "live_ok hi live"
    using assms(1) by (auto simp: heap_inv_def)
  show ?thesis
  proof (cases "list_heads a ! i")
    case Nil
    with fallback_alloc_spec[OF assms(1) block_layout_ok[OF i assms(3)] assms(2)] Some
      power_dvd_block[OF k Some] ll_size_block[OF i]
    show ?thesis by (simp add: fsb_alloc_def ext_def)
  next
    case (Cons p rest)
    let ?a = "a\<lparr>list_heads := (list_heads a)[i := rest]\<rparr>"
    have h: "length (list_heads a) = 9" "BLOCK_SIZES ! i dvd p" "8 dvd p"
      using inv(3) i Cons by (auto simp: heads_ok_def)
    have ok: "heads_ok (list_heads ?a)" using inv(3) i Cons by (auto simp: heads_ok_def nth_list_update)
    have dv: "la_align l dvd p" using power_dvd_block[OF k Some] h(2) dvd_trans by blast
    have hi: "heap_inv lo hi (?a, (p, l) # live)"
    proof (rule heap_invI[OF inv(1) _ ok])
      show "live_ok hi ((p, l) # live)" using inv(4) dv h(2,3) assms(2) Some by (auto simp: live_ok_def)
      fix x
      show "cover (fallback ?a) x + cover (blocks_from 0 (list_heads ?a)) x + cover (live_pieces ((p, l) # live)) x
          \<le> (if lo \<le> x \<and> x < hi then 1 else 0)"
        using heap_inv_cover[OF assms(1), of x] cover_blocks_update[of i "list_heads a" p rest 0 x] i h(1) Cons Some
        by (simp add: live_pieces_def ext_def)
    qed (use inv in simp)
    from live_in_heap(1)[OF hi, of p l] inv(1) have "p \<noteq> 0" by auto
    with hi show ?thesis using Some Cons by (simp add: fsb_alloc_def)
  qed
qed

lemma fsb_dealloc_spec:
  assumes "heap_inv lo hi (a, live)" "(p, l) \<in> set live" "hi + 2048 < usize_limit"
  shows "\<exists>a'. fsb_dealloc p l a = Done a' \<and> heap_inv lo hi (a', remove1 (p, l) live)"
proof -
  have inv: "0 < lo" "regions_ok lo hi (fallback a)" "heads_ok (list_heads a)" "live_ok hi live"
    using assms(1) by (auto simp: heap_inv_def)
  have l: "layout_ok hi l" "la_align l dvd p" "8 dvd p" using inv(4) assms(2) by (auto simp: live_ok_def)
  obtain k where k: "la_align l = 2 ^ k" using l(1) by (auto simp: layout_ok_def)
  note b = live_in_heap[OF assms(1,2)] and e = ext_props[OF k]
  have lv: "live_ok hi (remove1 (p, l) live)" using inv(4) by (auto simp: live_ok_def dest: notin_set_remove1)
  show ?thesis
  proof (cases "list_index l")
    case None
    let ?a = "a\<lparr>fallback := (p, ll_size l) # fallback a\<rparr>"
    have "heap_inv lo hi (?a, remove1 (p, l) live)"
    proof (rule heap_invI[OF inv(1) _ _ lv])
      show "regions_ok lo hi (fallback ?a)" using inv(2) l(3) b e None by (simp add: ext_def)
      fix x
      show "cover (fallback ?a) x + cover (blocks_from 0 (list_heads ?a)) x + cover (live_pieces (remove1 (p, l) live)) x
          \<le> (if lo \<le> x \<and> x < hi then 1 else 0)"
        using heap_inv_cover[OF assms(1), of x] cover_live_remove[OF assms(2), of x] None by (simp add: ext_def)
    qed (use inv in simp)
    moreover have "p + 8 < usize_limit" using b(2) e(1) assms(3) by linarith
    ultimately show ?thesis using None ll_deallocate_Done[OF l(1,3)] by (simp add: fsb_dealloc_def)
  next
    case (Some i)
    have i: "i < 9" by (rule list_index_Some[OF Some])
    let ?a = "a\<lparr>list_heads := (list_heads a)[i := p # list_heads a ! i]\<rparr>"
    have g: "8 \<le> BLOCK_SIZES ! i" using i power_increasing[of 3 "i + 3" "2 :: nat"] by (simp add: block_size_power)
    have d: "BLOCK_SIZES ! i dvd p" using inv(4) assms(2) Some by (auto simp: live_ok_def)
    have h: "length (list_heads a) = 9" using inv(3) by (simp add: heads_ok_def)
    have ok: "heads_ok (list_heads ?a)" using inv(3) i d l(3) by (auto simp: heads_ok_def nth_list_update)
    have "heap_inv lo hi (?a, remove1 (p, l) live)"
    proof (rule heap_invI[OF inv(1) _ ok lv])
      fix x
      show "cover (fallback ?a) x + cover (blocks_from 0 (list_heads ?a)) x + cover (live_pieces (remove1 (p, l) live)) x
          \<le> (if lo \<le> x \<and> x < hi then 1 else 0)"
        using heap_inv_cover[OF assms(1), of x] cover_live_remove[OF assms(2), of x] Some i h
          cover_blocks_update[of i "list_heads ?a" p "list_heads a ! i" 0 x] by (simp add: ext_def)
    qed (use inv in simp)
    with Some g show ?thesis by (simp add: fsb_dealloc_def)
  qed
qed


section \<open>Runs of the heap\<close>

datatype heap_op = HAlloc layout | HFree nat layout

inductive heap_step :: "heap_op \<Rightarrow> heap \<Rightarrow> heap \<Rightarrow> bool" where
  step_alloc: "fsb_alloc l a = Done (p, a') \<Longrightarrow> p \<noteq> 0 \<Longrightarrow> heap_step (HAlloc l) (a, live) (a', (p, l) # live)"
| step_full: "fsb_alloc l a = Done (0, a') \<Longrightarrow> heap_step (HAlloc l) (a, live) (a', live)"
| step_free: "(p, l) \<in> set live \<Longrightarrow> fsb_dealloc p l a = Done a' \<Longrightarrow>
    heap_step (HFree p l) (a, live) (a', remove1 (p, l) live)"

inductive_cases heap_step_allocE: "heap_step (HAlloc l) h h'"
inductive_cases heap_step_freeE: "heap_step (HFree p l) h h'"

inductive heap_steps :: "heap_op list \<Rightarrow> heap \<Rightarrow> heap \<Rightarrow> bool" where
  "heap_steps [] h h"
| "heap_step op h h' \<Longrightarrow> heap_steps ops h' h'' \<Longrightarrow> heap_steps (op # ops) h h''"

fun op_ok :: "nat \<Rightarrow> heap_op \<Rightarrow> bool" where
  "op_ok hi (HAlloc l) \<longleftrightarrow> layout_ok hi l"
| "op_ok hi (HFree p l) \<longleftrightarrow> True"

lemma heap_step_inv:
  assumes "heap_step op h h'" "heap_inv lo hi h" "op_ok hi op" "hi + 2048 < usize_limit"
  shows "heap_inv lo hi h'"
  using assms
proof (cases rule: heap_step.cases)
  case (step_alloc l a p a' live)
  then show ?thesis using fsb_alloc_spec[of lo hi a live l] assms(2-4) by auto
next
  case (step_full l a a' live)
  then show ?thesis using fsb_alloc_spec[of lo hi a live l] assms(2-4) by auto
next
  case (step_free p l live a a')
  then show ?thesis using fsb_dealloc_spec[of lo hi a live p l] assms(2-4) by auto
qed

lemma heap_steps_inv:
  assumes "heap_steps ops h h'" "heap_inv lo hi h" "\<forall>op\<in>set ops. op_ok hi op" "hi + 2048 < usize_limit"
  shows "heap_inv lo hi h'"
  using assms by (induction rule: heap_steps.induct) (auto dest: heap_step_inv)

lemma fsb_init_inv:
  assumes "8 dvd lo" "0 < lo" "16 \<le> sz" "lo + sz + 2048 < usize_limit"
  shows "\<exists>a. fsb_init lo sz fsb_new = Done a \<and> heap_inv lo (lo + sz) (a, [])"
proof -
  have h: "heads_ok (replicate 9 [])" by (simp add: heads_ok_def)
  have b: "blocks_from i (replicate n []) = []" for i n by (induction n arbitrary: i) simp_all
  have "fsb_init lo sz fsb_new = Done (fsb_new\<lparr>fallback := [(lo, sz)]\<rparr>)"
    using assms by (simp add: fsb_init_def add_free_region_Done fsb_new_def)
  moreover have "heap_inv lo (lo + sz) (fsb_new\<lparr>fallback := [(lo, sz)]\<rparr>, [])"
    using assms h by (intro heap_invI) (simp_all add: fsb_new_def b live_ok_def live_pieces_def inside_def)
  ultimately show ?thesis by blast
qed

definition apart :: "nat \<times> layout \<Rightarrow> nat \<times> layout \<Rightarrow> bool" where
  "apart p q \<longleftrightarrow> fst p + la_size (snd p) \<le> fst q \<or> fst q + la_size (snd q) \<le> fst p"

lemma cover_apart:
  assumes "\<And>x. cover (live_pieces live) x \<le> 1" "live_ok hi live"
  shows "sorted_wrt apart live"
  using assms
proof (induction live)
  case (Cons p live)
  have "apart p q" if q: "q \<in> set live" for q
  proof (rule ccontr)
    assume n: "\<not> apart p q"
    obtain k j where "la_align (snd p) = 2 ^ k" "la_align (snd q) = 2 ^ j"
      using Cons.prems(2) q by (auto simp: live_ok_def layout_ok_def split: prod.splits)
    then have e: "la_size (snd p) \<le> ext (snd p)" "la_size (snd q) \<le> ext (snd q)"
      "16 \<le> ext (snd p)" "16 \<le> ext (snd q)" using ext_props by blast+
    let ?x = "max (fst p) (fst q)"
    have "inside ?x (fst p, ext (snd p))" "inside ?x (fst q, ext (snd q))"
      using n e by (auto simp: apart_def inside_def)
    moreover have "(fst q, ext (snd q)) \<in> set (live_pieces live)" using q by (force simp: live_pieces_def)
    ultimately show False
      using Cons.prems(1)[of ?x] cover_mem[of "(fst q, ext (snd q))" "live_pieces live" ?x]
      by (simp add: live_pieces_def case_prod_beta')
  qed
  moreover have "sorted_wrt apart live"
  proof (rule Cons.IH)
    show "cover (live_pieces live) x \<le> 1" for x
      using Cons.prems(1)[of x] by (simp add: live_pieces_def split: if_splits)
    show "live_ok hi live" using Cons.prems(2) by (simp add: live_ok_def)
  qed
  ultimately show ?case by simp
qed simp


section \<open>Properties\<close>

text \<open>C30: Heap allocations never overlap.  Start the heap on any aligned piece of memory and run any
  sequence of allocations and of deallocations of blocks still in use: the blocks in use are pairwise
  disjoint, each lies inside the heap, is aligned as its layout asks and is not null.\<close>

theorem heap_allocations_disjoint:
  assumes "8 dvd lo" and "0 < lo" and "16 \<le> sz" and "lo + sz + 2048 < usize_limit"
    and "fsb_init lo sz fsb_new = Done a0" and "heap_steps ops (a0, []) (a, live)"
    and "\<forall>op\<in>set ops. op_ok (lo + sz) op"
  shows "sorted_wrt apart live
    \<and> (\<forall>(p, l)\<in>set live. lo \<le> p \<and> p + la_size l \<le> lo + sz \<and> la_align l dvd p)"
proof -
  have inv: "heap_inv lo (lo + sz) (a, live)"
    using fsb_init_inv[OF assms(1-4)] heap_steps_inv[OF assms(6) _ assms(7)] assms(4,5) by simp
  have lv: "live_ok (lo + sz) live" using inv by (simp add: heap_inv_def)
  have "cover (live_pieces live) x \<le> 1" for x
    using heap_inv_cover[OF inv, of x] by (simp split: if_splits)
  then have "sorted_wrt apart live" using lv by (rule cover_apart)
  moreover have "lo \<le> p \<and> p + la_size l \<le> lo + sz \<and> la_align l dvd p" if m: "(p, l) \<in> set live" for p l
  proof -
    from lv m obtain k where "la_align l = 2 ^ k" "la_align l dvd p" by (auto simp: live_ok_def layout_ok_def)
    with ext_props(2) live_in_heap[OF inv m] show ?thesis by (meson add_le_mono order_refl order_trans)
  qed
  ultimately show ?thesis by blast
qed

text \<open>C31: The heap never panics and never fails to take a block back.  In every state such a run can
  reach, an allocation with a proper layout returns a block or null, leaving the heap as it was when
  it is null, and freeing a block in use returns.\<close>

theorem heap_operations_return:
  assumes "8 dvd lo" and "0 < lo" and "16 \<le> sz" and "lo + sz + 2048 < usize_limit"
    and "fsb_init lo sz fsb_new = Done a0" and "heap_steps ops (a0, []) (a, live)"
    and "\<forall>op\<in>set ops. op_ok (lo + sz) op"
  shows "(layout_ok (lo + sz) l \<longrightarrow> (\<exists>p a'. fsb_alloc l a = Done (p, a') \<and> (p = 0 \<longrightarrow> a' = a)))
    \<and> ((p, l) \<in> set live \<longrightarrow> (\<exists>a'. fsb_dealloc p l a = Done a'))"
proof -
  have inv: "heap_inv lo (lo + sz) (a, live)"
    using fsb_init_inv[OF assms(1-4)] heap_steps_inv[OF assms(6) _ assms(7)] assms(4,5) by simp
  from fsb_alloc_spec[OF inv _ assms(4)] fsb_dealloc_spec[OF inv _ assms(4)] show ?thesis by blast
qed

text \<open>A run for the witnesses: allocate two blocks, free the first and allocate its size again.\<close>

definition small :: layout where "small = \<lparr>la_size = 24, la_align = 8\<rparr>"
definition large :: layout where "large = \<lparr>la_size = 4000, la_align = 8\<rparr>"

definition demo_heap :: fsb where
  "demo_heap = \<lparr>list_heads = replicate 9 [], fallback = [(8128, 4160)]\<rparr>"

lemma small_index: "list_index small = Some 2" "list_index large = None"
  by (simp_all add: list_index_def small_def large_def BLOCK_SIZES_def)

lemma demo_heap_run:
  "fsb_init 4096 8192 fsb_new = Done (fsb_new\<lparr>fallback := [(4096, 8192)]\<rparr>)"
  "heap_steps [HAlloc small, HAlloc large, HFree 4096 small, HAlloc small]
     (fsb_new\<lparr>fallback := [(4096, 8192)]\<rparr>, []) (demo_heap, [(4096, small), (4128, large)])"
proof -
  note evals = heap_align_up_def usize_add_def usize_sub_def usize_checked_add_def alloc_from_region_def
    add_free_region_def ll_allocate_def size_align_def round_up_def
  show "fsb_init 4096 8192 fsb_new = Done (fsb_new\<lparr>fallback := [(4096, 8192)]\<rparr>)"
    by (simp add: fsb_init_def add_free_region_def heap_align_up_def usize_add_def usize_sub_def fsb_new_def)
  let ?r = "replicate 9 [] :: nat list list"
  have 9: "?r ! 2 = []" "length ?r = 9" by simp_all
  then have u: "?r[2 := []] = ?r" by (metis list_update_id)
  have b: "BLOCK_SIZES ! 2 = 32" by (simp add: BLOCK_SIZES_def)
  have l1: "ll_allocate \<lparr>la_size = 32, la_align = 32\<rparr> [(4096, 8192)] = Done (4096, [(4128, 8160)])"
    by (simp add: evals Let_def)
  have l2: "ll_allocate large [(4128, 8160)] = Done (4128, [(8128, 4160)])"
    by (simp add: evals Let_def large_def)
  have s1: "heap_step (HAlloc small) (fsb_new\<lparr>fallback := [(4096, 8192)]\<rparr>, [])
      (\<lparr>list_heads = ?r, fallback = [(4128, 8160)]\<rparr>, [(4096, small)])"
    by (rule step_alloc) (simp_all add: fsb_alloc_def small_index fallback_alloc_def b l1 9 fsb_new_def)
  have s2: "heap_step (HAlloc large) (\<lparr>list_heads = ?r, fallback = [(4128, 8160)]\<rparr>, [(4096, small)])
      (demo_heap, [(4128, large), (4096, small)])"
    by (rule step_alloc) (simp_all add: fsb_alloc_def small_index fallback_alloc_def l2 demo_heap_def)
  have s3: "heap_step (HFree 4096 small) (demo_heap, [(4128, large), (4096, small)])
      (demo_heap\<lparr>list_heads := ?r[2 := [4096]]\<rparr>, remove1 (4096, small) [(4128, large), (4096, small)])"
    by (rule step_free) (simp_all add: fsb_dealloc_def small_index b demo_heap_def 9)
  have s4: "heap_step (HAlloc small) (demo_heap\<lparr>list_heads := ?r[2 := [4096]]\<rparr>, [(4128, large)])
      (demo_heap, [(4096, small), (4128, large)])"
    by (rule step_alloc) (simp_all add: fsb_alloc_def small_index demo_heap_def u)
  show "heap_steps [HAlloc small, HAlloc large, HFree 4096 small, HAlloc small]
     (fsb_new\<lparr>fallback := [(4096, 8192)]\<rparr>, []) (demo_heap, [(4096, small), (4128, large)])"
    using s1 s2 s3 s4 by (auto intro!: heap_steps.intros)
qed

lemma demo_layouts: "\<forall>op\<in>set [HAlloc small, HAlloc large, HFree 4096 small, HAlloc small]. op_ok (4096 + 8192) op"
  by (auto simp: small_def large_def layout_ok_def intro: exI[of _ 3])

theorem heap_allocations_disjoint_witness:
  "fsb_init 4096 8192 fsb_new = Done (fsb_new\<lparr>fallback := [(4096, 8192)]\<rparr>)
   \<and> heap_steps [HAlloc small, HAlloc large, HFree 4096 small, HAlloc small]
     (fsb_new\<lparr>fallback := [(4096, 8192)]\<rparr>, []) (demo_heap, [(4096, small), (4128, large)])
   \<and> apart (4096, small) (4128, large)"
  using heap_allocations_disjoint[OF _ _ _ _ demo_heap_run demo_layouts] demo_heap_run by simp

theorem heap_operations_return_witness:
  "\<exists>a'. fsb_dealloc 4128 large demo_heap = Done a'"
  using heap_operations_return[OF _ _ _ _ demo_heap_run demo_layouts, of large 4128] by simp

end
