(* ===== verification/Boot_Info.thy ===== *)
theory Boot_Info
  imports Alignment Console
begin

text \<open>
  What the boot loader hands to the kernel (\<^verbatim>\<open>shared/abi/src/boot.rs\<close>): the boot information record and
  the firmware's memory map, an array of descriptors in memory whose stride is a field of the map.
\<close>

datatype boot_environment = EnvUnknown | EnvUefi
datatype boot_loader_kind = LoaderUnknown | UefiLoader
datatype boot_outcome = ExitSuccess | ExitFailure

definition BOOT_FLAG_BOOT_SERVICES_EXITED :: u32 where "BOOT_FLAG_BOOT_SERVICES_EXITED = 1"
definition MEMORY_TYPE_CONVENTIONAL :: u32 where "MEMORY_TYPE_CONVENTIONAL = 7"
definition MEMORY_TYPE_LOADER_DATA :: u32 where "MEMORY_TYPE_LOADER_DATA = 2"
definition MEMORY_TYPE_BOOT_SERVICES_CODE :: u32 where "MEMORY_TYPE_BOOT_SERVICES_CODE = 3"
definition MEMORY_TYPE_BOOT_SERVICES_DATA :: u32 where "MEMORY_TYPE_BOOT_SERVICES_DATA = 4"

record boot_memory_descriptor =
  bmd_ty :: u32
  bmd_reserved :: u32
  bmd_phys_start :: u64
  bmd_virt_start :: u64
  bmd_page_count :: u64
  bmd_att :: u64

record boot_memory_map =
  mm_descriptors :: u64
  mm_map_size :: nat
  mm_desc_size :: nat
  mm_desc_version :: u32

definition mm_empty :: boot_memory_map where
  "mm_empty = \<lparr>mm_descriptors = 0, mm_map_size = 0, mm_desc_size = 0, mm_desc_version = 0\<rparr>"

definition entry_count :: "boot_memory_map \<Rightarrow> nat" where
  "entry_count m = (if mm_desc_size m = 0 then 0 else mm_map_size m div mm_desc_size m)"

text \<open>The descriptor behind a pointer, with the layout of \<open>repr(C)\<close>: 40 bytes.\<close>

definition read_descriptor :: "memory \<Rightarrow> u64 \<Rightarrow> boot_memory_descriptor" where
  "read_descriptor mem p =
     \<lparr>bmd_ty = le_u32 (read_mem mem p 4), bmd_reserved = le_u32 (read_mem mem (p + 4) 4),
      bmd_phys_start = le_u64 (read_mem mem (p + 8) 8), bmd_virt_start = le_u64 (read_mem mem (p + 16) 8),
      bmd_page_count = le_u64 (read_mem mem (p + 24) 8), bmd_att = le_u64 (read_mem mem (p + 32) 8)\<rparr>"

definition mm_get :: "memory \<Rightarrow> boot_memory_map \<Rightarrow> nat \<Rightarrow> boot_memory_descriptor option" where
  "mm_get mem m index =
     (if entry_count m \<le> index \<or> mm_descriptors m = 0 \<or> mm_desc_size m < 40 then None
      else case usize_checked_mul index (mm_desc_size m) of
          None \<Rightarrow> None
        | Some offset \<Rightarrow> Some (read_descriptor mem (mm_descriptors m + of_nat offset)))"

text \<open>The iterator: the next descriptor and the index after it.\<close>

definition mm_next :: "memory \<Rightarrow> boot_memory_map \<Rightarrow> nat \<Rightarrow> (boot_memory_descriptor \<times> nat) option" where
  "mm_next mem m index = map_option (\<lambda>d. (d, index + 1)) (mm_get mem m index)"

record boot_info =
  bi_abi_version :: u32
  bi_environment :: boot_environment
  bi_loader :: boot_loader_kind
  bi_flags :: u32
  bi_kernel_image_base :: u64
  bi_kernel_image_size :: u64
  bi_physical_memory_offset :: u64
  bi_ramdisk_addr :: u64
  bi_ramdisk_size :: u64
  bi_memory_map :: boot_memory_map
  bi_framebuffer :: boot_framebuffer
  bi_rsdp_addr :: u64

definition boot_info_uefi :: "u32 \<Rightarrow> boot_info" where
  "boot_info_uefi abi_version =
     \<lparr>bi_abi_version = abi_version, bi_environment = EnvUefi, bi_loader = UefiLoader, bi_flags = 0,
      bi_kernel_image_base = 0, bi_kernel_image_size = 0, bi_physical_memory_offset = 0,
      bi_ramdisk_addr = 0, bi_ramdisk_size = 0, bi_memory_map = mm_empty,
      bi_framebuffer = \<lparr>bfb_addr = 0, bfb_size = 0, bfb_width = 0, bfb_height = 0, bfb_pitch = 0, bfb_format = 0\<rparr>,
      bi_rsdp_addr = 0\<rparr>"

definition boot_services_exited :: "boot_info \<Rightarrow> bool" where
  "boot_services_exited b \<longleftrightarrow> bi_flags b AND BOOT_FLAG_BOOT_SERVICES_EXITED \<noteq> 0"

lemma mm_get_index: "mm_get mem m i = Some d \<Longrightarrow> i < entry_count m"
  by (auto simp: mm_get_def split: if_splits)

lemma mm_next_Some: "mm_next mem m i = Some (d, j) \<longleftrightarrow> mm_get mem m i = Some d \<and> j = i + 1"
  by (auto simp: mm_next_def)

end
