(* ===== verification/Frames.thy ===== *)
theory Frames
  imports Boot_Info
begin

text \<open>
  The physical frame allocator (\<^verbatim>\<open>kernel/src/memory.rs\<close>).  A frame is its start address.  The interface
  other components use it through is the locale \<open>frame_source\<close>.
\<close>


section \<open>Definitions\<close>

definition PAGE_SIZE :: u64 where "PAGE_SIZE = 4096"
definition LOW_MEMORY_CUTOFF :: u64 where "LOW_MEMORY_CUTOFF = 0x100000"

record frame_allocator =
  fa_memory_map :: boot_memory_map
  next_address :: u64

record address_range =
  ar_start :: u64
  ar_end :: u64

definition frame_allocator_new :: "boot_info \<Rightarrow> frame_allocator" where
  "frame_allocator_new b = \<lparr>fa_memory_map = bi_memory_map b, next_address = LOW_MEMORY_CUTOFF\<rparr>"

definition usable_range :: "boot_memory_descriptor \<Rightarrow> address_range option" where
  "usable_range d = (case checked_mul (bmd_page_count d) PAGE_SIZE of None \<Rightarrow> None
     | Some len \<Rightarrow> (case checked_add (bmd_phys_start d) len of None \<Rightarrow> None
     | Some e \<Rightarrow> Some \<lparr>ar_start = bmd_phys_start d, ar_end = e\<rparr>))"

definition frame_align_up :: "u64 \<Rightarrow> u64 \<Rightarrow> u64" where
  "frame_align_up v alignment =
     (if alignment = 0 then v
      else case checked_add v (alignment - 1) of
          Some adjusted \<Rightarrow> adjusted AND NOT (alignment - 1)
        | None \<Rightarrow> v)"

definition is_usable :: "boot_memory_descriptor \<Rightarrow> bool" where
  "is_usable d \<longleftrightarrow> bmd_ty d = MEMORY_TYPE_CONVENTIONAL \<or> bmd_ty d = MEMORY_TYPE_BOOT_SERVICES_CODE
     \<or> bmd_ty d = MEMORY_TYPE_BOOT_SERVICES_DATA"

function frame_loop :: "memory \<Rightarrow> frame_allocator \<Rightarrow> nat \<Rightarrow> (u64 option \<times> frame_allocator) run" where
  "frame_loop mem fa index = (case mm_next mem (fa_memory_map fa) index of
       None \<Rightarrow> Done (None, fa)
     | Some (descriptor, index') \<Rightarrow>
         if \<not> is_usable descriptor then frame_loop mem fa index'
         else run_bind (run_the (usable_range descriptor)) (\<lambda>range.
           let candidate = frame_align_up (max (next_address fa) (ar_start range)) PAGE_SIZE in
           if candidate < ar_end range then
             (case checked_add candidate PAGE_SIZE of
                None \<Rightarrow> Done (None, fa)
              | Some n \<Rightarrow> Done (Some candidate, fa\<lparr>next_address := n\<rparr>))
           else frame_loop mem fa index'))"
  by pat_completeness auto
termination
  by (relation "measure (\<lambda>(mem, fa, i). entry_count (fa_memory_map fa) - i)")
     (auto simp: mm_next_Some dest!: mm_get_index intro: diff_less_mono2)

declare frame_loop.simps [simp del]

definition allocate_physical_frame :: "memory \<Rightarrow> frame_allocator \<Rightarrow> (u64 option \<times> frame_allocator) run" where
  "allocate_physical_frame mem fa = frame_loop mem fa 0"

text \<open>The same through the interface of the \<^verbatim>\<open>x86_64\<close> crate, whose physical addresses are checked when they
  are made; the two functions of the crate are the argument \<open>po\<close>.\<close>

record phys_ops =
  pa_new :: "u64 \<Rightarrow> u64 run"
  containing_frame :: "u64 \<Rightarrow> u64"

definition allocate_frame :: "phys_ops \<Rightarrow> memory \<Rightarrow> frame_allocator \<Rightarrow> (u64 option \<times> frame_allocator) run" where
  "allocate_frame po mem fa =
     run_bind (allocate_physical_frame mem fa) (\<lambda>(frame, fa). case frame of
         None \<Rightarrow> Done (None, fa)
       | Some f \<Rightarrow> run_bind (pa_new po f) (\<lambda>a. Done (Some (containing_frame po a), fa)))"


section \<open>Frame sources\<close>

fun take_frames :: "('s \<Rightarrow> (u64 option \<times> 's) run) \<Rightarrow> nat \<Rightarrow> 's \<Rightarrow> (u64 list \<times> 's) run" where
  "take_frames alloc 0 s = Done ([], s)"
| "take_frames alloc (Suc n) s = run_bind (alloc s) (\<lambda>(f, s').
     run_bind (take_frames alloc n s') (\<lambda>(fs, s'').
     Done (case f of Some f \<Rightarrow> f # fs | None \<Rightarrow> fs, s'')))"

fun can_take :: "('s \<Rightarrow> (u64 option \<times> 's) run) \<Rightarrow> nat \<Rightarrow> 's \<Rightarrow> bool" where
  "can_take alloc 0 s = True"
| "can_take alloc (Suc n) s = (case alloc s of Done (Some f, s') \<Rightarrow> can_take alloc n s' | _ \<Rightarrow> False)"

text \<open>What a client may rely on: frames are handed out from an ever higher floor, page aligned, and
  belong to memory that is free to use.\<close>

locale frame_source =
  fixes alloc :: "'s \<Rightarrow> (u64 option \<times> 's) run"
    and frame_floor :: "'s \<Rightarrow> nat"
    and ok :: "'s \<Rightarrow> bool"
    and free_frame :: "'s \<Rightarrow> u64 \<Rightarrow> bool"
  assumes alloc_some: "ok s \<Longrightarrow> alloc s = Done (Some f, s') \<Longrightarrow>
      frame_floor s \<le> unat f \<and> unat f + 4096 \<le> frame_floor s' \<and> 4096 dvd unat f \<and> free_frame s f"
    and alloc_keeps: "ok s \<Longrightarrow> alloc s = Done (r, s') \<Longrightarrow>
      ok s' \<and> frame_floor s \<le> frame_floor s' \<and> free_frame s' = free_frame s"
begin

lemma take_frames_keeps:
  "ok s \<Longrightarrow> take_frames alloc n s = Done (fs, s') \<Longrightarrow>
   ok s' \<and> frame_floor s \<le> frame_floor s' \<and> free_frame s' = free_frame s"
proof (induction n arbitrary: s fs)
  case (Suc n)
  then obtain f t gs where "alloc s = Done (f, t)" "take_frames alloc n t = Done (gs, s')"
    by (auto simp: run_bind_eq_Done)
  with Suc.IH[of t gs] alloc_keeps[of s f t] Suc.prems(1) show ?case by auto
qed simp

text \<open>Frames are never handed out twice: a run of allocations gives increasing, non-overlapping,
  aligned frames of free memory.\<close>

lemma take_frames_spec:
  "ok s \<Longrightarrow> take_frames alloc n s = Done (fs, s') \<Longrightarrow>
   sorted_wrt (\<lambda>f g. unat f + 4096 \<le> unat g) fs
   \<and> (\<forall>f\<in>set fs. frame_floor s \<le> unat f \<and> unat f + 4096 \<le> frame_floor s' \<and> 4096 dvd unat f \<and> free_frame s f)"
proof (induction n arbitrary: s fs)
  case (Suc n)
  then obtain f t gs where f: "alloc s = Done (f, t)" and g: "take_frames alloc n t = Done (gs, s')"
    and fs: "fs = (case f of Some f \<Rightarrow> f # gs | None \<Rightarrow> gs)"
    by (auto simp: run_bind_eq_Done)
  note t = alloc_keeps[OF Suc.prems(1) f]
  note ih = Suc.IH[OF _ g] and k = take_frames_keeps[OF _ g]
  show ?case
  proof (cases f)
    case None
    with ih k t fs show ?thesis by fastforce
  next
    case (Some a)
    with alloc_some[OF Suc.prems(1)] f have "frame_floor s \<le> unat a \<and> unat a + 4096 \<le> frame_floor t
      \<and> 4096 dvd unat a \<and> free_frame s a" by blast
    with ih k t fs Some show ?thesis by (auto intro: order_trans)
  qed
qed simp

end

text \<open>Frames the paging hardware can address: below \<open>2 ^ 52\<close> and page aligned.\<close>

definition phys_frame :: "u64 \<Rightarrow> bool" where
  "phys_frame f \<longleftrightarrow> 4096 dvd unat f \<and> unat f < 0x10000000000000"

locale phys_frame_source = frame_source +
  assumes alloc_phys: "ok s \<Longrightarrow> alloc s = Done (Some f, s') \<Longrightarrow> phys_frame f"

text \<open>What the page-table code needs of its allocator: a frame it gets was not in use, is in use from then
  on, and no frame leaves use.\<close>

locale frame_pool =
  fixes alloc :: "'s \<Rightarrow> (u64 option \<times> 's) run"
    and ok :: "'s \<Rightarrow> bool"
    and taken :: "'s \<Rightarrow> u64 \<Rightarrow> bool"
  assumes pool_fresh: "ok s \<Longrightarrow> alloc s = Done (Some f, s') \<Longrightarrow> \<not> taken s f \<and> taken s' f \<and> phys_frame f"
    and pool_keeps: "ok s \<Longrightarrow> alloc s = Done (r, s') \<Longrightarrow> ok s' \<and> taken s \<le> taken s'"

text \<open>A frame is in use when it lies below the floor or is not free memory at all, like the frames of
  firmware, loader and kernel.\<close>

definition frame_taken :: "nat \<Rightarrow> (u64 \<Rightarrow> bool) \<Rightarrow> u64 \<Rightarrow> bool" where
  "frame_taken lo free f \<longleftrightarrow> unat f < lo \<or> \<not> free f"

sublocale phys_frame_source \<subseteq> pool: frame_pool alloc ok "\<lambda>s. frame_taken (frame_floor s) (free_frame s)"
proof (unfold_locales, goal_cases)
  case (1 s f s')
  then show ?case using alloc_some[of s f s'] alloc_phys[of s f s'] by (auto simp: frame_taken_def)
next
  case (2 s r s')
  then show ?case using alloc_keeps[of s r s'] by (auto simp: frame_taken_def)
qed


section \<open>The frame allocator is a frame source\<close>

lemma usable_range_Some:
  assumes "usable_range d = Some r"
  shows "ar_start r = bmd_phys_start d"
    "unat (ar_end r) = unat (bmd_phys_start d) + unat (bmd_page_count d) * 4096"
  using assms
  by (auto simp: usable_range_def PAGE_SIZE_def split: option.splits dest!: checked_add_Some checked_mul_Some)

lemma frame_align_up_cases:
  "unat (frame_align_up v PAGE_SIZE) = (if unat v + 4095 < usize_limit then round_up 4096 (unat v) else unat v)"
proof -
  have m: "unat (x AND NOT (4096 - 1)) = unat x div 4096 * 4096" for x :: u64
    using unat_and_not_mask[of 12 x] by simp
  have "unat (v + (4096 - 1)) = unat v + 4095" if "unat v + 4095 < usize_limit"
    using that unat_add_no_wrap[of v 4095] by simp
  then show ?thesis
    unfolding frame_align_up_def PAGE_SIZE_def checked_add_def
    using m[of "v + (4096 - 1)"] by (auto simp: round_up_def)
qed

text \<open>The frames of usable memory, and a memory map whose usable ranges are page aligned.\<close>

definition usable_frame :: "memory \<Rightarrow> frame_allocator \<Rightarrow> u64 \<Rightarrow> bool" where
  "usable_frame mem fa f \<longleftrightarrow> (\<exists>i d. mm_get mem (fa_memory_map fa) i = Some d \<and> is_usable d
     \<and> unat (bmd_phys_start d) \<le> unat f
     \<and> unat f + 4096 \<le> unat (bmd_phys_start d) + unat (bmd_page_count d) * 4096)"

definition map_aligned :: "memory \<Rightarrow> frame_allocator \<Rightarrow> bool" where
  "map_aligned mem fa \<longleftrightarrow> (\<forall>i<entry_count (fa_memory_map fa). \<forall>d. mm_get mem (fa_memory_map fa) i = Some d
     \<longrightarrow> is_usable d \<longrightarrow> 4096 dvd unat (bmd_phys_start d))"

lemma aligned_below: "4096 dvd (a :: nat) \<Longrightarrow> 4096 dvd b \<Longrightarrow> a < b \<Longrightarrow> a + 4096 \<le> b"
  by (auto elim!: dvdE)

lemma frame_loop_Some:
  assumes "frame_loop mem fa i = Done (Some f, fa')" "map_aligned mem fa"
  shows "unat (next_address fa) \<le> unat f \<and> 4096 dvd unat f \<and> usable_frame mem fa f
    \<and> fa_memory_map fa' = fa_memory_map fa \<and> unat (next_address fa') = unat f + 4096"
  using assms
proof (induction mem fa i rule: frame_loop.induct)
  case (1 mem fa i)
  from "1.prems"(1) obtain d where d: "mm_get mem (fa_memory_map fa) i = Some d"
    and n: "mm_next mem (fa_memory_map fa) i = Some (d, i + 1)"
    by (subst (asm) frame_loop.simps) (auto simp: mm_next_Some split: option.splits)
  show ?case
  proof (cases "is_usable d")
    case True
    with "1.prems"(1) n obtain r where r: "usable_range d = Some r"
      by (subst (asm) frame_loop.simps) (auto simp: run_bind_eq_Done)
    let ?c = "frame_align_up (max (next_address fa) (ar_start r)) PAGE_SIZE"
    show ?thesis
    proof (cases "?c < ar_end r")
      case c: True
      have "frame_loop mem fa i = (case checked_add ?c PAGE_SIZE of None \<Rightarrow> Done (None, fa)
          | Some n \<Rightarrow> Done (Some ?c, fa\<lparr>next_address := n\<rparr>))"
        using n True r c by (subst frame_loop.simps) (simp add: Let_def)
      with "1.prems"(1) obtain n' where n': "checked_add ?c PAGE_SIZE = Some n'"
        "f = ?c" "fa' = fa\<lparr>next_address := n'\<rparr>"
        by (auto split: option.splits)
      have u: "unat n' = unat f + 4096" using checked_add_Some[OF n'(1)] n'(2) by (simp add: PAGE_SIZE_def)
      let ?m = "unat (max (next_address fa) (ar_start r))"
      have lim: "unat f + 4096 < usize_limit" using u unat_u64_limit[of n'] by linarith
      have m: "unat (next_address fa) \<le> ?m" "unat (ar_start r) \<le> ?m"
        by (simp_all add: max_def word_le_nat_alt)
      have f: "unat f = round_up 4096 ?m"
        using frame_align_up_cases[of "max (next_address fa) (ar_start r)"] lim n'(2) by (auto split: if_splits)
      have al: "4096 dvd unat (bmd_phys_start d)"
        using "1.prems"(2) d True mm_get_index[OF d] by (auto simp: map_aligned_def)
      have fd: "4096 dvd unat f" "?m \<le> unat f" using round_up_props(1,2)[of 4096 ?m] f by simp_all
      have e: "unat f < unat (bmd_phys_start d) + unat (bmd_page_count d) * 4096"
        using c n'(2) usable_range_Some(2)[OF r] by (simp add: word_less_nat_alt)
      have "unat f + 4096 \<le> unat (bmd_phys_start d) + unat (bmd_page_count d) * 4096"
        by (rule aligned_below[OF fd(1) _ e]) (use al in simp)
      moreover have "unat (bmd_phys_start d) \<le> unat f" using m(2) fd(2) usable_range_Some(1)[OF r] by simp
      ultimately show ?thesis using fd m(1) u n'(3) d True by (auto simp: usable_frame_def)
    next
      case False
      then have "frame_loop mem fa i = frame_loop mem fa (i + 1)"
        using n True r by (subst frame_loop.simps) (simp add: Let_def)
      with "1.IH"(2)[OF n refl _ _ refl] True r False "1.prems" show ?thesis by simp
    qed
  next
    case False
    then have "frame_loop mem fa i = frame_loop mem fa (i + 1)"
      using n by (subst frame_loop.simps) simp
    with "1.IH"(1)[OF n refl False] "1.prems" show ?thesis by simp
  qed
qed

lemma candidate_fits:
  assumes "usable_range d = Some r" "4096 dvd unat (bmd_phys_start d)"
    "frame_align_up v PAGE_SIZE < ar_end r"
  shows "unat (frame_align_up v PAGE_SIZE) + 4096 \<le> unat (ar_end r)"
    "checked_add (frame_align_up v PAGE_SIZE) PAGE_SIZE \<noteq> None"
proof -
  let ?c = "unat (frame_align_up v PAGE_SIZE)"
  have e: "4096 dvd unat (ar_end r)" using usable_range_Some[OF assms(1)] assms(2) by simp
  have lim: "unat (ar_end r) + 4096 \<le> usize_limit"
    by (rule aligned_below[OF e]) simp_all
  have c: "?c < unat (ar_end r)" using assms(3) by (simp add: word_less_nat_alt)
  then have "4096 dvd ?c" using frame_align_up_cases[of v] lim round_up_props(1)[of 4096 "unat v"]
    by (auto split: if_splits)
  from aligned_below[OF this e c] show 1: "?c + 4096 \<le> unat (ar_end r)" .
  show "checked_add (frame_align_up v PAGE_SIZE) PAGE_SIZE \<noteq> None"
    using 1 lim by (simp add: checked_add_def PAGE_SIZE_def)
qed

text \<open>When the allocator gives up it has not changed, and no usable frame is left at or above its
  position.\<close>

lemma frame_loop_None:
  assumes "frame_loop mem fa i = Done (None, fa')" "map_aligned mem fa"
  shows "fa' = fa \<and> (\<forall>j d (f :: u64). i \<le> j \<and> mm_get mem (fa_memory_map fa) j = Some d \<and> is_usable d
     \<and> unat (bmd_phys_start d) \<le> unat f \<and> 4096 dvd unat f
     \<and> unat f + 4096 \<le> unat (bmd_phys_start d) + unat (bmd_page_count d) * 4096
     \<longrightarrow> unat f < unat (next_address fa))"
  using assms
proof (induction mem fa i rule: frame_loop.induct)
  case (1 mem fa i)
  define above where "above i \<longleftrightarrow> (\<forall>j d (f :: u64). i \<le> j \<and> mm_get mem (fa_memory_map fa) j = Some d \<and> is_usable d
     \<and> unat (bmd_phys_start d) \<le> unat f \<and> 4096 dvd unat f
     \<and> unat f + 4096 \<le> unat (bmd_phys_start d) + unat (bmd_page_count d) * 4096
     \<longrightarrow> unat f < unat (next_address fa))" for i
  show ?case
  proof (cases "mm_get mem (fa_memory_map fa) i")
    case None
    have "mm_get mem (fa_memory_map fa) j = None" if "i \<le> j" for j
      using None that le_less_trans[OF mult_le_mono1[OF that, of "mm_desc_size (fa_memory_map fa)"]]
      by (auto simp: mm_get_def usize_checked_mul_def split: if_splits option.splits)
    with "1.prems"(1) None show ?thesis by (subst (asm) frame_loop.simps) (auto simp: mm_next_def)
  next
    case (Some e)
    then have n: "mm_next mem (fa_memory_map fa) i = Some (e, i + 1)" by (simp add: mm_next_Some)
    show ?thesis
    proof (cases "is_usable e")
      case False
      then have "frame_loop mem fa i = frame_loop mem fa (i + 1)"
        using n by (subst frame_loop.simps) simp
      with "1.prems"(1) have eq: "frame_loop mem fa (i + 1) = Done (None, fa')" by simp
      from "1.IH"(1)[OF n refl False eq "1.prems"(2)]
      have ih: "fa' = fa" "above (i + 1)" unfolding above_def by blast+
      have "above i" unfolding above_def
      proof (intro allI impI, elim conjE)
        fix j d and f :: u64 assume a: "i \<le> j" "mm_get mem (fa_memory_map fa) j = Some d" "is_usable d"
          "unat (bmd_phys_start d) \<le> unat f" "4096 dvd unat f"
          "unat f + 4096 \<le> unat (bmd_phys_start d) + unat (bmd_page_count d) * 4096"
        with Some False have "i + 1 \<le> j" by (cases "i = j") auto
        with a ih(2) show "unat f < unat (next_address fa)" unfolding above_def by blast
      qed
      with ih(1) show ?thesis by (simp add: above_def)
    next
      case True
      with "1.prems"(1) n obtain r where r: "usable_range e = Some r"
        by (subst (asm) frame_loop.simps) (auto simp: run_bind_eq_Done)
      let ?v = "max (next_address fa) (ar_start r)"
      let ?c = "frame_align_up ?v PAGE_SIZE"
      have loop: "frame_loop mem fa i = (if ?c < ar_end r then
          (case checked_add ?c PAGE_SIZE of None \<Rightarrow> Done (None, fa) | Some n \<Rightarrow> Done (Some ?c, fa\<lparr>next_address := n\<rparr>))
          else frame_loop mem fa (i + 1))"
        using n True r by (subst frame_loop.simps) (simp add: Let_def)
      have al: "4096 dvd unat (bmd_phys_start e)"
        using "1.prems"(2) Some True mm_get_index[OF Some] by (auto simp: map_aligned_def)
      have c: "\<not> ?c < ar_end r"
        using candidate_fits(2)[OF r al, of ?v] loop "1.prems"(1) by (auto split: if_splits)
      have below: "unat f < unat (next_address fa)"
        if f: "unat (bmd_phys_start e) \<le> unat f" "4096 dvd unat f"
          "unat f + 4096 \<le> unat (bmd_phys_start e) + unat (bmd_page_count e) * 4096" for f
      proof (rule ccontr)
        assume "\<not> unat f < unat (next_address fa)"
        then have v: "unat ?v \<le> unat f" using f(1) usable_range_Some(1)[OF r] by (simp add: max_def)
        have "unat ?v + 4095 < usize_limit"
          using v f(3) usable_range_Some(2)[OF r] unat_u64_limit[of "ar_end r"] by linarith
        then have "unat ?c \<le> unat f"
          using frame_align_up_cases[of ?v] round_up_props(4)[of 4096 "unat f" "unat ?v"] v f(2) by simp
        with c f(3) usable_range_Some(2)[OF r] show False by (simp add: word_less_nat_alt)
      qed
      have "frame_loop mem fa (i + 1) = Done (None, fa')" using loop c "1.prems"(1) by simp
      from "1.IH"(2)[OF n refl _ _ refl c this "1.prems"(2)] True r
      have ih: "fa' = fa" "above (i + 1)" unfolding above_def by auto
      have "above i" unfolding above_def
      proof (intro allI impI, elim conjE)
        fix j d and f :: u64 assume a: "i \<le> j" "mm_get mem (fa_memory_map fa) j = Some d" "is_usable d"
          "unat (bmd_phys_start d) \<le> unat f" "4096 dvd unat f"
          "unat f + 4096 \<le> unat (bmd_phys_start d) + unat (bmd_page_count d) * 4096"
        show "unat f < unat (next_address fa)"
        proof (cases "i = j")
          case True
          with a Some below[of f] show ?thesis by simp
        next
          case False
          with a(1) have "i + 1 \<le> j" by simp
          with a ih(2) show ?thesis unfolding above_def by blast
        qed
      qed
      with ih(1) show ?thesis by (simp add: above_def)
    qed
  qed
qed

interpretation frames: frame_source "allocate_physical_frame mem" "\<lambda>fa. unat (next_address fa)"
  "map_aligned mem" "usable_frame mem" for mem
proof (unfold_locales, goal_cases)
  case (1 s f s')
  then show ?case using frame_loop_Some[of mem s 0 f s'] by (simp add: allocate_physical_frame_def)
next
  case (2 s r s')
  then show ?case
    using frame_loop_Some[of mem s 0 _ s'] frame_loop_None[of mem s 0 s']
    by (cases r) (auto simp: allocate_physical_frame_def map_aligned_def usable_frame_def)
qed

text \<open>What the crate documents: making a physical address returns the same address and panics above 52
  bits, and the frame containing a page-aligned address starts there.\<close>

definition phys_laws :: "phys_ops \<Rightarrow> bool" where
  "phys_laws po \<longleftrightarrow> (\<forall>a b. pa_new po a = Done b \<longrightarrow> b = a \<and> unat a < 0x10000000000000)
     \<and> (\<forall>a. 4096 dvd unat a \<longrightarrow> containing_frame po a = a)"

lemma allocate_frame_cases:
  assumes "phys_laws po" "map_aligned mem fa" "allocate_frame po mem fa = Done (r, fa')"
  shows "allocate_physical_frame mem fa = Done (r, fa') \<and> (\<forall>f. r = Some f \<longrightarrow> phys_frame f)"
  using assms(1,3) frames.alloc_some[OF assms(2)]
  by (fastforce simp: allocate_frame_def run_bind_eq_Done phys_laws_def phys_frame_def split: option.splits)

interpretation phys: phys_frame_source "allocate_frame po mem" "\<lambda>fa. unat (next_address fa)"
  "\<lambda>fa. phys_laws po \<and> map_aligned mem fa" "usable_frame mem" for po mem
proof (unfold_locales, goal_cases)
  case (1 s f s')
  then show ?case using allocate_frame_cases[of po mem s "Some f" s'] frames.alloc_some[of mem s f s'] by blast
next
  case (2 s r s')
  then show ?case using allocate_frame_cases[of po mem s r s'] frames.alloc_keeps[of mem s r s'] by blast
next
  case (3 s f s')
  then show ?case using allocate_frame_cases[of po mem s "Some f" s'] by blast
qed


section \<open>Properties\<close>

text \<open>C29: Frames are never handed out twice.  On a memory map whose usable ranges are page aligned, any
  number of allocations from a fresh allocator gives page-aligned frames in increasing order that do not
  overlap, all above the first megabyte and all wholly inside memory the firmware reported as usable.\<close>

theorem frames_distinct_and_usable:
  assumes "map_aligned mem (frame_allocator_new b)"
    and "take_frames (allocate_physical_frame mem) n (frame_allocator_new b) = Done (fs, fa)"
  shows "sorted_wrt (\<lambda>f g. unat f + 4096 \<le> unat g) fs
    \<and> (\<forall>f\<in>set fs. 0x100000 \<le> unat f \<and> 4096 dvd unat f \<and> usable_frame mem (frame_allocator_new b) f)"
  using frames.take_frames_spec[OF assms]
  by (simp add: frame_allocator_new_def LOW_MEMORY_CUTOFF_def)

text \<open>A memory map of two descriptors for the witnesses: reserved memory, then 128 usable pages.\<close>

definition demo_descriptor :: "u32 \<Rightarrow> u64 \<Rightarrow> u64 \<Rightarrow> u8 list" where
  "demo_descriptor ty start pages = le_bytes 4 (unat ty) @ le_bytes 4 0 @ le_bytes 8 (unat start)
     @ le_bytes 8 0 @ le_bytes 8 (unat pages) @ le_bytes 8 0"

definition demo_map_memory :: memory where
  "demo_map_memory = write_mem 0x7000 (demo_descriptor 2 0x100000 16 @ demo_descriptor 7 0x200000 128) (\<lambda>_. 0)"

definition demo_boot_info :: boot_info where
  "demo_boot_info = (boot_info_uefi 2)\<lparr>bi_memory_map := \<lparr>mm_descriptors = 0x7000, mm_map_size = 80,
     mm_desc_size = 40, mm_desc_version = 1\<rparr>\<rparr>"

lemma read_demo_descriptor:
  assumes "bs = pre @ demo_descriptor ty start pages @ post" "length bs < usize_limit" "k = of_nat (length pre)"
  shows "read_descriptor (write_mem p bs mem) (p + k)
    = \<lparr>bmd_ty = ty, bmd_reserved = 0, bmd_phys_start = start, bmd_virt_start = 0, bmd_page_count = pages, bmd_att = 0\<rparr>"
proof -
  have l: "length (demo_descriptor ty start pages) = 40" by (simp add: demo_descriptor_def)
  have r: "read_mem (write_mem p bs mem) (p + k + of_nat j) n = sub_slice j (j + n) (demo_descriptor ty start pages)"
    if "j + n \<le> 40" for j n
    using read_mem_inside[of "length pre + j" n bs p mem] that l assms
    by (simp add: add.assoc sub_slice_def)
  have "unat ty < 4294967296" using unsigned_less[of ty, where ?'a = nat] by simp
  then show ?thesis
    using r[of 0 4] r[of 4 4] r[of 8 8] r[of 16 8] r[of 24 8] r[of 32 8]
    by (simp add: read_descriptor_def demo_descriptor_def sub_slice_def le_u32_def le_u64_def le_nat_le_bytes)
qed

lemma demo_get:
  "mm_get demo_map_memory (bi_memory_map demo_boot_info) i =
     (if i = 0 then Some \<lparr>bmd_ty = 2, bmd_reserved = 0, bmd_phys_start = 0x100000, bmd_virt_start = 0,
        bmd_page_count = 16, bmd_att = 0\<rparr>
      else if i = 1 then Some \<lparr>bmd_ty = 7, bmd_reserved = 0, bmd_phys_start = 0x200000, bmd_virt_start = 0,
        bmd_page_count = 128, bmd_att = 0\<rparr>
      else None)"
proof -
  let ?a = "demo_descriptor 2 0x100000 16" and ?b = "demo_descriptor 7 0x200000 128"
  have l: "length ?a = 40" "length ?b = 40" by (simp_all add: demo_descriptor_def)
  show ?thesis
    using read_demo_descriptor[of "?a @ ?b" "[]" 2 "0x100000" 16 ?b 0 "0x7000" "\<lambda>_. 0"]
      read_demo_descriptor[of "?a @ ?b" "?a" 7 "0x200000" 128 "[]" 40 "0x7000" "\<lambda>_. 0"] l
    by (auto simp: mm_get_def demo_map_memory_def demo_boot_info_def boot_info_uefi_def entry_count_def
        usize_checked_mul_def)
qed

lemma demo_alloc:
  "allocate_physical_frame demo_map_memory \<lparr>fa_memory_map = bi_memory_map demo_boot_info, next_address = n\<rparr>
   = (let c = frame_align_up (max n 0x200000) PAGE_SIZE in
      if c < 0x280000 then
        (case checked_add c PAGE_SIZE of None \<Rightarrow> Done (None, \<lparr>fa_memory_map = bi_memory_map demo_boot_info, next_address = n\<rparr>)
         | Some n' \<Rightarrow> Done (Some c, \<lparr>fa_memory_map = bi_memory_map demo_boot_info, next_address = n'\<rparr>))
      else Done (None, \<lparr>fa_memory_map = bi_memory_map demo_boot_info, next_address = n\<rparr>))"
proof -
  let ?fa = "\<lparr>fa_memory_map = bi_memory_map demo_boot_info, next_address = n\<rparr>"
  let ?d = "\<lparr>bmd_ty = 7, bmd_reserved = 0, bmd_phys_start = 0x200000, bmd_virt_start = 0, bmd_page_count = 128, bmd_att = 0\<rparr>"
  have u: "\<not> is_usable \<lparr>bmd_ty = 2, bmd_reserved = 0, bmd_phys_start = 0x100000, bmd_virt_start = 0,
      bmd_page_count = 16, bmd_att = 0\<rparr>" "is_usable ?d"
    by (simp_all add: is_usable_def MEMORY_TYPE_CONVENTIONAL_def MEMORY_TYPE_BOOT_SERVICES_CODE_def
        MEMORY_TYPE_BOOT_SERVICES_DATA_def)
  have r: "usable_range ?d = Some \<lparr>ar_start = 0x200000, ar_end = 0x280000\<rparr>"
    by (simp add: usable_range_def checked_mul_def checked_add_def PAGE_SIZE_def)
  have 2: "frame_loop demo_map_memory ?fa 2 = Done (None, ?fa)"
    by (subst frame_loop.simps) (simp add: mm_next_def demo_get)
  have 0: "frame_loop demo_map_memory ?fa 0 = frame_loop demo_map_memory ?fa 1"
    by (subst frame_loop.simps) (simp add: mm_next_def demo_get u)
  show ?thesis unfolding allocate_physical_frame_def 0
    by (subst frame_loop.simps) (simp add: mm_next_def demo_get u r 2[unfolded numeral_2_eq_2] Let_def split: option.split)
qed

theorem frames_distinct_and_usable_witness:
  "\<exists>fa. take_frames (allocate_physical_frame demo_map_memory) (Suc (Suc (Suc 0))) (frame_allocator_new demo_boot_info)
      = Done ([0x200000, 0x201000, 0x202000], fa) \<and> usable_frame demo_map_memory (frame_allocator_new demo_boot_info) 0x201000"
proof -
  have m: "map_aligned demo_map_memory (frame_allocator_new demo_boot_info)"
    by (auto simp: map_aligned_def frame_allocator_new_def demo_get is_usable_def MEMORY_TYPE_CONVENTIONAL_def
        MEMORY_TYPE_BOOT_SERVICES_CODE_def MEMORY_TYPE_BOOT_SERVICES_DATA_def split: if_splits)
  obtain fa where fa: "take_frames (allocate_physical_frame demo_map_memory) (Suc (Suc (Suc 0))) (frame_allocator_new demo_boot_info)
      = Done ([0x200000, 0x201000, 0x202000], fa)"
    by (simp add: frame_allocator_new_def LOW_MEMORY_CUTOFF_def demo_alloc PAGE_SIZE_def frame_align_up_def
        checked_add_def max_def Let_def)
  from frames_distinct_and_usable[OF m fa] fa show ?thesis by auto
qed

text \<open>The allocator gives up only when memory is used up.  When it returns no frame, its state is
  unchanged and every usable page-aligned frame lies below the position it has reached.\<close>

theorem frames_exhausted:
  assumes "map_aligned mem fa" and "allocate_physical_frame mem fa = Done (None, fa')"
    and "usable_frame mem fa f" and "4096 dvd unat f"
  shows "fa' = fa \<and> f < next_address fa"
  using frame_loop_None[OF assms(2)[unfolded allocate_physical_frame_def] assms(1)] assms(3,4)
  by (auto simp: usable_frame_def word_less_nat_alt)

theorem frames_exhausted_witness:
  "(0x27F000 :: u64) < next_address \<lparr>fa_memory_map = bi_memory_map demo_boot_info, next_address = 0x280000\<rparr>
   \<and> allocate_physical_frame demo_map_memory \<lparr>fa_memory_map = bi_memory_map demo_boot_info, next_address = 0x280000\<rparr>
     = Done (None, \<lparr>fa_memory_map = bi_memory_map demo_boot_info, next_address = 0x280000\<rparr>)"
proof -
  let ?fa = "\<lparr>fa_memory_map = bi_memory_map demo_boot_info, next_address = 0x280000\<rparr>"
  have m: "map_aligned demo_map_memory ?fa"
    by (auto simp: map_aligned_def demo_get is_usable_def MEMORY_TYPE_CONVENTIONAL_def
        MEMORY_TYPE_BOOT_SERVICES_CODE_def MEMORY_TYPE_BOOT_SERVICES_DATA_def split: if_splits)
  have a: "allocate_physical_frame demo_map_memory ?fa = Done (None, ?fa)"
    by (simp add: demo_alloc frame_align_up_def checked_add_def PAGE_SIZE_def max_def)
  have "usable_frame demo_map_memory ?fa 0x27F000"
    unfolding usable_frame_def
    by (rule exI[of _ 1]) (simp add: demo_get is_usable_def MEMORY_TYPE_CONVENTIONAL_def)
  from frames_exhausted[OF m a this] a show ?thesis by simp
qed

end
