(* ===== verification/Paging.thy ===== *)
theory Paging
  imports Frames
begin

text \<open>
  Page tables of processes (\<^verbatim>\<open>kernel/src/memory/paging.rs\<close>).  A table is reached by the physical address of
  its frame; \<open>tables\<close> gives each frame's 512 entries.  The operations on one entry are those of the
  \<^verbatim>\<open>x86_64\<close> crate and are the argument \<open>ops\<close>; what the proofs need of them is the predicate \<open>entry_laws\<close>.
\<close>


section \<open>Definitions\<close>

record 'e entry_ops =
  is_unused :: "'e \<Rightarrow> bool"
  entry_flags :: "'e \<Rightarrow> u64"
  set_flags :: "u64 \<Rightarrow> 'e \<Rightarrow> 'e"
  set_frame :: "u64 \<Rightarrow> u64 \<Rightarrow> 'e"
  entry_frame :: "'e \<Rightarrow> u64 option"
  zero_entry :: 'e

text \<open>The architecture's flag bits the code names.\<close>

definition PRESENT :: u64 where "PRESENT = 1"
definition WRITABLE :: u64 where "WRITABLE = 2"
definition USER_ACCESSIBLE :: u64 where "USER_ACCESSIBLE = 4"
definition BIT_9 :: u64 where "BIT_9 = 0x200"
definition NO_EXECUTE :: u64 where "NO_EXECUTE = 0x8000000000000000"

type_synonym 'e tables = "u64 \<Rightarrow> nat \<Rightarrow> 'e"

definition write_entry :: "u64 \<Rightarrow> nat \<Rightarrow> 'e \<Rightarrow> 'e tables \<Rightarrow> 'e tables" where
  "write_entry f i e t = t(f := (t f)(i := e))"

definition create_process_pml4 ::
  "'e entry_ops \<Rightarrow> ('s \<Rightarrow> (u64 option \<times> 's) run) \<Rightarrow> u64 \<Rightarrow> 'e tables \<times> 's \<Rightarrow> (u64 \<times> 'e tables \<times> 's) run" where
  "create_process_pml4 ops alloc cr3 w =
     run_bind (alloc (snd w)) (\<lambda>(f, s). run_bind (run_the f) (\<lambda>new_frame.
     let t = (fst w)(new_frame := (\<lambda>_. zero_entry ops));
         t = fold (\<lambda>i t. write_entry new_frame i (t cr3 i) t) [256..<512] t in
     Done (new_frame, t, s)))"

text \<open>The leaf copy of a copy-on-write clone and of a plain one.\<close>

definition clone_leaf :: "'e entry_ops \<Rightarrow> bool \<Rightarrow> 'e \<Rightarrow> 'e" where
  "clone_leaf ops cow src =
     (if cow then set_flags ops ((entry_flags ops src AND NOT WRITABLE) OR BIT_9) src else src)"

fun clone_table_level ::
  "'e entry_ops \<Rightarrow> ('s \<Rightarrow> (u64 option \<times> 's) run) \<Rightarrow> bool \<Rightarrow> nat \<Rightarrow> 'e \<Rightarrow> u64 \<Rightarrow> nat
    \<Rightarrow> 'e tables \<times> 's \<Rightarrow> ('e tables \<times> 's) run" where
  "clone_table_level ops alloc cow 0 src df di (t, s) = Done (write_entry df di (clone_leaf ops cow src) t, s)"
| "clone_table_level ops alloc cow (Suc level) src df di (t, s) =
     run_bind (alloc s) (\<lambda>(f, s). run_bind (run_the f) (\<lambda>new_frame.
     let t = write_entry df di (set_frame ops new_frame (entry_flags ops src)) t in
     run_bind (run_the (entry_frame ops src)) (\<lambda>src_table.
     run_fold (\<lambda>i (t, s).
         if \<not> is_unused ops (t src_table i)
         then clone_table_level ops alloc cow level (t src_table i) new_frame i (t, s)
         else Done (write_entry new_frame i (zero_entry ops) t, s)) [0..<512] (t, s))))"

definition clone_user_mappings ::
  "'e entry_ops \<Rightarrow> ('s \<Rightarrow> (u64 option \<times> 's) run) \<Rightarrow> u64 \<Rightarrow> u64 \<Rightarrow> bool \<Rightarrow> 'e tables \<times> 's \<Rightarrow> ('e tables \<times> 's) run" where
  "clone_user_mappings ops alloc src_pml4 dst_pml4 cow w =
     run_fold (\<lambda>i (t, s).
       if \<not> is_unused ops (t src_pml4 i)
       then clone_table_level ops alloc cow 3 (t src_pml4 i) dst_pml4 i (t, s)
       else Done (t, s)) [0..<256] w"

definition clone_user_mappings_cow ::
  "'e entry_ops \<Rightarrow> ('s \<Rightarrow> (u64 option \<times> 's) run) \<Rightarrow> u64 \<Rightarrow> u64 \<Rightarrow> 'e tables \<times> 's \<Rightarrow> ('e tables \<times> 's) run" where
  "clone_user_mappings_cow ops alloc src_pml4 dst_pml4 w =
     run_bind (run_fold (\<lambda>i (t, s).
       if \<not> is_unused ops (t src_pml4 i)
       then clone_table_level ops alloc True 3 (t src_pml4 i) dst_pml4 i (t, s)
       else Done (t, s)) [0..<256] w) (\<lambda>(t, s).
     Done (fold (\<lambda>i t. write_entry dst_pml4 i (t src_pml4 i) t) [256..<512] t, s))"

text \<open>\<open>set_user_accessible\<close> walks the four levels of each page and sets the user bit on every entry.
  Making an address from a number and its index at a level are the crate's: \<open>va_new\<close>, \<open>p_index\<close>.\<close>

definition add_user_bit :: "'e entry_ops \<Rightarrow> u64 \<Rightarrow> nat \<Rightarrow> 'e tables \<Rightarrow> 'e tables" where
  "add_user_bit ops f i t = write_entry f i (set_flags ops (entry_flags ops (t f i) OR USER_ACCESSIBLE) (t f i)) t"

definition set_user_page ::
  "'e entry_ops \<Rightarrow> (u64 \<Rightarrow> u64 run) \<Rightarrow> (nat \<Rightarrow> u64 \<Rightarrow> nat) \<Rightarrow> u64 \<Rightarrow> u64 \<Rightarrow> 'e tables \<Rightarrow> 'e tables run" where
  "set_user_page ops va_new p_index cr3 addr t =
     run_bind (va_new addr) (\<lambda>v.
     let t = add_user_bit ops cr3 (p_index 4 v) t in
     run_bind (run_the (entry_frame ops (t cr3 (p_index 4 v)))) (\<lambda>p3.
     let t = add_user_bit ops p3 (p_index 3 v) t in
     run_bind (run_the (entry_frame ops (t p3 (p_index 3 v)))) (\<lambda>p2.
     let t = add_user_bit ops p2 (p_index 2 v) t in
     run_bind (run_the (entry_frame ops (t p2 (p_index 2 v)))) (\<lambda>p1.
     Done (add_user_bit ops p1 (p_index 1 v) t)))))"

definition set_user_accessible ::
  "'e entry_ops \<Rightarrow> (u64 \<Rightarrow> u64 run) \<Rightarrow> (nat \<Rightarrow> u64 \<Rightarrow> nat) \<Rightarrow> u64 \<Rightarrow> u64 \<Rightarrow> u64 \<Rightarrow> 'e tables \<Rightarrow> 'e tables run" where
  "set_user_accessible ops va_new p_index cr3 virt_addr sz t =
     run_bind (add_or_panic virt_addr sz) (\<lambda>stop.
     run_fold (\<lambda>k. set_user_page ops va_new p_index cr3 (virt_addr + of_nat (4096 * k)))
       [0..<(unat stop - unat virt_addr + 4095) div 4096] t)"


section \<open>Walking the tables\<close>

text \<open>What the crate documents of an entry: an empty entry is unused; an entry made for an addressable frame
  with the flags of a present one refers to that frame, has those flags and is in use; setting flags that are not
  all zero leaves an entry in use.\<close>

definition entry_laws :: "'e entry_ops \<Rightarrow> bool" where
  "entry_laws ops \<longleftrightarrow> is_unused ops (zero_entry ops)
     \<and> (\<forall>e f g. entry_frame ops e = Some g \<longrightarrow> phys_frame f \<longrightarrow> entry_frame ops (set_frame ops f (entry_flags ops e)) = Some f
          \<and> entry_flags ops (set_frame ops f (entry_flags ops e)) = entry_flags ops e
          \<and> \<not> is_unused ops (set_frame ops f (entry_flags ops e)))
     \<and> (\<forall>e x. \<not> is_unused ops (set_flags ops (x OR BIT_9) e))"

text \<open>The leaf entry a path of indices leads to from an entry of a level, and the frames of the tables
  below an entry.\<close>

fun leaf_at :: "'e entry_ops \<Rightarrow> 'e tables \<Rightarrow> nat \<Rightarrow> 'e \<Rightarrow> nat list \<Rightarrow> 'e option" where
  "leaf_at ops t 0 e path = Some e"
| "leaf_at ops t (Suc n) e [] = None"
| "leaf_at ops t (Suc n) e (i # path) = (case entry_frame ops e of
       None \<Rightarrow> None
     | Some f \<Rightarrow> if is_unused ops (t f i) then None else leaf_at ops t n (t f i) path)"

fun sub_frames :: "'e entry_ops \<Rightarrow> 'e tables \<Rightarrow> nat \<Rightarrow> 'e \<Rightarrow> u64 set" where
  "sub_frames ops t 0 e = {}"
| "sub_frames ops t (Suc n) e = (case entry_frame ops e of
       None \<Rightarrow> {}
     | Some f \<Rightarrow> insert f (\<Union>i<512. if is_unused ops (t f i) then {} else sub_frames ops t n (t f i)))"

lemma sub_frames_child:
  "entry_frame ops e = Some f \<Longrightarrow> i < 512 \<Longrightarrow> \<not> is_unused ops (t f i) \<Longrightarrow>
   sub_frames ops t n (t f i) \<subseteq> sub_frames ops t (Suc n) e"
  by (auto intro!: bexI[of _ i])

lemma walk_cong:
  assumes "\<And>f i. f \<in> sub_frames ops t n e \<Longrightarrow> i < 512 \<Longrightarrow> t' f i = t f i"
  shows "sub_frames ops t' n e = sub_frames ops t n e"
    and "\<forall>i\<in>set path. i < 512 \<Longrightarrow> leaf_at ops t' n e path = leaf_at ops t n e path"
proof -
  have "sub_frames ops t' n e = sub_frames ops t n e
    \<and> (\<forall>path. (\<forall>i\<in>set path. i < 512) \<longrightarrow> leaf_at ops t' n e path = leaf_at ops t n e path)"
    using assms
  proof (induction n arbitrary: e)
    case (Suc n)
    show ?case
    proof (cases "entry_frame ops e")
      case None
      have "leaf_at ops u (Suc n) e path = None" for u path using None by (cases path) simp_all
      with None show ?thesis by simp
    next
      case (Some f)
      have eq: "t' f i = t f i" if "i < 512" for i using Suc.prems[of f i] Some that by simp
      have ih: "sub_frames ops t' n (t f i) = sub_frames ops t n (t f i)
          \<and> (\<forall>path. (\<forall>i\<in>set path. i < 512) \<longrightarrow> leaf_at ops t' n (t f i) path = leaf_at ops t n (t f i) path)"
        if "i < 512" "\<not> is_unused ops (t f i)" for i
        using sub_frames_child[of ops e f i t n, OF Some that] Suc.prems by (intro Suc.IH) blast
      have "leaf_at ops t' (Suc n) e path = leaf_at ops t (Suc n) e path" if "\<forall>i\<in>set path. i < 512" for path
        using that Some eq ih by (cases path) auto
      moreover have "sub_frames ops t' (Suc n) e = sub_frames ops t (Suc n) e"
        using Some eq ih by (auto cong: INF_cong SUP_cong)
      ultimately show ?thesis by blast
    qed
  qed simp
  then show "sub_frames ops t' n e = sub_frames ops t n e"
    and "\<forall>i\<in>set path. i < 512 \<Longrightarrow> leaf_at ops t' n e path = leaf_at ops t n e path" by blast+
qed

text \<open>The number of tables below an entry, and that every used entry above the leaves refers to a table
  (it is neither absent nor a huge page).\<close>

fun table_count :: "'e entry_ops \<Rightarrow> 'e tables \<Rightarrow> nat \<Rightarrow> 'e \<Rightarrow> nat" where
  "table_count ops t 0 e = 0"
| "table_count ops t (Suc n) e = (case entry_frame ops e of
       None \<Rightarrow> 0
     | Some f \<Rightarrow> Suc (\<Sum>i<512. if is_unused ops (t f i) then 0 else table_count ops t n (t f i)))"

fun tables_present :: "'e entry_ops \<Rightarrow> 'e tables \<Rightarrow> nat \<Rightarrow> 'e \<Rightarrow> bool" where
  "tables_present ops t 0 e = True"
| "tables_present ops t (Suc n) e = (case entry_frame ops e of
       None \<Rightarrow> False
     | Some f \<Rightarrow> \<forall>i<512. \<not> is_unused ops (t f i) \<longrightarrow> tables_present ops t n (t f i))"

lemma count_cong:
  assumes "\<And>f i. f \<in> sub_frames ops t n e \<Longrightarrow> i < 512 \<Longrightarrow> t' f i = t f i"
  shows "table_count ops t' n e = table_count ops t n e \<and> tables_present ops t' n e = tables_present ops t n e"
  using assms
proof (induction n arbitrary: e)
  case (Suc n)
  show ?case
  proof (cases "entry_frame ops e")
    case (Some f)
    have eq: "t' f i = t f i" if "i < 512" for i using Suc.prems[of f i] Some that by simp
    have ih: "table_count ops t' n (t f i) = table_count ops t n (t f i)
        \<and> tables_present ops t' n (t f i) = tables_present ops t n (t f i)"
      if "i < 512" "\<not> is_unused ops (t f i)" for i
      using sub_frames_child[of ops e f i t n, OF Some that] Suc.prems by (intro Suc.IH) blast
    have "(\<Sum>i<512. if is_unused ops (t' f i) then 0 else table_count ops t' n (t' f i))
        = (\<Sum>i<512. if is_unused ops (t f i) then 0 else table_count ops t n (t f i))"
      using eq ih by (intro sum.cong) auto
    with Some eq ih show ?thesis by simp
  qed simp
qed simp

text \<open>A loop returns when every round does from a state the rounds before may leave.\<close>

lemma run_fold_upt_Done:
  assumes "P 0 s" and "\<And>k s. k < n \<Longrightarrow> P k s \<Longrightarrow> \<exists>s'. f k s = Done s' \<and> P (Suc k) s'"
  shows "\<exists>s'. run_fold f [0..<n] s = Done s' \<and> P n s'"
  using assms(2)
proof (induction n)
  case 0
  with assms(1) show ?case by simp
next
  case (Suc n)
  then obtain u where u: "run_fold f [0..<n] s = Done u" "P n u" by (metis less_SucI)
  with Suc.prems[of n u] show ?case by (auto simp: run_fold_append)
qed

lemma run_fold_upt:
  assumes "run_fold f [0..<n] s = Done s'" "P 0 s"
    and "\<And>k s s'. k < n \<Longrightarrow> P k s \<Longrightarrow> f k s = Done s' \<Longrightarrow> P (Suc k) s'"
  shows "P n s'"
  using assms
proof (induction n arbitrary: s')
  case (Suc n)
  then obtain u where u: "run_fold f [0..<n] s = Done u" "f n u = Done s'"
    by (auto simp: run_fold_append run_bind_eq_Done)
  from Suc.IH[OF u(1) Suc.prems(2)] Suc.prems(3) have "P n u" by simp
  with Suc.prems(3)[of n u s'] u(2) show ?case by simp
qed simp


section \<open>Cloning\<close>

text \<open>The result of cloning the tree below \<open>src\<close> into the slot \<open>di\<close> of table \<open>df\<close>: no old table changes but
  for that slot, the new tables are all fresh (\<open>old\<close> tells which frames were in use before and
  \<open>old'\<close> which are after), and every path leads to the copy of what it led to.\<close>

definition cloned ::
  "'e entry_ops \<Rightarrow> bool \<Rightarrow> (u64 \<Rightarrow> bool) \<Rightarrow> (u64 \<Rightarrow> bool) \<Rightarrow> nat \<Rightarrow> 'e \<Rightarrow> u64 \<Rightarrow> nat \<Rightarrow> 'e tables \<Rightarrow> 'e tables \<Rightarrow> bool" where
  "cloned ops cow old old' n src df di t t' \<longleftrightarrow>
     (\<forall>g i. old g \<longrightarrow> (g, i) \<noteq> (df, di) \<longrightarrow> t' g i = t g i)
     \<and> (\<forall>g\<in>sub_frames ops t' n (t' df di). \<not> old g \<and> old' g)
     \<and> (\<forall>path. (\<forall>i\<in>set path. i < 512) \<longrightarrow> length path = n \<longrightarrow>
          leaf_at ops t' n (t' df di) path = map_option (clone_leaf ops cow) (leaf_at ops t n src path))
     \<and> (\<not> is_unused ops src \<longrightarrow> \<not> is_unused ops (t' df di))"

text \<open>The state of one slot of a new table once the loop has passed it.\<close>

definition slot_done ::
  "'e entry_ops \<Rightarrow> bool \<Rightarrow> nat \<Rightarrow> 'e tables \<Rightarrow> u64 \<Rightarrow> u64 \<Rightarrow> (u64 \<Rightarrow> bool) \<Rightarrow> (u64 \<Rightarrow> bool) \<Rightarrow> nat \<Rightarrow> 'e tables \<Rightarrow> bool" where
  "slot_done ops cow n t f0 nf old old' j tk \<longleftrightarrow> (if is_unused ops (t f0 j) then tk nf j = zero_entry ops
     else \<not> is_unused ops (tk nf j)
       \<and> (\<forall>g\<in>sub_frames ops tk n (tk nf j). \<not> old g \<and> old' g)
       \<and> (\<forall>path. (\<forall>i\<in>set path. i < 512) \<longrightarrow> length path = n \<longrightarrow>
            leaf_at ops tk n (tk nf j) path = map_option (clone_leaf ops cow) (leaf_at ops t n (t f0 j) path)))"

lemma slot_done_later:
  assumes "slot_done ops cow n t f0 nf old old' j tk" "old nf" "old \<le> old'" "old' \<le> old''" "j \<noteq> k"
    "\<And>g i. old' g \<Longrightarrow> (g, i) \<noteq> (nf, k) \<Longrightarrow> u g i = tk g i"
  shows "slot_done ops cow n t f0 nf old old'' j u"
proof -
  have e: "u nf j = tk nf j" using assms(2,3,5,6) by auto
  show ?thesis
  proof (cases "is_unused ops (t f0 j)")
    case True
    with assms(1) e show ?thesis by (simp add: slot_done_def)
  next
    case False
    then have d: "\<forall>g\<in>sub_frames ops tk n (tk nf j). \<not> old g \<and> old' g"
      using assms(1) by (simp add: slot_done_def)
    then have same: "u g i = tk g i" if "g \<in> sub_frames ops tk n (tk nf j)" "i < 512" for g i
      using that assms(2) by (intro assms(6)) auto
    note c = walk_cong[of ops tk n "tk nf j" u, OF same]
    have "sub_frames ops u n (tk nf j) = sub_frames ops tk n (tk nf j)" by (rule c(1))
    moreover have "leaf_at ops u n (tk nf j) path = leaf_at ops tk n (tk nf j) path" if "\<forall>i\<in>set path. i < 512" for path
      by (rule c(2)[OF _ _ that])
    ultimately show ?thesis using assms(1,4) False e by (auto simp: slot_done_def)
  qed
qed

lemma cloned_from_slots:
  assumes "entry_frame ops src = Some f0" "entry_frame ops (t' df di) = Some nf" "\<not> is_unused ops (t' df di)"
    "is_unused ops (zero_entry ops)"
    "\<forall>g i. old0 g \<longrightarrow> (g, i) \<noteq> (df, di) \<longrightarrow> t' g i = t g i"
    "\<forall>j<512. slot_done ops cow n t f0 nf old old' j t'" "\<not> old0 nf" "old' nf" "old0 \<le> old"
  shows "cloned ops cow old0 old' (Suc n) src df di t t'"
proof -
  have "\<not> old0 g \<and> old' g" if g: "g \<in> sub_frames ops t' (Suc n) (t' df di)" for g
  proof -
    from g assms(2) consider "g = nf" | j where "j < 512" "\<not> is_unused ops (t' nf j)" "g \<in> sub_frames ops t' n (t' nf j)"
      by (auto split: if_splits)
    then show ?thesis
    proof cases
      case (2 j)
      with assms(4,6) have "\<not> old g \<and> old' g" by (auto simp: slot_done_def split: if_splits)
      with assms(9) show ?thesis by auto
    qed (use assms(7,8) in simp)
  qed
  moreover have "leaf_at ops t' (Suc n) (t' df di) path = map_option (clone_leaf ops cow) (leaf_at ops t (Suc n) src path)"
    if p: "\<forall>i\<in>set path. i < 512" "length path = Suc n" for path
  proof -
    obtain j js where path: "path = j # js" using p(2) by (cases path) auto
    with assms(6) p have "slot_done ops cow n t f0 nf old old' j t'" by simp
    with path p assms(1,2,4) show ?thesis by (auto simp: slot_done_def split: if_splits)
  qed
  ultimately show ?thesis using assms(3,5) unfolding cloned_def by blast
qed

context frame_pool
begin

lemma clone_table_level_spec:
  assumes "entry_laws ops" "ok s" "clone_table_level ops alloc cow n src df di (t, s) = Done (t', s')"
    "\<forall>f\<in>sub_frames ops t n src. taken s f \<and> f \<noteq> df" "taken s df"
  shows "ok s' \<and> taken s \<le> taken s' \<and> cloned ops cow (taken s) (taken s') n src df di t t'"
  using assms(2-)
proof (induction n arbitrary: src df di t s t' s')
  case 0
  with assms(1) show ?case
    by (auto simp: cloned_def write_entry_def clone_leaf_def entry_laws_def)
next
  case (Suc n)
  from Suc.prems(2) obtain nf s1 f0 where
    al: "alloc s = Done (Some nf, s1)" and f0: "entry_frame ops src = Some f0" and
    loop: "run_fold (\<lambda>i (t, s). if \<not> is_unused ops (t f0 i) then clone_table_level ops alloc cow n (t f0 i) nf i (t, s)
        else Done (write_entry nf i (zero_entry ops) t, s)) [0..<512]
      (write_entry df di (set_frame ops nf (entry_flags ops src)) t, s1) = Done (t', s')"
    by (auto simp: run_bind_eq_Done Let_def)
  let ?e = "set_frame ops nf (entry_flags ops src)" and ?lo = "taken s1"
  note nf = pool_fresh[OF Suc.prems(1) al] and s1 = pool_keeps[OF Suc.prems(1) al]
  have e: "entry_frame ops ?e = Some nf" "\<not> is_unused ops ?e"
    using assms(1) f0 nf by (auto simp: entry_laws_def)
  have f0_old: "taken s f0" "f0 \<noteq> df" using Suc.prems(3) f0 by auto
  have sub_old: "taken s g \<and> g \<noteq> df"
    if "i < 512" "\<not> is_unused ops (t f0 i)" "g \<in> sub_frames ops t n (t f0 i)" for g i
    using sub_frames_child[of ops src f0 i t n, OF f0 that(1,2)] that(3) Suc.prems(3) by blast
  define P where "P k w \<longleftrightarrow> ok (snd w) \<and> ?lo \<le> taken (snd w) \<and> fst w df di = ?e
      \<and> (\<forall>g i. taken s g \<longrightarrow> (g, i) \<noteq> (df, di) \<longrightarrow> fst w g i = t g i)
      \<and> (\<forall>j<k. slot_done ops cow n t f0 nf ?lo (taken (snd w)) j (fst w))" for k w
  have "P 512 (t', s')"
  proof (rule run_fold_upt[OF loop])
    show "P 0 (write_entry df di ?e t, s1)" using s1 by (auto simp: P_def write_entry_def)
  next
    fix k w w' assume k: "k < 512" and P: "P k w" and
      st: "(\<lambda>(t, s). if \<not> is_unused ops (t f0 k) then clone_table_level ops alloc cow n (t f0 k) nf k (t, s)
        else Done (write_entry nf k (zero_entry ops) t, s)) w = Done w'"
    obtain tk sk t2 s2 where w: "w = (tk, sk)" "w' = (t2, s2)" by (cases w; cases w')
    have Pk: "ok sk" "?lo \<le> taken sk" "tk df di = ?e" "\<And>j. j < k \<Longrightarrow> slot_done ops cow n t f0 nf ?lo (taken sk) j tk"
      "\<And>g i. taken s g \<Longrightarrow> (g, i) \<noteq> (df, di) \<Longrightarrow> tk g i = t g i"
      using P by (auto simp: P_def w)
    have same: "tk f0 k = t f0 k" using Pk(5) f0_old by auto
    have df: "df \<noteq> nf" "?lo nf" using nf Suc.prems(4) by auto
    show "P (Suc k) w'"
    proof (cases "is_unused ops (t f0 k)")
      case True
      then have w': "t2 = write_entry nf k (zero_entry ops) tk" "s2 = sk" using st same by (auto simp: w)
      have keep: "t2 g i = tk g i" if "(g, i) \<noteq> (nf, k)" for g i using that by (auto simp: w' write_entry_def)
      have "slot_done ops cow n t f0 nf ?lo (taken sk) j t2" if "j < k" for j
        using slot_done_later[OF Pk(4)[OF that] df(2) Pk(2) order_refl, where k = k and u = t2] keep that by auto
      moreover have "slot_done ops cow n t f0 nf ?lo (taken sk) k t2"
        using True by (simp add: slot_done_def w' write_entry_def)
      ultimately have "slot_done ops cow n t f0 nf ?lo (taken sk) j t2" if "j < Suc k" for j
        using that by (cases "j = k") auto
      with Pk nf df show ?thesis by (auto simp: P_def w w' write_entry_def)
    next
      case False
      have agree: "tk g i = t g i" if "g \<in> sub_frames ops t n (t f0 k)" for g i
        using sub_old[OF k False that] Pk(5) by auto
      note c = walk_cong[of ops t n "t f0 k" tk, OF agree]
      have fr: "\<forall>f\<in>sub_frames ops tk n (t f0 k). taken sk f \<and> f \<noteq> nf"
        using sub_old[OF k False] c(1) nf s1 Pk(2) by fastforce
      have st': "clone_table_level ops alloc cow n (t f0 k) nf k (tk, sk) = Done (t2, s2)"
        using st same False by (simp add: w)
      from Suc.IH[OF Pk(1) st' fr] df(2) Pk(2) have
        ih: "ok s2" "taken sk \<le> taken s2" "cloned ops cow (taken sk) (taken s2) n (t f0 k) nf k tk t2"
        by auto
      have keep: "t2 g i = tk g i" if "taken sk g" "(g, i) \<noteq> (nf, k)" for g i
        using ih(3) that by (auto simp: cloned_def)
      have "slot_done ops cow n t f0 nf ?lo (taken s2) k t2"
        using ih(3) False c(2) Pk(2) by (fastforce simp: slot_done_def cloned_def)
      moreover have "slot_done ops cow n t f0 nf ?lo (taken s2) j t2" if "j < k" for j
        using slot_done_later[OF Pk(4)[OF that] df(2) Pk(2) ih(2), where k = k and u = t2] keep that by auto
      moreover have old: "t2 g i = tk g i" if "taken s g" for g i
        using that nf s1 Pk(2) by (intro keep) auto
      ultimately show ?thesis using ih(1,2) Pk(2,3,5) old[OF Suc.prems(4)] by (auto simp: P_def w less_Suc_eq)
    qed
  qed
  then show ?case
    using cloned_from_slots[of ops src f0 t' df di nf "taken s" t cow n ?lo "taken s'"] f0 e nf s1 assms(1)
    by (auto simp: P_def entry_laws_def)
qed

text \<open>Cloning the lower half of a top-level table into an empty one.\<close>

lemma clone_user_loop:
  assumes "entry_laws ops" "ok s"
    and loop: "run_fold (\<lambda>i (t, s). if \<not> is_unused ops (t src i) then clone_table_level ops alloc cow 3 (t src i) dst i (t, s)
        else Done (t, s)) [0..<256] (t, s) = Done (t', s')"
    and "taken s src" "taken s dst" "src \<noteq> dst" "\<forall>i<256. t dst i = zero_entry ops"
    and sub: "\<And>i f. i < 256 \<Longrightarrow> \<not> is_unused ops (t src i) \<Longrightarrow> f \<in> sub_frames ops t 3 (t src i) \<Longrightarrow>
      taken s f \<and> f \<noteq> dst"
  shows "ok s' \<and> taken s \<le> taken s' \<and> (\<forall>g i. taken s g \<longrightarrow> g \<noteq> dst \<longrightarrow> t' g i = t g i)
    \<and> (\<forall>j<256. slot_done ops cow 3 t src dst (taken s) (taken s') j t')"
proof -
  let ?lo = "taken s"
  define P where "P k w \<longleftrightarrow> ok (snd w) \<and> ?lo \<le> taken (snd w)
      \<and> (\<forall>g i. ?lo g \<longrightarrow> (g \<noteq> dst \<or> k \<le> i) \<longrightarrow> fst w g i = t g i)
      \<and> (\<forall>j<k. slot_done ops cow 3 t src dst ?lo (taken (snd w)) j (fst w))" for k w
  have "P 256 (t', s')"
  proof (rule run_fold_upt[OF loop])
    show "P 0 (t, s)" using assms(2) by (simp add: P_def)
  next
    fix k w w' assume k: "k < 256" and P: "P k w" and
      st: "(\<lambda>(t, s). if \<not> is_unused ops (t src k) then clone_table_level ops alloc cow 3 (t src k) dst k (t, s)
        else Done (t, s)) w = Done w'"
    obtain tk sk u s2 where w: "w = (tk, sk)" "w' = (u, s2)" by (cases w; cases w')
    have Pk: "ok sk" "?lo \<le> taken sk" "\<And>j. j < k \<Longrightarrow> slot_done ops cow 3 t src dst ?lo (taken sk) j tk"
      "\<And>g i. ?lo g \<Longrightarrow> g \<noteq> dst \<or> k \<le> i \<Longrightarrow> tk g i = t g i" using P by (auto simp: P_def w)
    have same: "tk src k = t src k" using Pk(4) assms(4,6) by blast
    have step: "ok s2 \<and> taken sk \<le> taken s2 \<and> slot_done ops cow 3 t src dst ?lo (taken s2) k u
      \<and> (\<forall>g i. taken sk g \<longrightarrow> (g, i) \<noteq> (dst, k) \<longrightarrow> u g i = tk g i)"
    proof (cases "is_unused ops (t src k)")
      case True
      moreover have "tk dst k = zero_entry ops" using Pk(4)[OF assms(5)] assms(7) k by simp
      ultimately show ?thesis using st same Pk(1) by (simp add: w slot_done_def)
    next
      case False
      have agree: "tk g i = t g i" if "g \<in> sub_frames ops t 3 (t src k)" for g i
        using sub[OF k False that] Pk(4) by blast
      note c = walk_cong[of ops t 3 "t src k" tk, OF agree]
      have fr: "\<forall>f\<in>sub_frames ops tk 3 (t src k). taken sk f \<and> f \<noteq> dst"
        using sub[OF k False] c(1) Pk(2) by fastforce
      have "clone_table_level ops alloc cow 3 (t src k) dst k (tk, sk) = Done (u, s2)"
        using st same False by (simp add: w)
      from clone_table_level_spec[OF assms(1) Pk(1) this fr] assms(5) Pk(2)
      have ih: "ok s2" "taken sk \<le> taken s2" "cloned ops cow (taken sk) (taken s2) 3 (t src k) dst k tk u"
        by auto
      have "slot_done ops cow 3 t src dst ?lo (taken s2) k u"
        using ih(3) False c(2) Pk(2) by (fastforce simp: slot_done_def cloned_def)
      with ih show ?thesis by (auto simp: cloned_def)
    qed
    have "slot_done ops cow 3 t src dst ?lo (taken s2) j u" if "j < k" for j
      using slot_done_later[OF Pk(3)[OF that] assms(5) Pk(2), of "taken s2" k u] step that by auto
    moreover have "u g i = t g i" if "?lo g" "g \<noteq> dst \<or> Suc k \<le> i" for g i
    proof -
      have "u g i = tk g i" using step that Pk(2) by auto
      with Pk(4)[OF that(1)] that(2) show ?thesis by auto
    qed
    ultimately show "P (Suc k) w'" using step Pk(2) by (auto simp: P_def w less_Suc_eq)
  qed
  then show ?thesis by (auto simp: P_def)
qed

text \<open>Cloning returns when the source tables are present and enough frames are left: one for each of them.\<close>

lemma clone_table_level_returns:
  assumes "entry_laws ops" "ok s" "tables_present ops t n src" "can_take alloc (table_count ops t n src + m) s"
    "\<forall>f\<in>sub_frames ops t n src. taken s f \<and> f \<noteq> df" "taken s df"
  shows "\<exists>t' s'. clone_table_level ops alloc cow n src df di (t, s) = Done (t', s') \<and> can_take alloc m s'"
  using assms(2-)
proof (induction n arbitrary: src df di t s m)
  case (Suc n)
  obtain f0 where f0: "entry_frame ops src = Some f0" using Suc.prems(2) by (cases "entry_frame ops src") auto
  let ?c = "\<lambda>i. if is_unused ops (t f0 i) then 0 else table_count ops t n (t f0 i)"
  obtain nf s1 where al: "alloc s = Done (Some nf, s1)" and left: "can_take alloc ((\<Sum>i<512. ?c i) + m) s1"
    using Suc.prems(3) f0 by (auto split: run.splits option.splits prod.splits)
  note nf = pool_fresh[OF Suc.prems(1) al] and s1 = pool_keeps[OF Suc.prems(1) al]
  have f0_old: "taken s f0" "f0 \<noteq> df" using Suc.prems(4) f0 by auto
  have sub_old: "taken s g \<and> g \<noteq> df"
    if "i < 512" "\<not> is_unused ops (t f0 i)" "g \<in> sub_frames ops t n (t f0 i)" for g i
    using sub_frames_child[of ops src f0 i t n, OF f0 that(1,2)] that(3) Suc.prems(4) by blast
  define P where "P k w \<longleftrightarrow> ok (snd w) \<and> taken s1 \<le> taken (snd w)
      \<and> (\<forall>g i. taken s g \<longrightarrow> g \<noteq> df \<longrightarrow> fst w g i = t g i)
      \<and> can_take alloc ((\<Sum>i\<in>{k..<512}. ?c i) + m) (snd w)" for k w
  let ?f = "\<lambda>i (t, s). if \<not> is_unused ops (t f0 i) then clone_table_level ops alloc cow n (t f0 i) nf i (t, s)
        else Done (write_entry nf i (zero_entry ops) t, s)"
  let ?w = "(write_entry df di (set_frame ops nf (entry_flags ops src)) t, s1)"
  have "\<exists>w'. run_fold ?f [0..<512] ?w = Done w' \<and> P 512 w'"
  proof (rule run_fold_upt_Done)
    show "P 0 ?w" using s1 left by (auto simp: P_def write_entry_def atLeast0LessThan)
  next
    fix k w assume k: "k < 512" and P: "P k w"
    obtain tk sk where w: "w = (tk, sk)" by (cases w)
    have Pk: "ok sk" "taken s1 \<le> taken sk" "\<And>g i. taken s g \<Longrightarrow> g \<noteq> df \<Longrightarrow> tk g i = t g i"
      "can_take alloc (?c k + ((\<Sum>i\<in>{Suc k..<512}. ?c i) + m)) sk"
      using P k by (auto simp: P_def w sum.atLeast_Suc_lessThan add.assoc)
    have same: "tk f0 k = t f0 k" using Pk(3) f0_old by auto
    show "\<exists>w'. ?f k w = Done w' \<and> P (Suc k) w'"
    proof (cases "is_unused ops (t f0 k)")
      case True
      with Pk nf same show ?thesis by (auto simp: P_def w write_entry_def)
    next
      case False
      have agree: "tk g i = t g i" if "g \<in> sub_frames ops t n (t f0 k)" for g i
        using sub_old[OF k False that] Pk(3) by auto
      note c = walk_cong(1)[of ops t n "t f0 k" tk, OF agree] and cc = count_cong[of ops t n "t f0 k" tk, OF agree]
      have fr: "\<forall>f\<in>sub_frames ops tk n (t f0 k). taken sk f \<and> f \<noteq> nf"
        using sub_old[OF k False] c nf s1 Pk(2) by (metis predicate1D)
      have pr: "tables_present ops tk n (t f0 k)" using Suc.prems(2) f0 k False cc by simp
      have nk: "taken sk nf" using nf Pk(2) by auto
      obtain u s2 where u: "clone_table_level ops alloc cow n (t f0 k) nf k (tk, sk) = Done (u, s2)"
        "can_take alloc ((\<Sum>i\<in>{Suc k..<512}. ?c i) + m) s2"
        using Suc.IH[OF Pk(1) pr _ fr nk] Pk(4) False cc by fastforce
      from clone_table_level_spec[OF assms(1) Pk(1) u(1) fr nk]
      have sp: "ok s2" "taken sk \<le> taken s2" "\<And>g i. taken sk g \<Longrightarrow> g \<noteq> nf \<Longrightarrow> u g i = tk g i"
        by (auto simp: cloned_def)
      have "u g i = t g i" if "taken s g" "g \<noteq> df" for g i
      proof -
        have "taken sk g" "g \<noteq> nf" using that(1) nf s1 Pk(2) by auto
        then show ?thesis using sp(3) Pk(3)[OF that] by simp
      qed
      with u sp Pk(2) same False show ?thesis by (auto simp: P_def w)
    qed
  qed
  then show ?case using al f0 by (auto simp: P_def Let_def)
qed simp

end

end
