(* ===== verification/Process.thy ===== *)
theory Process
  imports Paging Elf Scheduler
begin

text \<open>
  Processes (\<^verbatim>\<open>kernel/src/process.rs\<close>): building an address space from an ELF file, mapping regions and
  forking.  The page mapper and the address type are those of the \<^verbatim>\<open>x86_64\<close> crate: the argument \<open>mp\<close>.
  Page tables and the bytes of other frames are two components of the state, \<open>p_tables\<close> and \<open>p_phys\<close>;
  both are physical memory seen through the kernel's window.
\<close>


section \<open>Definitions\<close>

record ('e, 's) mapper =
  mp_translate :: "u64 \<Rightarrow> 'e tables \<Rightarrow> u64 \<Rightarrow> u64 option"
  mp_map_to :: "u64 \<Rightarrow> u64 \<Rightarrow> u64 \<Rightarrow> u64 \<Rightarrow> 'e tables \<times> 's \<Rightarrow> (bool \<times> 'e tables \<times> 's) run"
  va_new :: "u64 \<Rightarrow> u64 run"
  va_add :: "u64 \<Rightarrow> u64 \<Rightarrow> u64 run"
  va_sub :: "u64 \<Rightarrow> u64 \<Rightarrow> u64 run"
  page_of :: "u64 \<Rightarrow> u64"
  page_range :: "u64 \<Rightarrow> u64 \<Rightarrow> u64 list"
  p_index :: "nat \<Rightarrow> u64 \<Rightarrow> nat"

record ('e, 's) pworld =
  p_tables :: "'e tables"
  p_alloc :: 's
  p_phys :: memory
  next_process_id :: nat

definition process_id_new :: "('e, 's) pworld \<Rightarrow> nat \<times> ('e, 's) pworld" where
  "process_id_new w = (next_process_id w, w\<lparr>next_process_id := (next_process_id w + 1) mod usize_limit\<rparr>)"

definition kernel_process :: "u64 \<Rightarrow> process_inner" where
  "kernel_process pml4 = \<lparr>proc_id = 0, pml4_frame = pml4, entry_point = 0, proc_stack_top = 0, threads = []\<rparr>"

definition add_thread :: "nat \<Rightarrow> process_inner \<Rightarrow> process_inner" where
  "add_thread tid p = p\<lparr>threads := threads p @ [tid]\<rparr>"

definition map_user_page ::
  "('e, 's) mapper \<Rightarrow> ('s \<Rightarrow> (u64 option \<times> 's) run) \<Rightarrow> u64 \<Rightarrow> u64 \<Rightarrow> u64 \<Rightarrow> 'e tables \<times> 's \<Rightarrow> ('e tables \<times> 's) run" where
  "map_user_page mp alloc pml4 flags page w =
     (if mp_translate mp pml4 (fst w) page = None then
        run_bind (alloc (snd w)) (\<lambda>(f, s). run_bind (run_the f) (\<lambda>frame.
        run_bind (mp_map_to mp pml4 page frame flags (fst w, s)) (\<lambda>(mapped, w').
        if mapped then Done w' else Panic)))
      else Done w)"

definition map_user_region ::
  "'e entry_ops \<Rightarrow> ('e, 's) mapper \<Rightarrow> ('s \<Rightarrow> (u64 option \<times> 's) run) \<Rightarrow> u64 \<Rightarrow> u64 \<Rightarrow> u64 \<Rightarrow> u64
    \<Rightarrow> 'e tables \<times> 's \<Rightarrow> ('e tables \<times> 's) run" where
  "map_user_region ops mp alloc pml4 virt_start sz extra_flags w =
     (let flags = PRESENT OR USER_ACCESSIBLE OR extra_flags in
      run_bind (va_add mp virt_start sz) (\<lambda>e. run_bind (va_sub mp e 1) (\<lambda>last.
      run_bind (run_fold (map_user_page mp alloc pml4 flags) (page_range mp (page_of mp virt_start) (page_of mp last)) w)
        (\<lambda>(t, s). Done (add_user_bit ops pml4 (p_index mp 4 virt_start) t, s)))))"

definition map_kernel_page ::
  "('e, 's) mapper \<Rightarrow> ('s \<Rightarrow> (u64 option \<times> 's) run) \<Rightarrow> u64 \<Rightarrow> u64 \<Rightarrow> u64 \<Rightarrow> 'e tables \<times> 's \<Rightarrow> ('e tables \<times> 's) run" where
  "map_kernel_page mp alloc pml4 flags page w =
     run_bind (alloc (snd w)) (\<lambda>(f, s). run_bind (run_the f) (\<lambda>frame.
     run_bind (mp_map_to mp pml4 page frame flags (fst w, s)) (\<lambda>(mapped, w').
     if mapped then Done w' else Panic)))"

definition map_kernel_region ::
  "('e, 's) mapper \<Rightarrow> ('s \<Rightarrow> (u64 option \<times> 's) run) \<Rightarrow> u64 \<Rightarrow> u64 \<Rightarrow> u64 \<Rightarrow> u64 \<Rightarrow> 'e tables \<times> 's \<Rightarrow> ('e tables \<times> 's) run" where
  "map_kernel_region mp alloc pml4 virt_start sz flags w =
     run_bind (va_add mp virt_start sz) (\<lambda>e. run_bind (va_sub mp e 1) (\<lambda>last.
     run_fold (map_kernel_page mp alloc pml4 (flags OR PRESENT)) (page_range mp (page_of mp virt_start) (page_of mp last)) w))"

text \<open>The copy of a segment's file bytes page by page, and the zeros after them; \<open>tr\<close> is the process's
  translation.\<close>

function copy_chunks ::
  "(u64 \<Rightarrow> u64 \<Rightarrow> u64 run) \<Rightarrow> (u64 \<Rightarrow> u64 option) \<Rightarrow> u8 list \<Rightarrow> nat \<Rightarrow> u64 \<Rightarrow> nat \<Rightarrow> nat \<Rightarrow> memory \<Rightarrow> (nat \<times> memory) run" where
  "copy_chunks add tr elf file_offset virt_start file_size offset phys =
     (if offset < file_size then
        run_bind (add virt_start (of_nat offset)) (\<lambda>chunk_virt.
        run_bind (run_the (tr chunk_virt)) (\<lambda>chunk_phys.
        let copy_size = min (file_size - offset) (4096 - unat chunk_virt mod 4096) in
        run_bind (usize_add file_offset offset) (\<lambda>from.
        run_bind (index_or_panic from elf) (\<lambda>_.
        copy_chunks add tr elf file_offset virt_start file_size (offset + copy_size)
          (write_mem chunk_phys (sub_slice from (from + copy_size) elf) phys)))))
      else Done (offset, phys))"
  by pat_completeness auto
termination
  by (relation "measure (\<lambda>(add, tr, elf, fo, v, fs, offset, phys). fs - offset)") (auto simp: Let_def)

function zero_chunks ::
  "(u64 \<Rightarrow> u64 \<Rightarrow> u64 run) \<Rightarrow> (u64 \<Rightarrow> u64 option) \<Rightarrow> u64 \<Rightarrow> nat \<Rightarrow> nat \<Rightarrow> memory \<Rightarrow> memory run" where
  "zero_chunks add tr virt_start memory_size offset phys =
     (if offset < memory_size then
        run_bind (add virt_start (of_nat offset)) (\<lambda>chunk_virt.
        run_bind (run_the (tr chunk_virt)) (\<lambda>chunk_phys.
        let copy_size = min (memory_size - offset) (4096 - unat chunk_virt mod 4096) in
        zero_chunks add tr virt_start memory_size (offset + copy_size)
          (write_mem chunk_phys (replicate copy_size 0) phys)))
      else Done phys)"
  by pat_completeness auto
termination
  by (relation "measure (\<lambda>(add, tr, v, ms, offset, phys). ms - offset)") (auto simp: Let_def)

declare copy_chunks.simps [simp del] zero_chunks.simps [simp del]

definition segment_flags :: "program_header \<Rightarrow> u64" where
  "segment_flags ph = (if ph_flags ph AND PF_W \<noteq> 0 then WRITABLE else 0)
     OR (if ph_flags ph AND PF_X = 0 then NO_EXECUTE else 0)"

definition load_segment ::
  "'e entry_ops \<Rightarrow> ('e, 's) mapper \<Rightarrow> ('s \<Rightarrow> (u64 option \<times> 's) run) \<Rightarrow> u64 \<Rightarrow> u8 list \<Rightarrow> program_header
    \<Rightarrow> ('e, 's) pworld \<Rightarrow> ('e, 's) pworld run" where
  "load_segment ops mp alloc pml4 elf ph w =
     run_bind (va_new mp (ph_virtual_address ph)) (\<lambda>virt_start.
     run_bind (map_user_region ops mp alloc pml4 virt_start (ph_memory_size ph) (segment_flags ph) (p_tables w, p_alloc w)) (\<lambda>(t, s).
     run_bind (copy_chunks (va_add mp) (mp_translate mp pml4 t) elf (unat (ph_file_offset ph)) virt_start
       (unat (ph_file_size ph)) 0 (p_phys w)) (\<lambda>(offset, phys).
     run_bind (zero_chunks (va_add mp) (mp_translate mp pml4 t) virt_start (unat (ph_memory_size ph)) offset phys) (\<lambda>phys.
     Done (w\<lparr>p_tables := t, p_alloc := s, p_phys := phys\<rparr>)))))"

fun load_segments ::
  "'e entry_ops \<Rightarrow> ('e, 's) mapper \<Rightarrow> ('s \<Rightarrow> (u64 option \<times> 's) run) \<Rightarrow> u64 \<Rightarrow> u8 list \<Rightarrow> elf_header \<Rightarrow> nat list
    \<Rightarrow> ('e, 's) pworld \<Rightarrow> ((parse_error + unit) \<times> ('e, 's) pworld) run" where
  "load_segments ops mp alloc pml4 elf header [] w = Done (Inr (), w)"
| "load_segments ops mp alloc pml4 elf header (i # is) w =
     run_bind (parse_program_header elf header (of_nat i)) (\<lambda>r. case r of
         Inl e \<Rightarrow> Done (Inl e, w)
       | Inr None \<Rightarrow> load_segments ops mp alloc pml4 elf header is w
       | Inr (Some ph) \<Rightarrow>
           if ph_memory_size ph = 0 then load_segments ops mp alloc pml4 elf header is w
           else (case usize_checked_add (unat (ph_file_offset ph)) (unat (ph_file_size ph)) of
               None \<Rightarrow> Done (Inl ProgramHeaderOutOfBounds, w)
             | Some file_end \<Rightarrow>
                 if length elf < file_end then Done (Inl ProgramHeaderOutOfBounds, w)
                 else run_bind (load_segment ops mp alloc pml4 elf ph w) (load_segments ops mp alloc pml4 elf header is)))"

definition new_from_elf ::
  "'e entry_ops \<Rightarrow> ('e, 's) mapper \<Rightarrow> ('s \<Rightarrow> (u64 option \<times> 's) run) \<Rightarrow> u64 \<Rightarrow> u8 list
    \<Rightarrow> ('e, 's) pworld \<Rightarrow> ((parse_error + process_inner) \<times> ('e, 's) pworld) run" where
  "new_from_elf ops mp alloc kernel_cr3 elf w =
     run_bind (parse_header elf) (\<lambda>r. case r of Inl e \<Rightarrow> Done (Inl e, w) | Inr header \<Rightarrow>
     run_bind (create_process_pml4 ops alloc kernel_cr3 (p_tables w, p_alloc w)) (\<lambda>(pml4, t, s).
     run_bind (va_new mp 0x0000700000000000) (\<lambda>stack_start.
     run_bind (va_add mp stack_start (4096 * 8)) (\<lambda>stack_top.
     let (pid, w) = process_id_new (w\<lparr>p_tables := t, p_alloc := s\<rparr>) in
     run_bind (va_new mp (eh_entry header)) (\<lambda>entry.
     let proc = \<lparr>proc_id = pid, pml4_frame = pml4, entry_point = entry, proc_stack_top = stack_top, threads = []\<rparr> in
     run_bind (map_user_region ops mp alloc pml4 stack_start (4096 * 8) WRITABLE (p_tables w, p_alloc w)) (\<lambda>(t, s).
     run_bind (load_segments ops mp alloc pml4 elf header [0..<unat (program_header_count header)]
       (w\<lparr>p_tables := t, p_alloc := s\<rparr>)) (\<lambda>(r, w).
     Done (case r of Inl e \<Rightarrow> Inl e | Inr _ \<Rightarrow> Inr proc, w))))))))"

definition process_fork ::
  "'e entry_ops \<Rightarrow> ('s \<Rightarrow> (u64 option \<times> 's) run) \<Rightarrow> u64 \<Rightarrow> process_inner \<Rightarrow> ('e, 's) pworld
    \<Rightarrow> (process_inner \<times> ('e, 's) pworld) run" where
  "process_fork ops alloc kernel_cr3 parent w =
     run_bind (create_process_pml4 ops alloc kernel_cr3 (p_tables w, p_alloc w)) (\<lambda>(pml4, t, s).
     run_bind (clone_user_mappings_cow ops alloc (pml4_frame parent) pml4 (t, s)) (\<lambda>(t, s).
     let (pid, w) = process_id_new (w\<lparr>p_tables := t, p_alloc := s\<rparr>) in
     Done (\<lparr>proc_id = pid, pml4_frame = pml4, entry_point = entry_point parent,
            proc_stack_top = proc_stack_top parent, threads = []\<rparr>, w)))"


section \<open>Forking\<close>

text \<open>The page a user address leads to, and the frames of a process's user tables.\<close>

fun user_leaf :: "'e entry_ops \<Rightarrow> 'e tables \<Rightarrow> u64 \<Rightarrow> nat list \<Rightarrow> 'e option" where
  "user_leaf ops t pml4 [] = None"
| "user_leaf ops t pml4 (i # path) = (if is_unused ops (t pml4 i) then None else leaf_at ops t 3 (t pml4 i) path)"

definition user_frames :: "'e entry_ops \<Rightarrow> 'e tables \<Rightarrow> u64 \<Rightarrow> u64 set" where
  "user_frames ops t pml4 = (\<Union>i<256. if is_unused ops (t pml4 i) then {} else sub_frames ops t 3 (t pml4 i))"

definition user_table_count :: "'e entry_ops \<Rightarrow> 'e tables \<Rightarrow> u64 \<Rightarrow> nat" where
  "user_table_count ops t pml4 = (\<Sum>i<256. if is_unused ops (t pml4 i) then 0 else table_count ops t 3 (t pml4 i))"

definition user_tables_present :: "'e entry_ops \<Rightarrow> 'e tables \<Rightarrow> u64 \<Rightarrow> bool" where
  "user_tables_present ops t pml4 \<longleftrightarrow> (\<forall>i<256. \<not> is_unused ops (t pml4 i) \<longrightarrow> tables_present ops t 3 (t pml4 i))"

definition user_path :: "nat list \<Rightarrow> bool" where
  "user_path path \<longleftrightarrow> length path = 4 \<and> hd path < 256 \<and> (\<forall>i\<in>set path. i < 512)"

lemma copy_entries:
  assumes "src \<noteq> dst"
  shows "fold (\<lambda>i t. write_entry dst i (t src i) t) is t g j = (if g = dst \<and> j \<in> set is then t src j else t g j)"
  using assms by (induction "is" arbitrary: t) (auto simp: write_entry_def)

context frame_pool
begin

lemma create_process_pml4_spec:
  assumes "ok s" "create_process_pml4 ops alloc kp (t, s) = Done (nf, t', s')" "taken s kp"
  shows "ok s'" "\<not> taken s nf" "taken s' nf" "taken s \<le> taken s'"
    "t' g i = (if g = nf then (if 256 \<le> i \<and> i < 512 then t kp i else zero_entry ops) else t g i)"
proof -
  from assms(2) have a: "alloc s = Done (Some nf, s')"
    "t' = fold (\<lambda>i t. write_entry nf i (t kp i) t) [256..<512] (t(nf := (\<lambda>_. zero_entry ops)))"
    by (auto simp: create_process_pml4_def run_bind_eq_Done Let_def simp del: upt_rec_numeral)
  show nf: "ok s'" "\<not> taken s nf" "taken s' nf" "taken s \<le> taken s'"
    using pool_fresh[OF assms(1) a(1)] pool_keeps[OF assms(1) a(1)] by auto
  from nf(2) assms(3) have "kp \<noteq> nf" by auto
  from copy_entries[OF this, of "[256..<512]" "t(nf := (\<lambda>_. zero_entry ops))" g i] this
  show "t' g i = (if g = nf then (if 256 \<le> i \<and> i < 512 then t kp i else zero_entry ops) else t g i)"
    unfolding a(2) by (auto simp del: upt_rec_numeral)
qed

lemma fork_tables:
  assumes laws: "entry_laws ops" and ok: "ok s"
    and cr: "create_process_pml4 ops alloc kp (t, s) = Done (nf, t1, s1)"
    and cl: "clone_user_mappings_cow ops alloc src nf (t1, s1) = Done (t', s')"
    and old: "\<forall>f\<in>insert kp (insert src (user_frames ops t src)). taken s f"
  shows "taken s g \<Longrightarrow> t' g i = t g i" and "256 \<le> i \<Longrightarrow> i < 512 \<Longrightarrow> t' nf i = t src i"
    and "user_path path \<Longrightarrow> user_leaf ops t' nf path = map_option (clone_leaf ops True) (user_leaf ops t src path)"
    and "\<not> taken s nf"
proof -
  have kp: "taken s kp" using old by simp
  note c = create_process_pml4_spec[OF ok cr kp]
  show lo: "\<not> taken s nf" by (rule c(2))
  have t1: "t1 g i = t g i" if "taken s g" for g i using c(2,5) that by auto
  have src: "taken s src" "src \<noteq> nf" using old c(2) by auto
  have fl: "taken s \<le> taken s1" by (rule c(4))
  have sub0: "taken s f" if "i < 256" "\<not> is_unused ops (t src i)" "f \<in> sub_frames ops t 3 (t src i)" for i f
    using old that by (auto simp: user_frames_def split: if_splits)
  have sub: "taken s1 f \<and> f \<noteq> nf"
    if i: "i < 256" "\<not> is_unused ops (t1 src i)" "f \<in> sub_frames ops t1 3 (t1 src i)" for i f
  proof -
    have e: "t1 src i = t src i" by (rule t1[OF src(1)])
    have "sub_frames ops t1 3 (t src i) = sub_frames ops t 3 (t src i)"
      using sub0[OF i(1)] i(2) e t1 by (intro walk_cong(1)) auto
    then have "taken s f" using sub0[OF i(1)] i(2,3) e by simp
    with fl c(2) show ?thesis by auto
  qed
  from cl obtain t2 where loop: "run_fold (\<lambda>i (t, s). if \<not> is_unused ops (t src i)
        then clone_table_level ops alloc True 3 (t src i) nf i (t, s) else Done (t, s)) [0..<256] (t1, s1) = Done (t2, s')"
    and t': "t' = fold (\<lambda>i t. write_entry nf i (t src i) t) [256..<512] t2"
    by (auto simp: clone_user_mappings_cow_def run_bind_eq_Done simp del: upt_rec_numeral)
  have z: "\<forall>i<256. t1 nf i = zero_entry ops" using c(5) by auto
  have src1: "taken s1 src" using src(1) fl by auto
  from clone_user_loop[OF laws c(1) loop src1 c(3) src(2) z] sub
  have l: "\<And>g i. taken s1 g \<Longrightarrow> g \<noteq> nf \<Longrightarrow> t2 g i = t1 g i"
    "\<And>j. j < 256 \<Longrightarrow> slot_done ops True 3 t1 src nf (taken s1) (taken s') j t2" by blast+
  have e': "t' g i = (if g = nf \<and> 256 \<le> i \<and> i < 512 then t2 src i else t2 g i)" for g i
    using copy_entries[OF src(2), of "[256..<512]" t2] by (simp add: t' del: upt_rec_numeral)
  have t2: "t2 g i = t g i" if "taken s g" for g i
  proof -
    have "taken s1 g" "g \<noteq> nf" using that fl c(2) by auto
    then have "t2 g i = t1 g i" by (rule l(1))
    also have "\<dots> = t g i" by (rule t1[OF that])
    finally show ?thesis .
  qed
  show "t' g i = t g i" if "taken s g"
  proof -
    have "g \<noteq> nf" using that c(2) by auto
    then show ?thesis unfolding e' using t2[OF that] by simp
  qed
  show "t' nf i = t src i" if "256 \<le> i" "i < 512"
    unfolding e' using that t2[OF src(1)] by simp
  show "user_leaf ops t' nf path = map_option (clone_leaf ops True) (user_leaf ops t src path)" if p: "user_path path"
  proof -
    obtain i rest where path: "path = i # rest" "i < 256" "\<forall>i\<in>set rest. i < 512" "length rest = 3"
      using p by (cases path) (auto simp: user_path_def)
    have e: "t1 src i = t src i" by (rule t1[OF src(1)])
    have ti: "t' nf i = t2 nf i" using e' path(2) by simp
    note sl = l(2)[OF path(2)]
    show ?thesis
    proof (cases "is_unused ops (t src i)")
      case True
      then show ?thesis using sl e ti laws by (simp add: path(1) slot_done_def entry_laws_def)
    next
      case False
      have "leaf_at ops t' 3 (t2 nf i) rest = leaf_at ops t2 3 (t2 nf i) rest"
        using sl False e e' c(3) path(3) by (intro walk_cong(2)) (auto simp: slot_done_def)
      moreover have "leaf_at ops t1 3 (t src i) rest = leaf_at ops t 3 (t src i) rest"
        using sub0[OF path(2) False] t1 path(3) by (intro walk_cong(2)) auto
      ultimately show ?thesis using sl False e ti path(3,4) by (simp add: path(1) slot_done_def)
    qed
  qed
qed

lemma clone_user_loop_returns:
  assumes "entry_laws ops" "ok s" "user_tables_present ops t src" "can_take alloc (user_table_count ops t src + m) s"
    "taken s src" "taken s dst" "src \<noteq> dst"
    and sub: "\<And>f. f \<in> user_frames ops t src \<Longrightarrow> taken s f \<and> f \<noteq> dst"
  shows "\<exists>w. run_fold (\<lambda>i (t, s). if \<not> is_unused ops (t src i) then clone_table_level ops alloc cow 3 (t src i) dst i (t, s)
        else Done (t, s)) [0..<256] (t, s) = Done w"
proof -
  let ?c = "\<lambda>i. if is_unused ops (t src i) then 0 else table_count ops t 3 (t src i)"
  define P where "P k w \<longleftrightarrow> ok (snd w) \<and> taken s \<le> taken (snd w)
      \<and> (\<forall>g i. taken s g \<longrightarrow> g \<noteq> dst \<longrightarrow> fst w g i = t g i)
      \<and> can_take alloc ((\<Sum>i\<in>{k..<256}. ?c i) + m) (snd w)" for k w
  let ?f = "\<lambda>i (t, s). if \<not> is_unused ops (t src i) then clone_table_level ops alloc cow 3 (t src i) dst i (t, s) else Done (t, s)"
  have "\<exists>w. run_fold ?f [0..<256] (t, s) = Done w \<and> P 256 w"
  proof (rule run_fold_upt_Done)
    show "P 0 (t, s)" using assms(2,4) by (simp add: P_def user_table_count_def atLeast0LessThan)
  next
    fix k w assume k: "k < 256" and P: "P k w"
    obtain tk sk where w: "w = (tk, sk)" by (cases w)
    have Pk: "ok sk" "taken s \<le> taken sk" "\<And>g i. taken s g \<Longrightarrow> g \<noteq> dst \<Longrightarrow> tk g i = t g i"
      "can_take alloc (?c k + ((\<Sum>i\<in>{Suc k..<256}. ?c i) + m)) sk"
      using P k by (auto simp: P_def w sum.atLeast_Suc_lessThan add.assoc)
    have same: "tk src k = t src k" using Pk(3) assms(5,7) by auto
    show "\<exists>w'. ?f k w = Done w' \<and> P (Suc k) w'"
    proof (cases "is_unused ops (t src k)")
      case True
      with Pk same show ?thesis by (auto simp: P_def w)
    next
      case False
      have old: "taken s g \<and> g \<noteq> dst" if "g \<in> sub_frames ops t 3 (t src k)" for g
        using sub[of g] that k False by (auto simp: user_frames_def)
      then have agree: "tk g i = t g i" if "g \<in> sub_frames ops t 3 (t src k)" for g i using that Pk(3) by auto
      note c = walk_cong(1)[of ops t 3 "t src k" tk, OF agree] and cc = count_cong[of ops t 3 "t src k" tk, OF agree]
      have fr: "\<forall>f\<in>sub_frames ops tk 3 (t src k). taken sk f \<and> f \<noteq> dst" using old c Pk(2) by (metis predicate1D)
      have pr: "tables_present ops tk 3 (t src k)" using assms(3) k False cc by (simp add: user_tables_present_def)
      have dk: "taken sk dst" using assms(6) Pk(2) by auto
      obtain u s2 where u: "clone_table_level ops alloc cow 3 (t src k) dst k (tk, sk) = Done (u, s2)"
        "can_take alloc ((\<Sum>i\<in>{Suc k..<256}. ?c i) + m) s2"
        using clone_table_level_returns[OF assms(1) Pk(1) pr _ fr dk] Pk(4) False cc by fastforce
      from clone_table_level_spec[OF assms(1) Pk(1) u(1) fr dk] u(2) Pk(2,3) same False
      show ?thesis by (simp add: P_def w cloned_def u(1)) (use predicate1D in fastforce)
    qed
  qed
  then show ?thesis by auto
qed

lemma fork_tables_returns:
  assumes laws: "entry_laws ops" and ok: "ok s" and "user_tables_present ops t src"
    and "can_take alloc (Suc (user_table_count ops t src)) s"
    and old: "\<forall>f\<in>insert kp (insert src (user_frames ops t src)). taken s f"
  shows "\<exists>nf t1 s1 t' s'. create_process_pml4 ops alloc kp (t, s) = Done (nf, t1, s1)
    \<and> clone_user_mappings_cow ops alloc src nf (t1, s1) = Done (t', s')"
proof -
  obtain nf s1 where al: "alloc s = Done (Some nf, s1)" and left: "can_take alloc (user_table_count ops t src) s1"
    using assms(4) by (auto split: run.splits option.splits prod.splits)
  obtain t1 where cr: "create_process_pml4 ops alloc kp (t, s) = Done (nf, t1, s1)"
    using al by (simp add: create_process_pml4_def Let_def del: upt_rec_numeral)
  have kp: "taken s kp" using old by simp
  note c = create_process_pml4_spec[OF ok cr kp]
  have t1: "t1 g i = t g i" if "taken s g" for g i using c(2,5) that by auto
  have src: "taken s1 src" "src \<noteq> nf" "taken s src" using old c(2,4) by auto
  have agree: "t1 g i = t g i" if "k < 256" "\<not> is_unused ops (t src k)" "g \<in> sub_frames ops t 3 (t src k)" for g i k
    using that old by (intro t1) (auto simp: user_frames_def)
  have e: "t1 src i = t src i" for i by (rule t1[OF src(3)])
  note cc = count_cong[OF agree] and ww = walk_cong(1)[OF agree]
  have fr: "user_frames ops t1 src = user_frames ops t src"
    unfolding user_frames_def e using ww by (intro SUP_cong) auto
  have pr: "user_tables_present ops t1 src" using assms(3) cc by (auto simp: user_tables_present_def e)
  have ct: "user_table_count ops t1 src = user_table_count ops t src"
    unfolding user_table_count_def e using cc by (intro sum.cong) auto
  have sub: "taken s1 f \<and> f \<noteq> nf" if "f \<in> user_frames ops t1 src" for f
    using that old c(2,4) fr by auto
  from clone_user_loop_returns[of ops s1 t1 src 0 nf True, OF laws c(1) pr _ src(1) c(3) src(2) sub] left ct
  obtain w where "run_fold (\<lambda>i (t, s). if \<not> is_unused ops (t src i)
        then clone_table_level ops alloc True 3 (t src i) nf i (t, s) else Done (t, s)) [0..<256] (t1, s1) = Done w"
    by (auto simp del: upt_rec_numeral)
  then show ?thesis using cr by (cases w) (auto simp: clone_user_mappings_cow_def simp del: upt_rec_numeral)
qed

end

end
