(* ===== verification/Process_Image.thy ===== *)
theory Process_Image
  imports Process
begin

text \<open>
  Loading a program: what a process sees in its user half after \<open>new_from_elf\<close>.  The page mapper of the
  \<^verbatim>\<open>x86_64\<close> crate is a parameter; \<open>mapper_laws\<close> states what it documents.
\<close>


section \<open>Pages and address spaces\<close>

definition user_addr :: "u64 \<Rightarrow> bool" where
  "user_addr v \<longleftrightarrow> unat v < 0x800000000000"

definition page_base :: "u64 \<Rightarrow> u64" where
  "page_base v = v AND NOT 0xFFF"

definition page_off :: "u64 \<Rightarrow> u64" where
  "page_off v = v AND 0xFFF"

lemma unat_page:
  "unat (page_base v) = unat v div 4096 * 4096" "unat (page_off v) = unat v mod 4096"
  using unat_and_not_mask[of 12 v] unat_and_mask[of 12 v] by (simp_all add: page_base_def page_off_def)

lemma page_base_idem [simp]: "page_base (page_base v) = page_base v"
  by (simp add: word_unat_eq_iff unat_page)

lemma page_base_aligned [simp]: "4096 dvd unat (page_base v)"
  by (simp add: unat_page)

lemma page_off_base [simp]: "page_off (page_base v) = 0"
  by (simp add: word_unat_eq_iff unat_page)

lemma page_base_id: "4096 dvd unat v \<Longrightarrow> page_base v = v"
  by (auto simp: word_unat_eq_iff unat_page)

lemma user_page_base [simp]: "user_addr v \<Longrightarrow> user_addr (page_base v)"
  unfolding user_addr_def unat_page by linarith

text \<open>The frames of the tables that translate the user half.\<close>

fun table_list :: "'e entry_ops \<Rightarrow> 'e tables \<Rightarrow> nat \<Rightarrow> 'e \<Rightarrow> u64 list" where
  "table_list ops t 0 e = []"
| "table_list ops t (Suc n) e = (case entry_frame ops e of
       None \<Rightarrow> []
     | Some f \<Rightarrow> f # concat (map (\<lambda>i. table_list ops t n (t f i)) [0..<512]))"

definition pml4_tables :: "'e entry_ops \<Rightarrow> 'e tables \<Rightarrow> u64 \<Rightarrow> u64 list" where
  "pml4_tables ops t pml4 = pml4 # concat (map (\<lambda>i. table_list ops t 3 (t pml4 i)) [0..<256])"

text \<open>What the crate documents.  Addresses of the lower half are made, added to and subtracted from without
  a panic; pages are the aligned blocks of 4096 bytes, and an inclusive range of pages lists them.  A
  translation is the translation of the page's start plus the offset.  \<open>map_to\<close> takes the frames of new
  tables from the allocator; where the tables of the user half form a tree, it maps the page to the frame,
  leaves the other pages as they are, and its new tables extend the tree.  An empty user half translates
  nothing, and setting the user flag of an entry changes no translation.\<close>

definition page_linear :: "(u64 \<Rightarrow> u64 option) \<Rightarrow> bool" where
  "page_linear tr \<longleftrightarrow> (\<forall>v. user_addr v \<longrightarrow> tr v = map_option (\<lambda>f. f + page_off v) (tr (page_base v))
     \<and> (\<forall>f. tr (page_base v) = Some f \<longrightarrow> 4096 dvd unat f))"

definition map_to_law :: "'e entry_ops \<Rightarrow> ('e, 's) mapper \<Rightarrow> ('s \<Rightarrow> (u64 option \<times> 's) run) \<Rightarrow> bool" where
  "map_to_law ops mp alloc \<longleftrightarrow> (\<forall>pml4 page frame flags t s t' s'.
     4096 dvd unat page \<longrightarrow> user_addr page \<longrightarrow> phys_frame frame
     \<longrightarrow> mp_map_to mp pml4 page frame flags (t, s) = Done (True, t', s')
     \<longrightarrow> (\<exists>n fs. take_frames alloc n s = Done (fs, s')
          \<and> (distinct (pml4_tables ops t pml4 @ frame # fs) \<longrightarrow>
               distinct (pml4_tables ops t' pml4)
               \<and> set (pml4_tables ops t' pml4) \<subseteq> set (pml4_tables ops t pml4) \<union> set fs
               \<and> (\<forall>v. user_addr v \<longrightarrow> mp_translate mp pml4 t' v
                    = (if page_base v = page then Some (frame + page_off v) else mp_translate mp pml4 t v)))))"

definition mapper_laws :: "'e entry_ops \<Rightarrow> ('e, 's) mapper \<Rightarrow> ('s \<Rightarrow> (u64 option \<times> 's) run) \<Rightarrow> bool" where
  "mapper_laws ops mp alloc \<longleftrightarrow>
     (\<forall>a. user_addr a \<longrightarrow> va_new mp a = Done a)
     \<and> (\<forall>a n. unat a + unat n < 0x800000000000 \<longrightarrow> va_add mp a n = Done (a + n))
     \<and> (\<forall>a n. user_addr a \<longrightarrow> n \<le> a \<longrightarrow> va_sub mp a n = Done (a - n))
     \<and> (\<forall>a. page_of mp a = page_base a)
     \<and> (\<forall>a b. a \<le> b \<longrightarrow> set (page_range mp (page_base a) (page_base b)) = {page_base v |v. a \<le> v \<and> v \<le> b})
     \<and> (\<forall>pml4 t. page_linear (mp_translate mp pml4 t))
     \<and> map_to_law ops mp alloc
     \<and> (\<forall>pml4 t v. user_addr v \<longrightarrow> (\<forall>i<256. t pml4 i = zero_entry ops) \<longrightarrow> mp_translate mp pml4 t v = None)
     \<and> (\<forall>pml4 t i v. mp_translate mp pml4 (add_user_bit ops pml4 i t) v = mp_translate mp pml4 t v)
     \<and> (\<forall>e. entry_frame ops (set_flags ops (entry_flags ops e OR USER_ACCESSIBLE) e) = entry_frame ops e)
     \<and> entry_frame ops (zero_entry ops) = None"

text \<open>A well-formed user half, for the frames \<open>tk\<close> in use: no two pages share a frame, the tables form a
  tree, no page is a table, and all these frames are in use.\<close>

definition space_ok :: "'e entry_ops \<Rightarrow> ('e, 's) mapper \<Rightarrow> u64 \<Rightarrow> (u64 \<Rightarrow> bool) \<Rightarrow> 'e tables \<Rightarrow> bool" where
  "space_ok ops mp pml4 tk t \<longleftrightarrow>
     (\<forall>v v' f. user_addr v \<longrightarrow> user_addr v' \<longrightarrow> mp_translate mp pml4 t (page_base v) = Some f
        \<longrightarrow> mp_translate mp pml4 t (page_base v') = Some f \<longrightarrow> page_base v = page_base v')
     \<and> distinct (pml4_tables ops t pml4)
     \<and> (\<forall>v f. user_addr v \<longrightarrow> mp_translate mp pml4 t (page_base v) = Some f \<longrightarrow> f \<notin> set (pml4_tables ops t pml4) \<and> tk f)
     \<and> (\<forall>f\<in>set (pml4_tables ops t pml4). tk f)"

text \<open>The byte a process sees.\<close>

definition view :: "(u64 \<Rightarrow> u64 option) \<Rightarrow> memory \<Rightarrow> u64 \<Rightarrow> u8 option" where
  "view tr phys v = map_option phys (tr v)"

definition memory_of :: "('e, 's) mapper \<Rightarrow> u64 \<Rightarrow> ('e, 's) pworld \<Rightarrow> u64 \<Rightarrow> u8 option" where
  "memory_of mp pml4 w = view (mp_translate mp pml4 (p_tables w)) (p_phys w)"

text \<open>The image a file describes: the bytes of a segment, and of all segments in the order of their
  headers, a later one over an earlier one.\<close>

definition in_segment :: "program_header \<Rightarrow> u64 \<Rightarrow> bool" where
  "in_segment ph u \<longleftrightarrow> unat (ph_virtual_address ph) \<le> unat u
     \<and> unat u < unat (ph_virtual_address ph) + unat (ph_memory_size ph)"

definition segment_byte :: "u8 list \<Rightarrow> program_header \<Rightarrow> u64 \<Rightarrow> u8" where
  "segment_byte elf ph u = (let k = unat u - unat (ph_virtual_address ph) in
     if k < unat (ph_file_size ph) then elf ! (unat (ph_file_offset ph) + k) else 0)"

fun image_byte :: "u8 list \<Rightarrow> elf_header \<Rightarrow> nat list \<Rightarrow> u64 \<Rightarrow> u8 option \<Rightarrow> u8 option" where
  "image_byte elf h [] u acc = acc"
| "image_byte elf h (i # is) u acc = image_byte elf h is u (case parse_program_header elf h (of_nat i) of
       Done (Inr (Some ph)) \<Rightarrow> if in_segment ph u then Some (segment_byte elf ph u) else acc
     | _ \<Rightarrow> acc)"

text \<open>Every segment lies in the user half.\<close>

definition segments_low :: "u8 list \<Rightarrow> elf_header \<Rightarrow> nat list \<Rightarrow> bool" where
  "segments_low elf h is \<longleftrightarrow> (\<forall>i\<in>set is. case parse_program_header elf h (of_nat i) of
       Done (Inr (Some ph)) \<Rightarrow> unat (ph_virtual_address ph) + unat (ph_memory_size ph) < 0x800000000000
     | _ \<Rightarrow> True)"


section \<open>Copying through the translation\<close>

definition lin :: "(u64 \<Rightarrow> u64 option) \<Rightarrow> bool" where
  "lin tr \<longleftrightarrow> page_linear tr
   \<and> (\<forall>v v' f. user_addr v \<longrightarrow> user_addr v' \<longrightarrow> tr (page_base v) = Some f \<longrightarrow> tr (page_base v') = Some f \<longrightarrow> page_base v = page_base v')"

lemma lin_page:
  assumes "lin tr" "user_addr v"
  shows "tr (page_base v) = Some f \<Longrightarrow> tr v = Some (f + page_off v) \<and> 4096 dvd unat f"
    and "tr (page_base v) = None \<Longrightarrow> tr v = None"
proof -
  have e: "tr v = map_option (\<lambda>f. f + page_off v) (tr (page_base v))"
    "\<And>f. tr (page_base v) = Some f \<Longrightarrow> 4096 dvd unat f"
    using assms unfolding lin_def page_linear_def by blast+
  show "tr (page_base v) = Some f \<Longrightarrow> tr v = Some (f + page_off v) \<and> 4096 dvd unat f"
    and "tr (page_base v) = None \<Longrightarrow> tr v = None" unfolding e(1) using e(2) by simp_all
qed

lemma lin_inj:
  "lin tr \<Longrightarrow> user_addr v \<Longrightarrow> user_addr v' \<Longrightarrow> tr (page_base v) = Some f \<Longrightarrow> tr (page_base v') = Some f
   \<Longrightarrow> page_base v = page_base v'"
  unfolding lin_def by blast

lemma frame_top: "4096 dvd unat (f :: u64) \<Longrightarrow> unat f + 4096 \<le> usize_limit"
proof (elim dvdE)
  fix k assume k: "unat f = 4096 * k"
  moreover have "unat f < 18446744073709551616" using unsigned_less[of f, where ?'a = nat] by simp
  ultimately have "k < 4503599627370496" by linarith
  then have "k + 1 \<le> 4503599627370496" by linarith
  with k show "unat f + 4096 \<le> usize_limit" by linarith
qed

lemma unat_in_frame:
  assumes "4096 dvd unat f" "unat k < 4096"
  shows "unat (f + k :: u64) = unat f + unat k"
proof -
  have "unat f + unat k < usize_limit" using frame_top[OF assms(1)] assms(2) by linarith
  then have "unat f + unat k < 2 ^ LENGTH(64)" by simp
  then show ?thesis by (rule unat_add_lem[THEN iffD1])
qed

lemma write_mem_range:
  assumes "unat p + length bs \<le> usize_limit"
  shows "write_mem p bs mem a = (if unat p \<le> unat a \<and> unat a < unat p + length bs then bs ! (unat a - unat p) else mem a)"
  using write_mem_at[of "unat p" bs "unat a" 0 mem] assms by simp

lemma same_page:
  assumes "x \<le> y" "y < x + (4096 - x mod 4096)"
  shows "y div 4096 = (x div 4096 :: nat)"
proof (rule div_nat_eqI)
  have "x div 4096 * 4096 + x mod 4096 = x" "x mod 4096 < 4096" by simp_all
  with assms show "4096 * (x div 4096) \<le> y" "y < 4096 * Suc (x div 4096)" unfolding mult_Suc_right by linarith+
qed

lemma write_view:
  assumes "lin tr" "user_addr v" "tr v = Some p" "length bs \<le> 4096 - unat v mod 4096" "user_addr v'"
  shows "view tr (write_mem p bs phys) v' = (if unat v \<le> unat v' \<and> unat v' < unat v + length bs
    then Some (bs ! (unat v' - unat v)) else view tr phys v')"
proof -
  obtain f where f: "tr (page_base v) = Some f" "p = f + page_off v" "4096 dvd unat f"
    using lin_page[OF assms(1,2)] assms(3) by (cases "tr (page_base v)") auto
  have p: "unat p = unat f + unat v mod 4096"
    using unat_in_frame[OF f(3), of "page_off v"] by (simp add: f(2) unat_page)
  have lm: "unat p + length bs \<le> unat f + 4096" using assms(4) mod_less_divisor[of 4096 "unat v"] unfolding p by linarith
  have near: "page_base v' = page_base v" if "unat v \<le> unat v' \<and> unat v' < unat v + length bs"
  proof -
    have "unat v' div 4096 = unat v div 4096" using that assms(4) by (intro same_page) linarith+
    then show ?thesis by (simp add: word_unat_eq_iff unat_page)
  qed
  show ?thesis
  proof (cases "tr (page_base v')")
    case None
    then have "tr v' = None" by (rule lin_page(2)[OF assms(1,5)])
    then show ?thesis using None near f by (auto simp: view_def)
  next
    case (Some f')
    then have v': "tr v' = Some (f' + page_off v')" "4096 dvd unat f'" using lin_page(1)[OF assms(1,5)] by blast+
    have same: "page_base v' = page_base v \<longleftrightarrow> f' = f"
      using lin_inj[OF assms(1,5,2), of f] Some f(1) by auto
    have a: "unat (f' + page_off v') = unat f' + unat v' mod 4096"
      using unat_in_frame[OF v'(2), of "page_off v'"] by (simp add: unat_page)
    have w: "write_mem p bs phys (f' + page_off v') = (if unat p \<le> unat f' + unat v' mod 4096 \<and> unat f' + unat v' mod 4096 < unat p + length bs
        then bs ! (unat f' + unat v' mod 4096 - unat p) else phys (f' + page_off v'))"
      using write_mem_range[of p bs phys "f' + page_off v'"] lm frame_top[OF f(3)] unfolding a by linarith
    show ?thesis
    proof (cases "f' = f")
      case True
      then have "unat v' div 4096 * 4096 = unat v div 4096 * 4096" using same by (simp add: word_unat_eq_iff unat_page)
      then obtain q x y where q: "unat v = q + x" "unat v' = q + y" "unat v mod 4096 = x" "unat v' mod 4096 = y"
        using div_mult_mod_eq[of "unat v" 4096] div_mult_mod_eq[of "unat v'" 4096] by metis
      have e: "unat p \<le> unat f' + unat v' mod 4096 \<longleftrightarrow> unat v \<le> unat v'"
        "unat f' + unat v' mod 4096 < unat p + length bs \<longleftrightarrow> unat v' < unat v + length bs"
        "unat f' + unat v' mod 4096 - unat p = unat v' - unat v"
        unfolding p q(3,4) True unfolding q(1,2) by simp_all
      show ?thesis unfolding view_def v' option.map w e by simp
    next
      case False
      then have n: "\<not> (unat v \<le> unat v' \<and> unat v' < unat v + length bs)" using same near by blast
      obtain x y where xy: "unat f = 4096 * x" "unat f' = 4096 * y" using f(3) v'(2) by (elim dvdE)
      with False have "x < y \<or> y < x" by (metis linorder_neqE_nat word_unat_eq_iff)
      then have "\<not> (unat p \<le> unat f' + unat v' mod 4096 \<and> unat f' + unat v' mod 4096 < unat p + length bs)"
        using lm mod_less_divisor[of 4096 "unat v'"] unfolding p xy by linarith
      then have "write_mem p bs phys (f' + page_off v') = phys (f' + page_off v')" unfolding w by (rule if_not_P)
      then show ?thesis unfolding view_def v'(1) if_not_P[OF n] by (simp only: option.map)
    qed
  qed
qed

text \<open>The two loops of a segment, as the process sees them.\<close>

lemma chunk_addr:
  assumes "unat v + n < 0x800000000000"
  shows "unat (v + of_nat n) = unat v + n" "unat (of_nat n :: u64) = n" "user_addr (v + of_nat n)"
proof -
  show n: "unat (of_nat n :: u64) = n" using assms by (intro unat_of_nat_u64) linarith
  have "unat v + unat (of_nat n :: u64) < 2 ^ LENGTH(64)" using assms n by simp
  then show u: "unat (v + of_nat n) = unat v + n" using n unat_add_lem[of v "of_nat n"] by simp
  show "user_addr (v + of_nat n)" using assms u by (simp add: user_addr_def)
qed

lemma copy_chunks_view:
  assumes "lin tr" "\<forall>a n. unat a + unat n < 0x800000000000 \<longrightarrow> add a n = Done (a + n)"
    "unat v + file_size < 0x800000000000" "fo + file_size \<le> length elf" "offset \<le> file_size"
    "copy_chunks add tr elf fo v file_size offset phys = Done (offset', phys')" "user_addr v'"
  shows "offset' = file_size \<and> view tr phys' v' = (if unat v + offset \<le> unat v' \<and> unat v' < unat v + file_size
    then Some (elf ! (fo + (unat v' - unat v))) else view tr phys v')"
  using assms(5,6)
proof (induction "file_size - offset" arbitrary: offset phys rule: less_induct)
  case less
  show ?case
  proof (cases "offset < file_size")
    case True
    let ?cv = "v + of_nat offset"
    define n where "n = min (file_size - offset) (4096 - unat ?cv mod 4096)"
    have c: "unat ?cv = unat v + offset" "unat (of_nat offset :: u64) = offset" "user_addr ?cv"
      using chunk_addr[of v offset] True assms(3) by auto
    then have "add v (of_nat offset) = Done ?cv" using assms(2,3) True by simp
    with less.prems(2) True obtain p where p: "tr ?cv = Some p"
      "copy_chunks add tr elf fo v file_size (offset + n) (write_mem p (sub_slice (fo + offset) (fo + offset + n) elf) phys)
         = Done (offset', phys')"
      by (subst (asm) copy_chunks.simps) (auto simp: run_bind_eq_Done Let_def n_def run_simps)
    have n: "0 < n" "offset + n \<le> file_size" "n \<le> 4096 - unat ?cv mod 4096"
      using True mod_less_divisor[of 4096 "unat ?cv"] by (auto simp: n_def)
    let ?bs = "sub_slice (fo + offset) (fo + offset + n) elf"
    have l: "length ?bs = n" "\<And>k. k < n \<Longrightarrow> ?bs ! k = elf ! (fo + offset + k)"
      using n(2) assms(4) by (auto simp: sub_slice_def)
    have "file_size - (offset + n) < file_size - offset" using n(1) True by simp
    from less.hyps[OF this n(2) p(2)] write_view[OF assms(1) c(3) p(1) _ assms(7), of ?bs phys] n l c(1)
    show ?thesis by auto
  next
    case False
    with less.prems show ?thesis by (subst (asm) copy_chunks.simps) (auto split: if_splits)
  qed
qed

lemma zero_chunks_view:
  assumes "lin tr" "\<forall>a n. unat a + unat n < 0x800000000000 \<longrightarrow> add a n = Done (a + n)"
    "unat v + memory_size < 0x800000000000" "offset \<le> memory_size"
    "zero_chunks add tr v memory_size offset phys = Done phys'" "user_addr v'"
  shows "view tr phys' v' = (if unat v + offset \<le> unat v' \<and> unat v' < unat v + memory_size then Some 0 else view tr phys v')"
  using assms(4,5)
proof (induction "memory_size - offset" arbitrary: offset phys rule: less_induct)
  case less
  show ?case
  proof (cases "offset < memory_size")
    case True
    let ?cv = "v + of_nat offset"
    define n where "n = min (memory_size - offset) (4096 - unat ?cv mod 4096)"
    have c: "unat ?cv = unat v + offset" "unat (of_nat offset :: u64) = offset" "user_addr ?cv"
      using chunk_addr[of v offset] True assms(3) by auto
    then have "add v (of_nat offset) = Done ?cv" using assms(2,3) True by simp
    with less.prems(2) True obtain p where p: "tr ?cv = Some p"
      "zero_chunks add tr v memory_size (offset + n) (write_mem p (replicate n 0) phys) = Done phys'"
      by (subst (asm) zero_chunks.simps) (auto simp: run_bind_eq_Done Let_def n_def run_simps)
    have n: "0 < n" "offset + n \<le> memory_size" "n \<le> 4096 - unat ?cv mod 4096"
      using True mod_less_divisor[of 4096 "unat ?cv"] by (auto simp: n_def)
    have "memory_size - (offset + n) < memory_size - offset" using n(1) True by simp
    from less.hyps[OF this n(2) p(2)] write_view[OF assms(1) c(3) p(1) _ assms(6), of "replicate n 0" phys] n c(1)
    show ?thesis by auto
  next
    case False
    with less.prems show ?thesis by (subst (asm) zero_chunks.simps) (auto split: if_splits)
  qed
qed

text \<open>The loops return where every address of the segment is mapped.\<close>

lemma copy_chunks_returns:
  assumes "\<forall>a n. unat a + unat n < 0x800000000000 \<longrightarrow> add a n = Done (a + n)" "unat v + file_size < 0x800000000000"
    "fo + file_size \<le> length elf" "length elf < usize_limit" "\<forall>k<file_size. tr (v + of_nat k) \<noteq> None" "offset \<le> file_size"
  shows "\<exists>phys'. copy_chunks add tr elf fo v file_size offset phys = Done (file_size, phys')"
  using assms(6)
proof (induction "file_size - offset" arbitrary: offset phys rule: less_induct)
  case less
  show ?case
  proof (cases "offset < file_size")
    case True
    obtain p where p: "tr (v + of_nat offset) = Some p" using assms(5) True by auto
    have "unat (of_nat offset :: u64) = offset" using chunk_addr[of v offset] True assms(2) by auto
    then have a: "add v (of_nat offset) = Done (v + of_nat offset)" using assms(1,2) True by simp
    have o: "usize_add fo offset = Done (fo + offset)" "\<exists>b. index_or_panic (fo + offset) elf = Done b"
      using assms(3,4) True by (auto simp: usize_add_def index_or_panic_def)
    define n where "n = min (file_size - offset) (4096 - unat (v + of_nat offset) mod 4096)"
    have n: "0 < n" "offset + n \<le> file_size" using True mod_less_divisor[of 4096 "unat (v + of_nat offset)"] by (auto simp: n_def)
    have "file_size - (offset + n) < file_size - offset" using n(1) True by simp
    from less.hyps[OF this n(2)] show ?thesis
      using o(2) by (subst copy_chunks.simps) (auto simp: True a p o(1) Let_def n_def)
  next
    case False
    with less.prems show ?thesis by (subst copy_chunks.simps) simp
  qed
qed

lemma zero_chunks_returns:
  assumes "\<forall>a n. unat a + unat n < 0x800000000000 \<longrightarrow> add a n = Done (a + n)" "unat v + memory_size < 0x800000000000"
    "\<forall>k<memory_size. tr (v + of_nat k) \<noteq> None" "offset \<le> memory_size"
  shows "\<exists>phys'. zero_chunks add tr v memory_size offset phys = Done phys'"
  using assms(4)
proof (induction "memory_size - offset" arbitrary: offset phys rule: less_induct)
  case less
  show ?case
  proof (cases "offset < memory_size")
    case True
    obtain p where p: "tr (v + of_nat offset) = Some p" using assms(3) True by auto
    have "unat (of_nat offset :: u64) = offset" using chunk_addr[of v offset] True assms(2) by auto
    then have a: "add v (of_nat offset) = Done (v + of_nat offset)" using assms(1,2) True by simp
    define n where "n = min (memory_size - offset) (4096 - unat (v + of_nat offset) mod 4096)"
    have n: "0 < n" "offset + n \<le> memory_size" using True mod_less_divisor[of 4096 "unat (v + of_nat offset)"] by (auto simp: n_def)
    have "memory_size - (offset + n) < memory_size - offset" using n(1) True by simp
    from less.hyps[OF this n(2)] show ?thesis by (subst zero_chunks.simps) (auto simp: True a p Let_def n_def)
  next
    case False
    with less.prems show ?thesis by (subst zero_chunks.simps) simp
  qed
qed


section \<open>Mapping regions\<close>

lemma mapper_lawsD:
  assumes "mapper_laws ops mp alloc"
  shows "\<And>a. user_addr a \<Longrightarrow> va_new mp a = Done a"
    "\<And>a n. unat a + unat n < 0x800000000000 \<Longrightarrow> va_add mp a n = Done (a + n)"
    "\<And>a n. user_addr a \<Longrightarrow> n \<le> a \<Longrightarrow> va_sub mp a n = Done (a - n)"
    "\<And>a. page_of mp a = page_base a"
    "\<And>a b. a \<le> b \<Longrightarrow> set (page_range mp (page_base a) (page_base b)) = {page_base v |v. a \<le> v \<and> v \<le> b}"
    "map_to_law ops mp alloc"
    "\<And>pml4 t v. user_addr v \<Longrightarrow> \<forall>i<256. t pml4 i = zero_entry ops \<Longrightarrow> mp_translate mp pml4 t v = None"
    "\<And>pml4 t i v. mp_translate mp pml4 (add_user_bit ops pml4 i t) v = mp_translate mp pml4 t v"
    "\<And>e. entry_frame ops (set_flags ops (entry_flags ops e OR USER_ACCESSIBLE) e) = entry_frame ops e"
    "entry_frame ops (zero_entry ops) = None"
  using assms by (simp_all add: mapper_laws_def)

lemma space_lin:
  assumes "mapper_laws ops mp alloc" "space_ok ops mp pml4 tk t"
  shows "lin (mp_translate mp pml4 t)"
  using assms unfolding mapper_laws_def space_ok_def lin_def by blast

text \<open>Walking the tables by the entries that refer to one.\<close>

lemma table_list_cong:
  assumes "\<And>f i. f \<in> set (table_list ops t n e) \<Longrightarrow> i < 512 \<Longrightarrow> entry_frame ops (t' f i) = entry_frame ops (t f i)"
    and "entry_frame ops e' = entry_frame ops e"
  shows "table_list ops t' n e' = table_list ops t n e"
  using assms
proof (induction n arbitrary: e e')
  case (Suc n)
  show ?case
  proof (cases "entry_frame ops e")
    case (Some f)
    have "table_list ops t' n (t' f i) = table_list ops t n (t f i)" if i: "i < 512" for i
    proof (rule Suc.IH)
      show "entry_frame ops (t' f i) = entry_frame ops (t f i)" using Suc.prems(1)[of f i] Some i by simp
      show "entry_frame ops (t' g j) = entry_frame ops (t g j)" if "g \<in> set (table_list ops t n (t f i))" "j < 512" for g j
        using Suc.prems(1)[of g j] Some i that by (force simp del: upt_rec_numeral)
    qed
    then have "concat (map (\<lambda>i. table_list ops t' n (t' f i)) [0..<512]) = concat (map (\<lambda>i. table_list ops t n (t f i)) [0..<512])"
      by (intro arg_cong[of _ _ concat] map_cong) (auto simp del: upt_rec_numeral)
    then show ?thesis using Some Suc.prems(2) by (simp del: upt_rec_numeral)
  qed (use Suc.prems in simp)
qed simp

lemma add_user_bit_tables:
  assumes "mapper_laws ops mp alloc"
  shows "pml4_tables ops (add_user_bit ops f i t) pml4 = pml4_tables ops t pml4"
proof -
  have "entry_frame ops (add_user_bit ops f i t g j) = entry_frame ops (t g j)" for g j
    using mapper_lawsD(9)[OF assms] by (simp add: add_user_bit_def write_entry_def)
  then have "table_list ops (add_user_bit ops f i t) 3 (add_user_bit ops f i t pml4 j) = table_list ops t 3 (t pml4 j)" for j
    by (intro table_list_cong) auto
  then show ?thesis by (simp add: pml4_tables_def del: upt_rec_numeral)
qed

context frame_pool
begin

lemma pool_take:
  "ok s \<Longrightarrow> take_frames alloc n s = Done (fs, s') \<Longrightarrow>
   ok s' \<and> taken s \<le> taken s' \<and> distinct fs \<and> (\<forall>f\<in>set fs. \<not> taken s f \<and> taken s' f)"
proof (induction n arbitrary: s fs)
  case (Suc n)
  then obtain f t gs where f: "alloc s = Done (f, t)" and g: "take_frames alloc n t = Done (gs, s')"
    and fs: "fs = (case f of Some f \<Rightarrow> f # gs | None \<Rightarrow> gs)" by (auto simp: run_bind_eq_Done)
  note t = pool_keeps[OF Suc.prems(1) f]
  with Suc.IH[OF _ g] have ih: "ok s'" "taken t \<le> taken s'" "distinct gs" "\<forall>f\<in>set gs. \<not> taken t f \<and> taken s' f" by auto
  show ?case
  proof (cases f)
    case None
    with ih t fs show ?thesis by (auto intro: order_trans)
  next
    case (Some a)
    with pool_fresh[OF Suc.prems(1)] f have "\<not> taken s a" "taken t a" by auto
    with ih t fs Some show ?thesis by (auto intro: order_trans)
  qed
qed simp

text \<open>One page: it is mapped afterwards, what was mapped stays, and the address space stays well formed.\<close>

lemma map_user_page_spec:
  assumes laws: "mapper_laws ops mp alloc" and ok: "ok s" and sp: "space_ok ops mp pml4 (taken s) t"
    and pg: "4096 dvd unat page" "user_addr page"
    and run: "map_user_page mp alloc pml4 flags page (t, s) = Done (t', s')"
  shows "ok s'" "taken s \<le> taken s'" "space_ok ops mp pml4 (taken s') t'" "mp_translate mp pml4 t' page \<noteq> None"
    "\<And>v. user_addr v \<Longrightarrow> mp_translate mp pml4 t v \<noteq> None \<Longrightarrow> mp_translate mp pml4 t' v = mp_translate mp pml4 t v"
proof -
  have "ok s' \<and> taken s \<le> taken s' \<and> space_ok ops mp pml4 (taken s') t' \<and> mp_translate mp pml4 t' page \<noteq> None
    \<and> (\<forall>v. user_addr v \<longrightarrow> mp_translate mp pml4 t v \<noteq> None \<longrightarrow> mp_translate mp pml4 t' v = mp_translate mp pml4 t v)"
  proof (cases "mp_translate mp pml4 t page")
    case (Some f)
    with run ok sp show ?thesis by (simp add: map_user_page_def)
  next
    case None
    with run obtain frame s1 where al: "alloc s = Done (Some frame, s1)"
      and mt: "mp_map_to mp pml4 page frame flags (t, s1) = Done (True, t', s')"
      by (auto simp: map_user_page_def run_bind_eq_Done split: if_splits)
    note fr = pool_fresh[OF ok al] and s1 = pool_keeps[OF ok al]
    obtain n fs where tk: "take_frames alloc n s1 = Done (fs, s')"
      and eff: "distinct (pml4_tables ops t pml4 @ frame # fs) \<longrightarrow>
               distinct (pml4_tables ops t' pml4)
               \<and> set (pml4_tables ops t' pml4) \<subseteq> set (pml4_tables ops t pml4) \<union> set fs
               \<and> (\<forall>v. user_addr v \<longrightarrow> mp_translate mp pml4 t' v
                    = (if page_base v = page then Some (frame + page_off v) else mp_translate mp pml4 t v))"
      using mapper_lawsD(6)[OF laws] pg fr mt unfolding map_to_law_def by blast
    have p: "ok s'" "taken s1 \<le> taken s'" "distinct fs" "\<forall>f\<in>set fs. \<not> taken s1 f \<and> taken s' f"
      using pool_take[OF _ tk] s1 by auto
    have old: "\<forall>f\<in>set (pml4_tables ops t pml4). taken s f" "distinct (pml4_tables ops t pml4)"
      using sp by (auto simp: space_ok_def)
    have "distinct (pml4_tables ops t pml4 @ frame # fs)" using old p fr s1 by auto
    with eff have eff: "distinct (pml4_tables ops t' pml4)"
      "set (pml4_tables ops t' pml4) \<subseteq> set (pml4_tables ops t pml4) \<union> set fs"
      "\<And>v. user_addr v \<Longrightarrow> mp_translate mp pml4 t' v
         = (if page_base v = page then Some (frame + page_off v) else mp_translate mp pml4 t v)" by blast+
    have tr: "mp_translate mp pml4 t' (page_base v) = (if page_base v = page then Some frame else mp_translate mp pml4 t (page_base v))"
      if "user_addr v" for v
      using eff(3)[of "page_base v"] that page_off_base[of page] page_base_id[OF pg(1)] by auto
    have data: "f \<notin> set (pml4_tables ops t pml4)" "taken s f"
      if "user_addr v" "mp_translate mp pml4 t (page_base v) = Some f" for v f
      using sp that by (auto simp: space_ok_def)
    have inj: "page_base v = page_base v'" if "user_addr v" "user_addr v'"
      "mp_translate mp pml4 t (page_base v) = Some f" "mp_translate mp pml4 t (page_base v') = Some f" for v v' f
      using sp that unfolding space_ok_def by blast
    have tabs: "taken s' f \<and> f \<noteq> frame" if "f \<in> set (pml4_tables ops t' pml4)" for f
      using that eff(2) old(1) p(2,4) s1 fr by blast
    have "space_ok ops mp pml4 (taken s') t'" unfolding space_ok_def
    proof (intro conjI allI impI ballI)
      fix v v' f assume a: "user_addr v" "user_addr v'" "mp_translate mp pml4 t' (page_base v) = Some f"
        "mp_translate mp pml4 t' (page_base v') = Some f"
      with tr[OF a(1)] tr[OF a(2)] data(2)[of v frame] data(2)[of v' frame] inj[of v v' f] fr
      show "page_base v = page_base v'" by (auto split: if_splits)
    next
      fix v f assume a: "user_addr v" "mp_translate mp pml4 t' (page_base v) = Some f"
      show "f \<notin> set (pml4_tables ops t' pml4)"
        using a tr[OF a(1)] data[of v f] tabs[of f] eff(2) p(4) s1 by (auto split: if_splits)
      show "taken s' f" using a tr[OF a(1)] data[of v f] fr s1 p(2) by (auto split: if_splits)
    qed (use eff(1) tabs in auto)
    moreover have "mp_translate mp pml4 t' page \<noteq> None" using tr[OF pg(2)] page_base_id[OF pg(1)] by simp
    moreover have "mp_translate mp pml4 t' v = mp_translate mp pml4 t v"
      if "user_addr v" "mp_translate mp pml4 t v \<noteq> None" for v
      using eff(3)[OF that(1)] lin_page(2)[OF space_lin[OF laws sp] that(1)] that(2) None by auto
    ultimately show ?thesis using p s1 by auto
  qed
  then show "ok s'" "taken s \<le> taken s'" "space_ok ops mp pml4 (taken s') t'" "mp_translate mp pml4 t' page \<noteq> None"
    "\<And>v. user_addr v \<Longrightarrow> mp_translate mp pml4 t v \<noteq> None \<Longrightarrow> mp_translate mp pml4 t' v = mp_translate mp pml4 t v"
    by blast+
qed

text \<open>A list of pages, then a region: every address of it is mapped.\<close>

lemma map_pages_spec:
  assumes laws: "mapper_laws ops mp alloc" and "run_fold (map_user_page mp alloc pml4 fl) ps (t, s) = Done (t', s')"
    "\<forall>w\<in>set ps. user_addr w \<and> 4096 dvd unat w" "ok s" "space_ok ops mp pml4 (taken s) t"
  shows "ok s' \<and> taken s \<le> taken s' \<and> space_ok ops mp pml4 (taken s') t' \<and> (\<forall>w\<in>set ps. mp_translate mp pml4 t' w \<noteq> None)
    \<and> (\<forall>w. user_addr w \<longrightarrow> mp_translate mp pml4 t w \<noteq> None \<longrightarrow> mp_translate mp pml4 t' w = mp_translate mp pml4 t w)"
  using assms(2-)
proof (induction ps arbitrary: t s)
  case (Cons w ps)
  then obtain tk sk where st: "map_user_page mp alloc pml4 fl w (t, s) = Done (tk, sk)"
    "run_fold (map_user_page mp alloc pml4 fl) ps (tk, sk) = Done (t', s')" by (auto simp: run_bind_eq_Done)
  have w: "4096 dvd unat w" "user_addr w" using Cons.prems(2) by auto
  note m = map_user_page_spec[OF laws Cons.prems(3,4) w st(1)]
  from Cons.IH[OF st(2) _ m(1,3)] Cons.prems(2) have ih: "ok s'" "taken sk \<le> taken s'" "space_ok ops mp pml4 (taken s') t'"
    "\<And>w. w \<in> set ps \<Longrightarrow> mp_translate mp pml4 t' w \<noteq> None"
    "\<And>w. user_addr w \<Longrightarrow> mp_translate mp pml4 tk w \<noteq> None \<Longrightarrow> mp_translate mp pml4 t' w = mp_translate mp pml4 tk w" by auto
  have "mp_translate mp pml4 t' x \<noteq> None" if "x \<in> set (w # ps)" for x
    using that ih(4) ih(5)[OF w(2) m(4)] m(4) by auto
  moreover have "mp_translate mp pml4 t' x = mp_translate mp pml4 t x"
    if "user_addr x" "mp_translate mp pml4 t x \<noteq> None" for x
    using m(5)[OF that] ih(5)[OF that(1)] that(2) by simp
  ultimately show ?case using ih(1,3) order_trans[OF m(2) ih(2)] by blast
qed simp

lemma map_user_region_spec:
  assumes laws: "mapper_laws ops mp alloc" and ok: "ok s" and sp: "space_ok ops mp pml4 (taken s) t"
    and sz: "0 < sz" "unat v + unat sz < 0x800000000000"
    and run: "map_user_region ops mp alloc pml4 v sz extra (t, s) = Done (t', s')"
  shows "ok s'" "taken s \<le> taken s'" "space_ok ops mp pml4 (taken s') t'"
    "\<And>u. unat v \<le> unat u \<Longrightarrow> unat u < unat v + unat sz \<Longrightarrow> mp_translate mp pml4 t' u \<noteq> None"
    "\<And>u. user_addr u \<Longrightarrow> mp_translate mp pml4 t u \<noteq> None \<Longrightarrow> mp_translate mp pml4 t' u = mp_translate mp pml4 t u"
proof -
  let ?pages = "page_range mp (page_base v) (page_base (v + sz - 1))" and ?fl = "PRESENT OR USER_ACCESSIBLE OR extra"
  have u: "unat (v + sz) = unat v + unat sz" "user_addr (v + sz)"
    using chunk_addr[of v "unat sz"] sz(2) by simp_all
  have one: "1 \<le> v + sz" "unat (v + sz - 1) = unat v + unat sz - 1"
    using sz(1) u(1) by (auto simp: word_le_nat_alt unat_sub word_less_nat_alt)
  then have le: "v \<le> v + sz - 1" using sz(1) by (simp add: word_le_nat_alt word_less_nat_alt)
  have pages: "set ?pages = {page_base w |w. v \<le> w \<and> w \<le> v + sz - 1}" by (rule mapper_lawsD(5)[OF laws le])
  obtain t1 where fold: "run_fold (map_user_page mp alloc pml4 ?fl) ?pages (t, s) = Done (t1, s')"
    and t': "t' = add_user_bit ops pml4 (p_index mp 4 v) t1"
    using run mapper_lawsD(2)[OF laws sz(2)] mapper_lawsD(3)[OF laws u(2) one(1)] mapper_lawsD(4)[OF laws]
    by (auto simp: map_user_region_def run_bind_eq_Done Let_def)
  have user: "user_addr w \<and> 4096 dvd unat w" if "w \<in> set ?pages" for w
  proof -
    from that pages obtain x where x: "w = page_base x" "x \<le> v + sz - 1" by blast
    then have "user_addr x" using one(2) sz by (simp add: user_addr_def word_le_nat_alt)
    with x(1) show ?thesis by simp
  qed
  have l: "ok s'" "taken s \<le> taken s'" "space_ok ops mp pml4 (taken s') t1"
    "\<And>w. w \<in> set ?pages \<Longrightarrow> mp_translate mp pml4 t1 w \<noteq> None"
    "\<And>w. user_addr w \<Longrightarrow> mp_translate mp pml4 t w \<noteq> None \<Longrightarrow> mp_translate mp pml4 t1 w = mp_translate mp pml4 t w"
    using map_pages_spec[OF laws fold _ ok sp] user by blast+
  have tr: "mp_translate mp pml4 t' = mp_translate mp pml4 t1" unfolding t' by (rule ext) (rule mapper_lawsD(8)[OF laws])
  show "ok s'" "taken s \<le> taken s'" by (rule l(1), rule l(2))
  have "pml4_tables ops t' pml4 = pml4_tables ops t1 pml4" unfolding t' by (rule add_user_bit_tables[OF laws])
  then show "space_ok ops mp pml4 (taken s') t'" using l(3) by (simp add: space_ok_def tr)
  show "mp_translate mp pml4 t' u \<noteq> None" if "unat v \<le> unat u" "unat u < unat v + unat sz" for u
  proof
    assume n: "mp_translate mp pml4 t' u = None"
    have "user_addr u" using that sz by (simp add: user_addr_def)
    from lin_page(1)[OF space_lin[OF laws l(3)] this] n tr have "mp_translate mp pml4 t1 (page_base u) = None" by (metis option.distinct(1) not_Some_eq)
    moreover have "page_base u \<in> set ?pages" unfolding pages using that one(2) by (auto simp: word_le_nat_alt intro!: exI[of _ u])
    ultimately show False using l(4) by blast
  qed
  show "mp_translate mp pml4 t' u = mp_translate mp pml4 t u" if "user_addr u" "mp_translate mp pml4 t u \<noteq> None" for u
    unfolding tr by (rule l(5)[OF that])
qed

lemma load_segment_spec:
  assumes laws: "mapper_laws ops mp alloc" and ok: "ok (p_alloc w)" and sp: "space_ok ops mp pml4 (taken (p_alloc w)) (p_tables w)"
    and ph: "ph_file_size ph \<le> ph_memory_size ph" "ph_memory_size ph \<noteq> 0"
      "unat (ph_file_offset ph) + unat (ph_file_size ph) \<le> length elf"
      "unat (ph_virtual_address ph) + unat (ph_memory_size ph) < 0x800000000000"
    and run: "load_segment ops mp alloc pml4 elf ph w = Done w'"
  shows "ok (p_alloc w')" "space_ok ops mp pml4 (taken (p_alloc w')) (p_tables w')"
    "\<And>u. user_addr u \<Longrightarrow> mp_translate mp pml4 (p_tables w) u \<noteq> None
        \<Longrightarrow> mp_translate mp pml4 (p_tables w') u = mp_translate mp pml4 (p_tables w) u"
    "\<And>u. in_segment ph u \<Longrightarrow> memory_of mp pml4 w' u = Some (segment_byte elf ph u)"
    "\<And>u b. user_addr u \<Longrightarrow> \<not> in_segment ph u \<Longrightarrow> memory_of mp pml4 w u = Some b \<Longrightarrow> memory_of mp pml4 w' u = Some b"
proof -
  let ?v = "ph_virtual_address ph" and ?fs = "unat (ph_file_size ph)" and ?ms = "unat (ph_memory_size ph)"
  have low: "user_addr ?v" "?fs \<le> ?ms" "0 < ph_memory_size ph"
    using ph by (auto simp: user_addr_def word_le_nat_alt word_neq_0_conv)
  obtain t s offset phys phys' where mr: "map_user_region ops mp alloc pml4 ?v (ph_memory_size ph) (segment_flags ph) (p_tables w, p_alloc w) = Done (t, s)"
    and cp: "copy_chunks (va_add mp) (mp_translate mp pml4 t) elf (unat (ph_file_offset ph)) ?v ?fs 0 (p_phys w) = Done (offset, phys)"
    and zr: "zero_chunks (va_add mp) (mp_translate mp pml4 t) ?v ?ms offset phys = Done phys'"
    and w': "w' = w\<lparr>p_tables := t, p_alloc := s, p_phys := phys'\<rparr>"
    using run mapper_lawsD(1)[OF laws low(1)] by (auto simp: load_segment_def run_bind_eq_Done)
  note m = map_user_region_spec[OF laws ok sp low(3) ph(4) mr]
  note ln = space_lin[OF laws m(3)]
  have add: "\<forall>a n. unat a + unat n < 0x800000000000 \<longrightarrow> va_add mp a n = Done (a + n)" using mapper_lawsD(2)[OF laws] by blast
  have fs: "unat ?v + ?fs < 0x800000000000" using ph(4) low(2) by linarith
  note c = copy_chunks_view[OF ln add fs ph(3) _ cp]
  have off: "offset = ?fs" using c[OF _ low(1)] by simp
  have all: "view (mp_translate mp pml4 t) phys' u = (if in_segment ph u then Some (segment_byte elf ph u)
      else view (mp_translate mp pml4 t) (p_phys w) u)" if "user_addr u" for u
    using c[OF _ that] zero_chunks_view[OF ln add ph(4) _ zr that] low(2)
    by (auto simp: off in_segment_def segment_byte_def Let_def)
  show "ok (p_alloc w')" "space_ok ops mp pml4 (taken (p_alloc w')) (p_tables w')" using m(1,3) by (simp_all add: w')
  show "mp_translate mp pml4 (p_tables w') u = mp_translate mp pml4 (p_tables w) u"
    if "user_addr u" "mp_translate mp pml4 (p_tables w) u \<noteq> None" for u using m(5)[OF that] by (simp add: w')
  show "memory_of mp pml4 w' u = Some (segment_byte elf ph u)" if "in_segment ph u" for u
  proof -
    have "user_addr u" using that ph(4) by (simp add: in_segment_def user_addr_def)
    from all[OF this] that show ?thesis by (simp add: memory_of_def w')
  qed
  show "memory_of mp pml4 w' u = Some b" if "user_addr u" "\<not> in_segment ph u" "memory_of mp pml4 w u = Some b" for u b
    using all[OF that(1)] that(2,3) m(5)[OF that(1)] by (auto simp: memory_of_def w' view_def)
qed

lemma load_segments_spec:
  assumes laws: "mapper_laws ops mp alloc" and "length elf < usize_limit" "56 \<le> program_header_entry_size h"
    and "ok (p_alloc w)" "space_ok ops mp pml4 (taken (p_alloc w)) (p_tables w)" "segments_low elf h is"
    and "load_segments ops mp alloc pml4 elf h is w = Done (Inr (), w')"
  shows "space_ok ops mp pml4 (taken (p_alloc w')) (p_tables w')"
    and "\<And>u. user_addr u \<Longrightarrow> mp_translate mp pml4 (p_tables w) u \<noteq> None
        \<Longrightarrow> mp_translate mp pml4 (p_tables w') u = mp_translate mp pml4 (p_tables w) u"
    and "\<And>u acc b. user_addr u \<Longrightarrow> \<forall>a. acc = Some a \<longrightarrow> memory_of mp pml4 w u = Some a
        \<Longrightarrow> image_byte elf h is u acc = Some b \<Longrightarrow> memory_of mp pml4 w' u = Some b"
proof -
  have "space_ok ops mp pml4 (taken (p_alloc w')) (p_tables w')
    \<and> (\<forall>u. user_addr u \<longrightarrow> mp_translate mp pml4 (p_tables w) u \<noteq> None
        \<longrightarrow> mp_translate mp pml4 (p_tables w') u = mp_translate mp pml4 (p_tables w) u)
    \<and> (\<forall>u acc b. user_addr u \<longrightarrow> (\<forall>a. acc = Some a \<longrightarrow> memory_of mp pml4 w u = Some a)
        \<longrightarrow> image_byte elf h is u acc = Some b \<longrightarrow> memory_of mp pml4 w' u = Some b)"
    using assms(4-)
  proof (induction "is" arbitrary: w)
    case (Cons i "is")
    note eq = parse_program_header_eq[OF assms(2,3), of "of_nat i"]
    have low: "segments_low elf h is" using Cons.prems(3) by (simp add: segments_low_def)
    show ?case
    proof (cases "\<exists>ph. parse_program_header elf h (of_nat i) = Done (Inr (Some ph)) \<and> ph_memory_size ph \<noteq> 0")
      case False
      have "load_segments ops mp alloc pml4 elf h is w = Done (Inr (), w')"
      proof -
        obtain r where r: "parse_program_header elf h (of_nat i) = Done r" unfolding eq by blast
        consider e where "r = Inl e" | "r = Inr None" | ph where "r = Inr (Some ph)" by (metis option.exhaust sum.exhaust)
        then show ?thesis using Cons.prems(4) False r by cases auto
      qed
      moreover have "image_byte elf h (i # is) u acc = image_byte elf h is u acc" for u acc
        using False by (auto simp: in_segment_def split: run.split sum.split option.split)
      ultimately show ?thesis using Cons.IH[OF Cons.prems(1,2) low] by simp
    next
      case True
      then obtain ph where ph: "parse_program_header elf h (of_nat i) = Done (Inr (Some ph))" "ph_memory_size ph \<noteq> 0" by blast
      have sz: "ph_file_size ph \<le> ph_memory_size ph"
        using ph(1) unfolding eq by (auto simp: Let_def split: if_splits)
      have va: "unat (ph_virtual_address ph) + unat (ph_memory_size ph) < 0x800000000000"
        using Cons.prems(3) ph(1) by (simp add: segments_low_def)
      obtain w1 where w1: "load_segment ops mp alloc pml4 elf ph w = Done w1"
        "load_segments ops mp alloc pml4 elf h is w1 = Done (Inr (), w')"
        and fo: "unat (ph_file_offset ph) + unat (ph_file_size ph) \<le> length elf"
        using Cons.prems(4) ph by (auto simp: run_bind_eq_Done usize_checked_Some split: option.splits if_splits)
      note l = load_segment_spec[OF laws Cons.prems(1,2) sz ph(2) fo va w1(1)]
      note ih = Cons.IH[OF l(1,2) low w1(2)]
      have "mp_translate mp pml4 (p_tables w') u = mp_translate mp pml4 (p_tables w) u"
        if "user_addr u" "mp_translate mp pml4 (p_tables w) u \<noteq> None" for u
        using l(3)[OF that] ih that by auto
      moreover have "memory_of mp pml4 w' u = Some b"
        if "user_addr u" "\<forall>a. acc = Some a \<longrightarrow> memory_of mp pml4 w u = Some a" "image_byte elf h (i # is) u acc = Some b" for u acc b
      proof -
        let ?acc = "if in_segment ph u then Some (segment_byte elf ph u) else acc"
        have "\<forall>a. ?acc = Some a \<longrightarrow> memory_of mp pml4 w1 u = Some a" using that(1,2) l(4,5) by auto
        moreover have "image_byte elf h is u ?acc = Some b" using that(3) ph(1) by simp
        ultimately show ?thesis using ih that(1) by blast
      qed
      ultimately show ?thesis using ih by blast
    qed
  qed simp
  then show "space_ok ops mp pml4 (taken (p_alloc w')) (p_tables w')"
    and "\<And>u. user_addr u \<Longrightarrow> mp_translate mp pml4 (p_tables w) u \<noteq> None
        \<Longrightarrow> mp_translate mp pml4 (p_tables w') u = mp_translate mp pml4 (p_tables w) u"
    and "\<And>u acc b. user_addr u \<Longrightarrow> \<forall>a. acc = Some a \<longrightarrow> memory_of mp pml4 w u = Some a
        \<Longrightarrow> image_byte elf h is u acc = Some b \<Longrightarrow> memory_of mp pml4 w' u = Some b" by blast+
qed

lemma new_from_elf_spec:
  assumes laws: "mapper_laws ops mp alloc" and len: "length elf < usize_limit"
    and ok: "ok (p_alloc w)" and kp: "taken (p_alloc w) kernel_cr3" and h: "parse_header elf = Done (Inr h)"
    and low: "segments_low elf h [0..<unat (program_header_count h)]"
    and run: "new_from_elf ops mp alloc kernel_cr3 elf w = Done (Inr p, w')"
  shows "space_ok ops mp (pml4_frame p) (taken (p_alloc w')) (p_tables w')"
    and "\<And>u b. user_addr u \<Longrightarrow> image_byte elf h [0..<unat (program_header_count h)] u None = Some b
        \<Longrightarrow> memory_of mp (pml4_frame p) w' u = Some b"
    and "\<And>u. 0x700000000000 \<le> unat u \<Longrightarrow> unat u < 0x700000008000 \<Longrightarrow> mp_translate mp (pml4_frame p) (p_tables w') u \<noteq> None"
    and "proc_stack_top p = 0x700000008000" "proc_id p = next_process_id w" "threads p = []" "va_new mp (eh_entry h) = Done (entry_point p)"
proof -
  have st: "va_new mp 0x700000000000 = Done 0x700000000000" "va_add mp 0x700000000000 0x8000 = Done 0x700000008000"
    using mapper_lawsD(1,2)[OF laws] by (simp_all add: user_addr_def)
  obtain pml4 t s entry t1 s1 w0 r where
    cr: "create_process_pml4 ops alloc kernel_cr3 (p_tables w, p_alloc w) = Done (pml4, t, s)"
    and en: "va_new mp (eh_entry h) = Done entry"
    and mr: "map_user_region ops mp alloc pml4 0x700000000000 0x8000 WRITABLE (t, s) = Done (t1, s1)"
    and lr: "load_segments ops mp alloc pml4 elf h [0..<unat (program_header_count h)] w0 = Done (r, w')"
    and w0: "p_tables w0 = t1" "p_alloc w0 = s1"
    and rp: "(case r of Inl e \<Rightarrow> Inl e | Inr _ \<Rightarrow> Inr \<lparr>proc_id = next_process_id w, pml4_frame = pml4, entry_point = entry, proc_stack_top = 0x700000008000, threads = []\<rparr>) = Inr p"
    using run h st by (auto simp: new_from_elf_def run_bind_eq_Done process_id_new_def Let_def)
  have ls: "load_segments ops mp alloc pml4 elf h [0..<unat (program_header_count h)] w0 = Done (Inr (), w')"
    and p: "p = \<lparr>proc_id = next_process_id w, pml4_frame = pml4, entry_point = entry, proc_stack_top = 0x700000008000, threads = []\<rparr>"
    using lr rp by (auto split: sum.splits)
  note c = create_process_pml4_spec[OF ok cr kp]
  have z: "\<forall>i<256. t pml4 i = zero_entry ops" using c(5) by auto
  then have "table_list ops t 3 (t pml4 i) = []" if "i < 256" for i
    using that mapper_lawsD(10)[OF laws] by (simp add: numeral_3_eq_3)
  then have "pml4_tables ops t pml4 = [pml4]" by (auto simp: pml4_tables_def simp del: upt_rec_numeral)
  moreover have "mp_translate mp pml4 t v = None" if "user_addr v" for v
    using mapper_lawsD(7)[OF laws that, of t pml4] z by blast
  ultimately have sp: "space_ok ops mp pml4 (taken s) t" using c(3) by (simp add: space_ok_def)
  note m = map_user_region_spec[OF laws c(1) sp _ _ mr]
  have e: "56 \<le> program_header_entry_size h"
    using h unfolding parse_header_eq[OF len] by (auto split: if_splits simp: not_less)
  note l = load_segments_spec[OF laws len e _ _ low ls, unfolded w0]
  show "space_ok ops mp (pml4_frame p) (taken (p_alloc w')) (p_tables w')" using l(1) m(1,3) by (simp add: p)
  show "memory_of mp (pml4_frame p) w' u = Some b"
    if "user_addr u" "image_byte elf h [0..<unat (program_header_count h)] u None = Some b" for u b
    using l(3)[OF _ _ that(1) _ that(2)] m(1,3) by (simp add: p)
  show "mp_translate mp (pml4_frame p) (p_tables w') u \<noteq> None" if "0x700000000000 \<le> unat u" "unat u < 0x700000008000" for u
    using l(2)[of u] m(1,3) m(4)[of u] that by (simp add: p user_addr_def)
  show "proc_stack_top p = 0x700000008000" "proc_id p = next_process_id w" "threads p = []" "va_new mp (eh_entry h) = Done (entry_point p)"
    using en by (simp_all add: p)
qed

end

end
