(* ===== verification/Process_Props.thy ===== *)
theory Process_Props
  imports Process_Image
begin

text \<open>
  Properties of processes: forking copies an address space, and loading a segment puts the bytes of the
  file where the process sees them.
\<close>


section \<open>Page-table entries of the processor\<close>

text \<open>The 64-bit entries of the architecture and its physical addresses, at which the theorems about any
  lawful entry operations are applied.\<close>

definition x86_entry :: "u64 entry_ops" where
  "x86_entry = \<lparr>is_unused = (\<lambda>e. e = 0), entry_flags = (\<lambda>e. e AND 0xFFF0000000000FFF),
     set_flags = (\<lambda>fl e. (e AND 0x000FFFFFFFFFF000) OR fl), set_frame = (\<lambda>f fl. f OR fl),
     entry_frame = (\<lambda>e. if e AND 1 = 0 \<or> e AND 0x80 \<noteq> 0 then None else Some (e AND 0x000FFFFFFFFFF000)),
     zero_entry = 0\<rparr>"

definition x86_phys :: phys_ops where
  "x86_phys = \<lparr>pa_new = (\<lambda>a. if a < 0x10000000000000 then Done a else Panic), containing_frame = (\<lambda>a. a AND NOT 0xFFF)\<rparr>"

lemma and_clear:
  fixes f x :: u64
  assumes "f AND x = 0"
  shows "f AND NOT x = f"
proof -
  have "f = (f AND x) OR (f AND NOT x)" by (simp flip: bit.conj_disj_distrib)
  with assms show ?thesis by simp
qed

lemma phys_frame_mask:
  assumes "phys_frame f"
  shows "f AND 0x000FFFFFFFFFF000 = f" "f AND 0xFFF0000000000FFF = 0"
proof -
  have "f < 2 ^ 52" using assms by (simp add: phys_frame_def word_less_nat_alt)
  from less_mask_eq[OF this] have "f AND 0xFFFFFFFFFFFFF = f" by (simp add: mask_eq_exp_minus_1)
  then have "f AND 0xFFF0000000000000 = (f AND 0xFFFFFFFFFFFFF) AND 0xFFF0000000000000" by simp
  then have h: "f AND 0xFFF0000000000000 = 0" by (simp add: and.assoc)
  have l: "f AND 0xFFF = 0" using assms by (simp add: phys_frame_def and_fff_zero)
  have "f AND 0xFFF0000000000FFF = f AND (0xFFF0000000000000 OR 0xFFF)" by simp
  also have "\<dots> = 0" unfolding bit.conj_disj_distrib using h l by simp
  finally show m: "f AND 0xFFF0000000000FFF = 0" .
  have "NOT (0xFFF0000000000FFF :: u64) = 0x000FFFFFFFFFF000" by (simp add: word_eq_iff_unsigned)
  with and_clear[OF m] show "f AND 0x000FFFFFFFFFF000 = f" by (simp only:)
qed

lemma x86_entry_laws: "entry_laws x86_entry"
proof -
  have "entry_frame x86_entry (set_frame x86_entry f (entry_flags x86_entry e)) = Some f
      \<and> entry_flags x86_entry (set_frame x86_entry f (entry_flags x86_entry e)) = entry_flags x86_entry e
      \<and> \<not> is_unused x86_entry (set_frame x86_entry f (entry_flags x86_entry e))"
    if p: "entry_frame x86_entry e = Some g" and f: "phys_frame f" for e f g
  proof -
    from p have b: "e AND 1 \<noteq> 0" "e AND 0x80 = 0" by (auto simp: x86_entry_def split: if_splits)
    let ?n = "f OR (e AND 0xFFF0000000000FFF)"
    note m = phys_frame_mask[OF f]
    have sub: "f AND x = 0" if "0xFFF0000000000FFF AND x = x" for x
    proof -
      have "f AND x = f AND (0xFFF0000000000FFF AND x)" using that by simp
      also have "\<dots> = 0" using m(2) by (simp flip: and.assoc)
      finally show ?thesis .
    qed
    have n: "?n AND x = (f AND x) OR (e AND (0xFFF0000000000FFF AND x))" for x by (simp add: bit.conj_disj_distrib2 and.assoc)
    have "?n AND 1 = e AND 1" "?n AND 0x80 = e AND 0x80" "?n AND 0x000FFFFFFFFFF000 = f"
      "?n AND 0xFFF0000000000FFF = e AND 0xFFF0000000000FFF"
      unfolding n by (simp_all add: sub m)
    with b show ?thesis by (auto simp: x86_entry_def)
  qed
  moreover have "\<not> is_unused x86_entry (set_flags x86_entry (x OR BIT_9) e)" for x e
  proof
    assume "is_unused x86_entry (set_flags x86_entry (x OR BIT_9) e)"
    then have "bit ((e AND 0x000FFFFFFFFFF000) OR (x OR BIT_9)) 9 = bit (0 :: u64) 9" by (simp add: x86_entry_def)
    then show False by (simp add: bit_or_iff BIT_9_def)
  qed
  moreover have "is_unused x86_entry (zero_entry x86_entry)" by (simp add: x86_entry_def)
  ultimately show ?thesis unfolding entry_laws_def by blast
qed

lemma x86_phys_laws: "phys_laws x86_phys"
  using and_clear[of _ "0xFFF"]
  by (auto simp: phys_laws_def x86_phys_def word_less_nat_alt simp flip: and_fff_zero split: if_splits)


section \<open>Forking\<close>

text \<open>C32: Forking copies the address space.  When the parent's tables are present and a frame is left for each
  of them and for the new top-level table, the fork returns; the child sees at every user address the page
  the parent sees, read-only and marked copy-on-write; its kernel half equals the parent's; no table that
  was in use changes, those of the parent included; and the child gets a fresh top-level table, the next
  process number, the parent's entry point and stack, and no threads.\<close>

theorem fork_copies_address_space:
  fixes w :: "('e, frame_allocator) pworld"
  assumes "entry_laws ops" and "phys_laws po" and "map_aligned mem (p_alloc w)"
    and "user_tables_present ops (p_tables w) (pml4_frame parent)"
    and "can_take (allocate_frame po mem) (Suc (user_table_count ops (p_tables w) (pml4_frame parent))) (p_alloc w)"
    and "\<forall>f\<in>{kernel_cr3, pml4_frame parent} \<union> user_frames ops (p_tables w) (pml4_frame parent).
      frame_taken (unat (next_address (p_alloc w))) (usable_frame mem (p_alloc w)) f"
  shows "\<exists>child w'. process_fork ops (allocate_frame po mem) kernel_cr3 parent w = Done (child, w')
    \<and> (\<forall>path. user_path path \<longrightarrow> user_leaf ops (p_tables w') (pml4_frame child) path
          = map_option (\<lambda>e. set_flags ops ((entry_flags ops e AND NOT WRITABLE) OR BIT_9) e)
              (user_leaf ops (p_tables w) (pml4_frame parent) path))
    \<and> (\<forall>i. 256 \<le> i \<longrightarrow> i < 512 \<longrightarrow> p_tables w' (pml4_frame child) i = p_tables w (pml4_frame parent) i)
    \<and> (\<forall>g i. frame_taken (unat (next_address (p_alloc w))) (usable_frame mem (p_alloc w)) g
          \<longrightarrow> p_tables w' g i = p_tables w g i)
    \<and> \<not> frame_taken (unat (next_address (p_alloc w))) (usable_frame mem (p_alloc w)) (pml4_frame child)
    \<and> proc_id child = next_process_id w \<and> entry_point child = entry_point parent
    \<and> proc_stack_top child = proc_stack_top parent \<and> threads child = [] \<and> p_phys w' = p_phys w"
proof -
  let ?t = "p_tables w" and ?s = "p_alloc w" and ?src = "pml4_frame parent"
  have ok: "phys_laws po \<and> map_aligned mem ?s" using assms(2,3) by simp
  have old: "\<forall>f\<in>insert kernel_cr3 (insert ?src (user_frames ops ?t ?src)).
      frame_taken (unat (next_address ?s)) (usable_frame mem ?s) f" using assms(6) by simp
  obtain nf t1 s1 t' s' where cr: "create_process_pml4 ops (allocate_frame po mem) kernel_cr3 (?t, ?s) = Done (nf, t1, s1)"
    and cl: "clone_user_mappings_cow ops (allocate_frame po mem) ?src nf (t1, s1) = Done (t', s')"
    using phys.pool.fork_tables_returns[OF assms(1) ok assms(4,5) old] by blast
  note f = phys.pool.fork_tables[OF assms(1) ok cr cl old]
  show ?thesis using cr cl f by (simp add: process_fork_def process_id_new_def Let_def clone_leaf_def[abs_def])
qed

text \<open>A parent with one user page, three tables deep, and one kernel entry.\<close>

definition demo_tables :: "u64 tables" where
  "demo_tables f i = (if f = 0x1000 \<and> i = 0 then 0x2007 else if f = 0x1000 \<and> i = 511 then 0x6003
     else if f = 0x2000 \<and> i = 1 then 0x3007 else if f = 0x3000 \<and> i = 2 then 0x4007
     else if f = 0x4000 \<and> i = 3 then 0x5007 else 0)"

definition demo_world :: "(u64, frame_allocator) pworld" where
  "demo_world = \<lparr>p_tables = demo_tables, p_alloc = frame_allocator_new demo_boot_info, p_phys = (\<lambda>_. 0), next_process_id = 2\<rparr>"

definition demo_parent :: process_inner where
  "demo_parent = \<lparr>proc_id = 1, pml4_frame = 0x1000, entry_point = 0x400000, proc_stack_top = 0x8000, threads = [1]\<rparr>"

lemma demo_table_rows:
  "i < 256 \<Longrightarrow> demo_tables 0x1000 i = (if i = 0 then 0x2007 else 0)"
  "demo_tables 0x2000 i = (if i = 1 then 0x3007 else 0)"
  "demo_tables 0x3000 i = (if i = 2 then 0x4007 else 0)"
  "demo_tables 0x4000 i = (if i = 3 then 0x5007 else 0)"
  by (simp_all add: demo_tables_def)

lemma single_child:
  assumes "entry_frame ops e = Some f" "k < 512" "\<And>i. is_unused ops (t f i) \<longleftrightarrow> i \<noteq> k"
  shows "table_count ops t (Suc n) e = Suc (table_count ops t n (t f k))"
    "tables_present ops t (Suc n) e = tables_present ops t n (t f k)"
    "sub_frames ops t (Suc n) e = insert f (sub_frames ops t n (t f k))"
proof -
  have "(\<Sum>i<512. if is_unused ops (t f i) then 0 else table_count ops t n (t f i))
      = (\<Sum>i<512. if i = k then table_count ops t n (t f k) else 0)"
    by (intro sum.cong) (auto simp: assms(3))
  with assms show "table_count ops t (Suc n) e = Suc (table_count ops t n (t f k))" by simp
  show "tables_present ops t (Suc n) e = tables_present ops t n (t f k)" using assms by auto
  show "sub_frames ops t (Suc n) e = insert f (sub_frames ops t n (t f k))" using assms by (auto split: if_splits)
qed

lemma demo_walk:
  "user_tables_present x86_entry demo_tables 0x1000"
  "user_table_count x86_entry demo_tables 0x1000 = 3"
  "user_frames x86_entry demo_tables 0x1000 = {0x2000, 0x3000, 0x4000}"
  "user_leaf x86_entry demo_tables 0x1000 [0, 1, 2, 3] = Some 0x5007"
proof -
  have f: "entry_frame x86_entry 0x2007 = Some 0x2000" "entry_frame x86_entry 0x3007 = Some 0x3000"
    "entry_frame x86_entry 0x4007 = Some 0x4000" and u: "is_unused x86_entry e \<longleftrightarrow> e = 0" for e
    by (simp_all add: x86_entry_def)
  note rows = demo_table_rows f u
  have c: "table_count x86_entry demo_tables 3 0x2007 = 3" "tables_present x86_entry demo_tables 3 0x2007"
    "sub_frames x86_entry demo_tables 3 0x2007 = {0x2000, 0x3000, 0x4000}"
    unfolding numeral_3_eq_3
    by (simp_all add: single_child[of x86_entry _ _ 1, OF f(1)] single_child[of x86_entry _ _ 2, OF f(2)]
        single_child[of x86_entry _ _ 3, OF f(3)] rows del: table_count.simps(2) tables_present.simps(2) sub_frames.simps(2))
  have "(\<Sum>i<256. if demo_tables 0x1000 i = 0 then 0 else table_count x86_entry demo_tables 3 (demo_tables 0x1000 i))
      = (\<Sum>i<256::nat. if i = 0 then 3 else 0)" by (intro sum.cong) (auto simp: rows c)
  then show "user_table_count x86_entry demo_tables 0x1000 = 3" by (simp add: user_table_count_def u)
  show "user_tables_present x86_entry demo_tables 0x1000" by (auto simp: user_tables_present_def rows c)
  have "(\<Union>i<256. if demo_tables 0x1000 i = 0 then {} else sub_frames x86_entry demo_tables 3 (demo_tables 0x1000 i))
      = (\<Union>i<256::nat. if i = 0 then {0x2000, 0x3000, 0x4000} else {})" by (intro SUP_cong) (auto simp: rows c)
  then show "user_frames x86_entry demo_tables 0x1000 = {0x2000, 0x3000, 0x4000}" by (auto simp: user_frames_def u)
  show "user_leaf x86_entry demo_tables 0x1000 [0, 1, 2, 3] = Some 0x5007" by (simp add: rows numeral_3_eq_3)
qed

theorem fork_copies_address_space_witness:
  "\<exists>child w'. process_fork x86_entry (allocate_frame x86_phys demo_map_memory) 0x1000 demo_parent demo_world = Done (child, w')
    \<and> user_leaf x86_entry (p_tables w') (pml4_frame child) [0, 1, 2, 3] = Some 0x5205
    \<and> user_leaf x86_entry demo_tables 0x1000 [0, 1, 2, 3] = Some 0x5007
    \<and> p_tables w' (pml4_frame child) 511 = 0x6003 \<and> proc_id child = 2"
proof -
  let ?fa = "frame_allocator_new demo_boot_info"
  have a: "allocate_frame x86_phys demo_map_memory \<lparr>fa_memory_map = bi_memory_map demo_boot_info, next_address = n\<rparr>
      = Done (Some c, \<lparr>fa_memory_map = bi_memory_map demo_boot_info, next_address = c + 0x1000\<rparr>)"
    if "(n, c) \<in> {(0x100000, 0x200000), (0x201000, 0x201000), (0x202000, 0x202000), (0x203000, 0x203000)}" for n c
    using that by (auto simp: allocate_frame_def demo_alloc frame_align_up_def checked_add_def PAGE_SIZE_def max_def x86_phys_def)
  have m: "map_aligned demo_map_memory ?fa"
    by (auto simp: map_aligned_def frame_allocator_new_def demo_get is_usable_def MEMORY_TYPE_CONVENTIONAL_def
        MEMORY_TYPE_BOOT_SERVICES_CODE_def MEMORY_TYPE_BOOT_SERVICES_DATA_def split: if_splits)
  have t: "can_take (allocate_frame x86_phys demo_map_memory) (Suc (Suc (Suc (Suc 0)))) ?fa"
    by (simp add: frame_allocator_new_def LOW_MEMORY_CUTOFF_def a)
  have o: "\<forall>f\<in>{0x1000, 0x1000} \<union> {0x2000, 0x3000, 0x4000}. frame_taken (unat (next_address ?fa)) (usable_frame demo_map_memory ?fa) f"
    by (simp add: frame_taken_def frame_allocator_new_def LOW_MEMORY_CUTOFF_def)
  have p: "user_path [0, 1, 2, 3]" by (simp add: user_path_def)
  have l: "set_flags x86_entry ((entry_flags x86_entry 0x5007 AND NOT WRITABLE) OR BIT_9) 0x5007 = 0x5205"
    by (simp add: x86_entry_def WRITABLE_def BIT_9_def)
  have w: "p_tables demo_world = demo_tables" "p_alloc demo_world = ?fa" "next_process_id demo_world = 2"
    "pml4_frame demo_parent = 0x1000" by (simp_all add: demo_world_def demo_parent_def)
  have "\<exists>child w'. process_fork x86_entry (allocate_frame x86_phys demo_map_memory) 0x1000 demo_parent demo_world = Done (child, w')
    \<and> (\<forall>path. user_path path \<longrightarrow> user_leaf x86_entry (p_tables w') (pml4_frame child) path
          = map_option (\<lambda>e. set_flags x86_entry ((entry_flags x86_entry e AND NOT WRITABLE) OR BIT_9) e) (user_leaf x86_entry demo_tables 0x1000 path))
    \<and> (\<forall>i. 256 \<le> i \<longrightarrow> i < 512 \<longrightarrow> p_tables w' (pml4_frame child) i = demo_tables 0x1000 i)
    \<and> proc_id child = 2"
    using fork_copies_address_space[of x86_entry x86_phys demo_map_memory demo_world demo_parent "0x1000",
        unfolded w demo_walk(2,3) numeral_3_eq_3, OF x86_entry_laws x86_phys_laws m demo_walk(1) t o] by blast
  then obtain child w' where r:
    "process_fork x86_entry (allocate_frame x86_phys demo_map_memory) 0x1000 demo_parent demo_world = Done (child, w')"
    "\<And>path. user_path path \<Longrightarrow> user_leaf x86_entry (p_tables w') (pml4_frame child) path
          = map_option (\<lambda>e. set_flags x86_entry ((entry_flags x86_entry e AND NOT WRITABLE) OR BIT_9) e) (user_leaf x86_entry demo_tables 0x1000 path)"
    "\<And>i. 256 \<le> i \<Longrightarrow> i < 512 \<Longrightarrow> p_tables w' (pml4_frame child) i = demo_tables 0x1000 i"
    "proc_id child = 2" by blast
  have "user_leaf x86_entry (p_tables w') (pml4_frame child) [0, 1, 2, 3] = Some 0x5205"
    unfolding r(2)[OF p] demo_walk(4) by (simp add: l)
  moreover have "p_tables w' (pml4_frame child) 511 = 0x6003" using r(3)[of 511] by (simp add: demo_tables_def)
  ultimately show ?thesis using r(1,4) demo_walk(4) by blast
qed


section \<open>Loading a program\<close>


text \<open>A mapper for the witness: the entry of a top-level table lists the pages mapped below it.\<close>

type_synonym page_list = "(u64 \<times> u64) list"

definition list_entry :: "page_list entry_ops" where
  "list_entry = \<lparr>is_unused = (\<lambda>e. e = []), entry_flags = (\<lambda>_. 0), set_flags = (\<lambda>_ e. e), set_frame = (\<lambda>_ _. []),
     entry_frame = (\<lambda>_. None), zero_entry = []\<rparr>"

definition p4_index :: "u64 \<Rightarrow> nat" where
  "p4_index v = unat v div 0x8000000000 mod 512"

definition list_mapper :: "(page_list, frame_allocator) mapper" where
  "list_mapper = \<lparr>
     mp_translate = (\<lambda>pml4 t v. map_option (\<lambda>f. page_base f + page_off v) (map_of (t pml4 (p4_index v)) (page_base v))),
     mp_map_to = (\<lambda>pml4 page frame flags (t, s).
       if map_of (t pml4 (p4_index page)) page = None
       then Done (True, write_entry pml4 (p4_index page) ((page, frame) # t pml4 (p4_index page)) t, s)
       else Done (False, t, s)),
     va_new = (\<lambda>a. if user_addr a then Done a else Panic),
     va_add = (\<lambda>a n. if unat a + unat n < 0x800000000000 then Done (a + n) else Panic),
     va_sub = (\<lambda>a n. if n \<le> a then Done (a - n) else Panic),
     page_of = page_base,
     page_range = (\<lambda>a b. map (\<lambda>k. a + of_nat (4096 * k)) [0..<(unat b - unat a) div 4096 + 1]),
     p_index = (\<lambda>_. p4_index)\<rparr>"

lemma list_page_range:
  assumes "a \<le> b"
  shows "set (page_range list_mapper (page_base a) (page_base b)) = {page_base v |v. a \<le> v \<and> v \<le> b}"
proof -
  let ?q = "\<lambda>v :: u64. unat v div 4096"
  have q: "?q a \<le> ?q b" using assms by (simp add: word_le_nat_alt div_le_mono)
  have n: "(unat (page_base b) - unat (page_base a)) div 4096 + 1 = Suc (?q b - ?q a)"
    unfolding unat_page diff_mult_distrib[symmetric] by simp
  have e: "unat (page_base a + of_nat (4096 * k)) = (?q a + k) * 4096" if "k \<le> ?q b - ?q a" for k
  proof -
    have "(?q a + k) * 4096 \<le> ?q b * 4096" using that q by (intro mult_le_mono1) linarith
    also have "\<dots> \<le> unat b" by (rule div_times_less_eq_dividend)
    finally have l: "?q a * 4096 + 4096 * k < usize_limit" using unat_u64_limit[of b] unfolding add_mult_distrib by linarith
    then have "unat (of_nat (4096 * k) :: u64) = 4096 * k" by (intro unat_of_nat_u64) linarith
    moreover from this l have "unat (page_base a) + unat (of_nat (4096 * k) :: u64) < 2 ^ LENGTH(64)" by (simp add: unat_page)
    ultimately show ?thesis using unat_add_lem[of "page_base a" "of_nat (4096 * k)"] by (simp add: unat_page)
  qed
  have inside: "page_base a + of_nat (4096 * k) \<in> {page_base v |v. a \<le> v \<and> v \<le> b}" if k: "k \<le> ?q b - ?q a" for k
  proof (cases k)
    case 0
    then show ?thesis using assms by auto
  next
    case (Suc j)
    let ?e = "page_base a + of_nat (4096 * k)"
    have "?q a * 4096 + unat a mod 4096 = unat a" "unat a mod 4096 < 4096" "1 \<le> k" using Suc by simp_all
    then have "unat a \<le> unat ?e" unfolding e[OF k] add_mult_distrib by linarith
    moreover have "(?q a + k) * 4096 \<le> ?q b * 4096" using k q by (intro mult_le_mono1) linarith
    then have "unat ?e \<le> unat b" unfolding e[OF k] using div_times_less_eq_dividend[of "unat b" 4096] by linarith
    moreover have "page_base ?e = ?e" using e[OF k] by (intro page_base_id) simp
    ultimately show ?thesis unfolding mem_Collect_eq word_le_nat_alt by metis
  qed
  have cover: "page_base v \<in> (\<lambda>k. page_base a + of_nat (4096 * k)) ` {0..<Suc (?q b - ?q a)}" if "a \<le> v" "v \<le> b" for v
  proof -
    have v: "?q a \<le> ?q v" "?q v \<le> ?q b" using that by (simp_all add: word_le_nat_alt div_le_mono)
    have k: "?q v - ?q a \<le> ?q b - ?q a" using v(2) by (rule diff_le_mono)
    have "unat (page_base a + of_nat (4096 * (?q v - ?q a))) = unat (page_base v)"
      unfolding e[OF k] unat_page using v(1) by simp
    then have "page_base v = page_base a + of_nat (4096 * (?q v - ?q a))" by (simp only: word_unat_eq_iff)
    then show ?thesis by (rule image_eqI) (use k in simp)
  qed
  have "set (page_range list_mapper (page_base a) (page_base b)) = (\<lambda>k. page_base a + of_nat (4096 * k)) ` {0..<Suc (?q b - ?q a)}"
    unfolding list_mapper_def mapper.select_convs n by (simp only: set_map set_upt)
  also have "\<dots> = {page_base v |v. a \<le> v \<and> v \<le> b}"
  proof (intro equalityI subsetI)
    fix x assume "x \<in> (\<lambda>k. page_base a + of_nat (4096 * k)) ` {0..<Suc (?q b - ?q a)}"
    then obtain k where "x = page_base a + of_nat (4096 * k)" "k \<le> ?q b - ?q a" by (elim imageE) simp
    with inside show "x \<in> {page_base v |v. a \<le> v \<and> v \<le> b}" by (simp only:)
  qed (use cover in blast)
  finally show ?thesis .
qed

lemma p4_index_base [simp]: "p4_index (page_base v) = p4_index v"
proof -
  have "unat v div 4096 * 4096 div 0x8000000000 = unat v div 0x8000000000"
    using div_mult2_eq[of "unat v" 4096 "0x8000000"] div_mult2_eq[of "unat v div 4096 * 4096" 4096 "0x8000000"] by simp
  then show ?thesis by (simp add: p4_index_def unat_page)
qed

lemma list_mapper_laws: "mapper_laws list_entry list_mapper alloc"
proof -
  have t: "pml4_tables list_entry t pml4 = [pml4]" for t pml4
    by (simp add: pml4_tables_def list_entry_def numeral_3_eq_3 del: upt_rec_numeral)
  have "map_to_law list_entry list_mapper alloc" unfolding map_to_law_def t
  proof (intro allI impI)
    fix pml4 page frame flags t s t' s'
    assume a: "4096 dvd unat page" "user_addr page" "phys_frame frame"
      "mp_map_to list_mapper pml4 page frame flags (t, s) = Done (True, t', s')"
    then have t': "t' = write_entry pml4 (p4_index page) ((page, frame) # t pml4 (p4_index page)) t" "s' = s"
      by (auto simp: list_mapper_def split: if_splits)
    have "page_base frame = frame" using a(3) by (simp add: phys_frame_def page_base_id)
    then have "mp_translate list_mapper pml4 t' v = (if page_base v = page then Some (frame + page_off v) else mp_translate list_mapper pml4 t v)" for v
      using p4_index_base[of v] by (auto simp: list_mapper_def t' write_entry_def)
    then show "\<exists>n fs. take_frames alloc n s = Done (fs, s') \<and> (distinct ([pml4] @ frame # fs) \<longrightarrow>
        distinct [pml4] \<and> set [pml4] \<subseteq> set [pml4] \<union> set fs \<and> (\<forall>v. user_addr v \<longrightarrow> mp_translate list_mapper pml4 t' v
          = (if page_base v = page then Some (frame + page_off v) else mp_translate list_mapper pml4 t v)))"
      by (intro exI[of _ 0] exI[of _ "[]"]) (simp add: t')
  qed
  moreover have "page_linear (mp_translate list_mapper pml4 t)" for pml4 t
    unfolding page_linear_def using p4_index_base by (auto simp: list_mapper_def map_option_case split: option.split)
  moreover have "mp_translate list_mapper pml4 t v = None" if "user_addr v" "\<forall>i<256. t pml4 i = zero_entry list_entry" for pml4 t v
  proof -
    have "p4_index v < 256" using that(1) by (simp add: p4_index_def user_addr_def)
    with that(2) show ?thesis by (simp add: list_mapper_def list_entry_def)
  qed
  moreover have "add_user_bit list_entry pml4 i t = t" for pml4 i and t :: "page_list tables"
    by (simp add: add_user_bit_def write_entry_def list_entry_def)
  ultimately show ?thesis
    using list_page_range by (auto simp: mapper_laws_def list_entry_def list_mapper_def)
qed

text \<open>A program of one segment that crosses a page: two bytes of file at \<open>0x400FFF\<close> and two bytes of zeros.\<close>

definition demo_program :: "u8 list" where
  "demo_program = [0x7F, 0x45, 0x4C, 0x46, 2, 1, 1, 0] @ [0, 0, 0, 0, 0, 0, 0, 0] @ [2, 0, 62, 0, 1, 0, 0, 0]
     @ [0xFF, 0x0F, 0x40, 0, 0, 0, 0, 0] @ [64, 0, 0, 0, 0, 0, 0, 0] @ [0, 0, 0, 0, 0, 0, 0, 0]
     @ [0, 0, 0, 0, 64, 0, 56, 0] @ [1, 0, 0, 0, 0, 0, 0, 0]
     @ [1, 0, 0, 0, 5, 0, 0, 0] @ [120, 0, 0, 0, 0, 0, 0, 0] @ [0xFF, 0x0F, 0x40, 0, 0, 0, 0, 0]
     @ [0xFF, 0x0F, 0x40, 0, 0, 0, 0, 0] @ [2, 0, 0, 0, 0, 0, 0, 0] @ [4, 0, 0, 0, 0, 0, 0, 0]
     @ [0, 0x10, 0, 0, 0, 0, 0, 0] @ [0xAB, 0xCD]"

definition program_head :: elf_header where
  "program_head = \<lparr>eh_entry = 0x400FFF, program_header_offset = 64, program_header_entry_size = 56, program_header_count = 1\<rparr>"

definition program_segment :: program_header where
  "program_segment = \<lparr>ph_file_offset = 120, ph_virtual_address = 0x400FFF, ph_physical_address = 0x400FFF,
     ph_file_size = 2, ph_memory_size = 4, ph_flags = 5, ph_align = 0x1000\<rparr>"

lemma demo_program_parses:
  "parse_header demo_program = Done (Inr program_head)"
  "parse_program_header demo_program program_head 0 = Done (Inr (Some program_segment))"
proof -
  have l: "length demo_program < usize_limit" by (simp add: demo_program_def)
  have c: "ELF_MAGIC = [0x7F, 0x45, 0x4C, 0x46]" "ELF_CLASS_64 = 2" "ELF_DATA_LITTLE_ENDIAN = 1" "ELF_TYPE_EXEC = 2"
    "ELF_TYPE_DYN = 3" "ELF_MACHINE_X86_64 = 62" "PROGRAM_HEADER_LOAD = 1"
    by (simp_all add: ELF_MAGIC_def ELF_CLASS_64_def ELF_DATA_LITTLE_ENDIAN_def ELF_TYPE_EXEC_def ELF_TYPE_DYN_def
        ELF_MACHINE_X86_64_def PROGRAM_HEADER_LOAD_def)
  show "parse_header demo_program = Done (Inr program_head)"
    unfolding parse_header_eq[OF l] c by (simp add: demo_program_def sub_slice_def le_u16_def le_u64_def program_head_def)
  have e: "56 \<le> program_header_entry_size program_head" by (simp add: program_head_def)
  show "parse_program_header demo_program program_head 0 = Done (Inr (Some program_segment))"
    unfolding parse_program_header_eq[OF l e] c
    by (simp add: demo_program_def sub_slice_def le_u32_def le_u64_def ph_start_def ph_at_def program_head_def program_segment_def)
qed

definition list_world :: "(page_list, frame_allocator) pworld" where
  "list_world = \<lparr>p_tables = (\<lambda>_ _. []), p_alloc = frame_allocator_new demo_boot_info, p_phys = (\<lambda>_. 7), next_process_id = 1\<rparr>"

abbreviation demo_fa :: "u64 \<Rightarrow> frame_allocator" where
  "demo_fa n \<equiv> \<lparr>fa_memory_map = bi_memory_map demo_boot_info, next_address = n\<rparr>"

lemma demo_frame:
  assumes "0x200000 \<le> n" "n < 0x280000" "4096 dvd unat n"
  shows "allocate_frame x86_phys demo_map_memory (demo_fa n) = Done (Some n, demo_fa (n + 0x1000))"
proof -
  have b: "unat n < 0x280000" using assms(2) by (simp add: word_less_nat_alt)
  have m: "max n 0x200000 = n" using assms(1) by (simp add: max_def)
  have "unat (frame_align_up n PAGE_SIZE) = unat n" using b assms(3) by (simp add: frame_align_up_cases round_up_id)
  then have a: "frame_align_up n PAGE_SIZE = n" by (simp only: word_unat_eq_iff)
  have c: "checked_add n PAGE_SIZE = Some (n + 0x1000)" using b by (simp add: checked_add_def PAGE_SIZE_def)
  have p: "pa_new x86_phys n = Done n" "containing_frame x86_phys n = n"
    using b page_base_id[OF assms(3)] by (simp_all add: x86_phys_def word_less_nat_alt page_base_def)
  show ?thesis using assms(2) by (simp add: allocate_frame_def demo_alloc m a c p Let_def)
qed

lemma list_map_page:
  assumes "map_of (t pml4 (p4_index page)) page = None" "page_base page = page"
    "0x200000 \<le> n" "n < 0x280000" "4096 dvd unat n"
  shows "map_user_page list_mapper (allocate_frame x86_phys demo_map_memory) pml4 fl page (t, demo_fa n)
    = Done (write_entry pml4 (p4_index page) ((page, n) # t pml4 (p4_index page)) t, demo_fa (n + 0x1000))"
  using assms by (simp add: map_user_page_def list_mapper_def demo_frame)

lemma demo_stack:
  assumes "t 0x200000 224 = []"
  shows "map_user_region list_entry list_mapper (allocate_frame x86_phys demo_map_memory) 0x200000 0x700000000000 0x8000 fl (t, demo_fa 0x201000)
    = Done (write_entry 0x200000 224 (map (\<lambda>k. (0x700000000000 + k * 0x1000, 0x201000 + k * 0x1000)) [7,6,5,4,3,2,1,0]) t, demo_fa 0x209000)"
proof -
  have v: "va_add list_mapper 0x700000000000 0x8000 = Done 0x700000008000" "va_sub list_mapper 0x700000008000 1 = Done 0x700000007FFF"
    "page_of list_mapper 0x700000000000 = 0x700000000000" "page_of list_mapper 0x700000007FFF = 0x700000007000"
    "page_range list_mapper 0x700000000000 0x700000007000 = map (\<lambda>k. 0x700000000000 + k * 0x1000) [0,1,2,3,4,5,6,7]"
    by (simp_all add: list_mapper_def page_base_def upt_conv_Cons)
  have u: "add_user_bit list_entry pml4 i t = t" for pml4 i and t :: "page_list tables"
    by (simp add: add_user_bit_def write_entry_def list_entry_def)
  show ?thesis
    by (simp add: map_user_region_def v u list_map_page p4_index_def page_base_def write_entry_def assms)
qed

lemma demo_text:
  assumes "t 0x200000 0 = []"
  shows "map_user_region list_entry list_mapper (allocate_frame x86_phys demo_map_memory) 0x200000 0x400FFF 4 fl (t, demo_fa 0x209000)
    = Done (write_entry 0x200000 0 [(0x401000, 0x20A000), (0x400000, 0x209000)] t, demo_fa 0x20B000)"
proof -
  have v: "va_add list_mapper 0x400FFF 4 = Done 0x401003" "va_sub list_mapper 0x401003 1 = Done 0x401002"
    "page_of list_mapper 0x400FFF = 0x400000" "page_of list_mapper 0x401002 = 0x401000"
    "page_range list_mapper 0x400000 0x401000 = [0x400000, 0x401000]"
    by (simp_all add: list_mapper_def page_base_def upt_conv_Cons)
  have u: "add_user_bit list_entry pml4 i t = t" for pml4 i and t :: "page_list tables"
    by (simp add: add_user_bit_def write_entry_def list_entry_def)
  show ?thesis
    by (simp add: map_user_region_def v u list_map_page p4_index_def page_base_def write_entry_def assms)
qed

lemma demo_new_from_elf:
  "\<exists>p w'. new_from_elf list_entry list_mapper (allocate_frame x86_phys demo_map_memory) 0x1000 demo_program list_world = Done (Inr p, w')"
proof -
  let ?al = "allocate_frame x86_phys demo_map_memory" and ?t0 = "\<lambda>_ _. [] :: page_list"
  have a: "?al (demo_fa 0x100000) = Done (Some 0x200000, demo_fa 0x201000)"
    by (simp add: allocate_frame_def demo_alloc frame_align_up_def checked_add_def PAGE_SIZE_def max_def x86_phys_def)
  have "write_entry f i [] ?t0 = ?t0" for f i by (simp add: write_entry_def fun_eq_iff)
  then have z: "fold (\<lambda>i t. write_entry f i (t k i) t) is ?t0 = ?t0" for f k and "is" :: "nat list"
    by (induction "is") simp_all
  have cr: "create_process_pml4 list_entry ?al 0x1000 (?t0, demo_fa 0x100000) = Done (0x200000, ?t0, demo_fa 0x201000)"
    using z by (simp add: create_process_pml4_def a Let_def list_entry_def fun_upd_idem del: upt_rec_numeral)
  define t1 where "t1 = write_entry 0x200000 224 (map (\<lambda>k. (0x700000000000 + k * 0x1000, 0x201000 + k * 0x1000)) [7,6,5,4,3,2,1,0]) ?t0"
  define t2 where "t2 = write_entry 0x200000 0 [(0x401000, 0x20A000), (0x400000, 0x209000)] t1"
  have st: "map_user_region list_entry list_mapper ?al 0x200000 0x700000000000 0x8000 fl (?t0, demo_fa 0x201000) = Done (t1, demo_fa 0x209000)" for fl
    unfolding t1_def by (rule demo_stack) simp
  have tx: "map_user_region list_entry list_mapper ?al 0x200000 0x400FFF 4 fl (t1, demo_fa 0x209000) = Done (t2, demo_fa 0x20B000)" for fl
    unfolding t2_def by (rule demo_text) (simp add: t1_def write_entry_def)
  have add: "\<forall>a n. unat a + unat n < 0x800000000000 \<longrightarrow> va_add list_mapper a n = Done (a + n)" by (simp add: list_mapper_def)
  have tr: "\<forall>k<4. mp_translate list_mapper 0x200000 t2 (0x400FFF + of_nat k) \<noteq> None"
  proof (intro allI impI)
    fix k :: nat assume "k < 4"
    then consider "k = 0" | "k = 1" | "k = 2" | "k = 3" by linarith
    then show "mp_translate list_mapper 0x200000 t2 (0x400FFF + of_nat k) \<noteq> None"
      by cases (simp_all add: list_mapper_def page_base_def p4_index_def t2_def write_entry_def)
  qed
  have l: "length demo_program = 122" by (simp add: demo_program_def)
  have seg: "\<exists>w'. load_segment list_entry list_mapper ?al 0x200000 demo_program program_segment w = Done w'"
    if w: "p_tables w = t1" "p_alloc w = demo_fa 0x209000" for w
  proof -
    obtain phys where c: "copy_chunks (va_add list_mapper) (mp_translate list_mapper 0x200000 t2) demo_program 120 0x400FFF 2 0 (p_phys w) = Done (2, phys)"
      using copy_chunks_returns[OF add, of "0x400FFF" 2 120 demo_program "mp_translate list_mapper 0x200000 t2" 0 "p_phys w"] tr l by auto
    obtain phys' where "zero_chunks (va_add list_mapper) (mp_translate list_mapper 0x200000 t2) 0x400FFF 4 2 phys = Done phys'"
      using zero_chunks_returns[OF add, of "0x400FFF" 4 "mp_translate list_mapper 0x200000 t2" 2 phys] tr by auto
    then show ?thesis using c tx w by (simp add: load_segment_def program_segment_def list_mapper_def user_addr_def)
  qed
  have "unat (ph_file_offset program_segment) = 120" "unat (ph_file_size program_segment) = 2" "ph_memory_size program_segment \<noteq> 0"
    by (simp_all add: program_segment_def)
  then have ls: "\<exists>w'. load_segments list_entry list_mapper ?al 0x200000 demo_program program_head [0] w = Done (Inr (), w')"
    if "p_tables w = t1" "p_alloc w = demo_fa 0x209000" for w
    using seg[OF that] demo_program_parses(2) l by (auto simp: usize_checked_add_def)
  have h: "program_header_count program_head = 1" "eh_entry program_head = 0x400FFF" by (simp_all add: program_head_def)
  have v: "va_new list_mapper 0x700000000000 = Done 0x700000000000" "va_new list_mapper 0x400FFF = Done 0x400FFF"
    "va_add list_mapper 0x700000000000 0x8000 = Done 0x700000008000" by (simp_all add: list_mapper_def user_addr_def)
  have w: "p_tables list_world = ?t0" "p_alloc list_world = demo_fa 0x100000"
    by (simp_all add: list_world_def frame_allocator_new_def LOW_MEMORY_CUTOFF_def)
  let ?w = "list_world\<lparr>p_tables := ?t0, p_alloc := demo_fa 0x201000, next_process_id := Suc (next_process_id list_world) mod usize_limit,
    p_tables := t1, p_alloc := demo_fa 0x209000\<rparr>"
  obtain w' where w': "load_segments list_entry list_mapper ?al 0x200000 demo_program program_head [0] ?w = Done (Inr (), w')"
    using ls[of ?w] by (auto simp del: load_segments.simps)
  show ?thesis
    using w' by (simp add: new_from_elf_def demo_program_parses(1) w cr v st h process_id_new_def Let_def del: load_segments.simps)
qed


end
