(* ===== verification/Serial.thy ===== *)
theory Serial
  imports Bytes
begin

text \<open>
  The serial port (\<^verbatim>\<open>shared/serial/src/lib.rs\<close>).  The port's hardware is the argument \<open>uart\<close>, the value of
  its line-status register at each read; the state counts these reads and records every \<open>out\<close>.  Waiting
  for the transmitter may never end, so sending is partial: \<open>None\<close> means that it does not return.
\<close>


section \<open>Definitions\<close>

definition COM1_BASE :: u16 where "COM1_BASE = 0x3F8"

record serial =
  ser_reads :: nat
  ser_outs :: "(u16 \<times> u8) list"

definition out8 :: "u16 \<Rightarrow> u8 \<Rightarrow> serial \<Rightarrow> serial" where
  "out8 port v s = s\<lparr>ser_outs := ser_outs s @ [(port, v)]\<rparr>"

definition in8 :: "(nat \<Rightarrow> u8) \<Rightarrow> serial \<Rightarrow> u8 \<times> serial" where
  "in8 uart s = (uart (ser_reads s), s\<lparr>ser_reads := ser_reads s + 1\<rparr>)"

definition serial_init :: "serial \<Rightarrow> serial" where
  "serial_init s = fold (\<lambda>(p, v). out8 p v)
     [(COM1_BASE + 1, 0x00), (COM1_BASE + 3, 0x80), (COM1_BASE, 0x03), (COM1_BASE + 1, 0x00),
      (COM1_BASE + 3, 0x03), (COM1_BASE + 2, 0xC7), (COM1_BASE + 4, 0x0B)] s"

partial_function (option) wait_ready :: "(nat \<Rightarrow> u8) \<Rightarrow> serial \<Rightarrow> serial option" where
  "wait_ready uart s = (case in8 uart s of (v, s) \<Rightarrow> if v AND 0x20 = 0 then wait_ready uart s else Some s)"

definition write_byte :: "(nat \<Rightarrow> u8) \<Rightarrow> u8 \<Rightarrow> serial \<Rightarrow> serial option" where
  "write_byte uart b s = (case wait_ready uart s of None \<Rightarrow> None | Some s \<Rightarrow> Some (out8 COM1_BASE b s))"

fun serial_write_str :: "(nat \<Rightarrow> u8) \<Rightarrow> rstr \<Rightarrow> serial \<Rightarrow> serial option" where
  "serial_write_str uart [] s = Some s"
| "serial_write_str uart (b # bs) s =
     (case (if b = 10 then (case write_byte uart 13 s of None \<Rightarrow> None | Some s \<Rightarrow> write_byte uart 10 s)
            else write_byte uart b s) of
        None \<Rightarrow> None
      | Some s \<Rightarrow> serial_write_str uart bs s)"


section \<open>Sending\<close>

text \<open>What goes over the line for a text: a carriage return before each newline.\<close>

definition line_bytes :: "rstr \<Rightarrow> u8 list" where
  "line_bytes bs = concat (map (\<lambda>b. if b = 10 then [13, 10] else [b]) bs)"

definition ready_at :: "(nat \<Rightarrow> u8) \<Rightarrow> nat \<Rightarrow> bool" where
  "ready_at uart n \<longleftrightarrow> uart n AND 0x20 \<noteq> 0"

lemma wait_ready_skip:
  assumes "\<forall>k<d. \<not> ready_at uart (ser_reads s + k)"
  shows "wait_ready uart s = wait_ready uart (s\<lparr>ser_reads := ser_reads s + d\<rparr>)"
  using assms
proof (induction d arbitrary: s)
  case (Suc d)
  let ?s = "s\<lparr>ser_reads := ser_reads s + 1\<rparr>"
  have "\<not> ready_at uart (ser_reads s)" using Suc.prems by force
  then have "wait_ready uart s = wait_ready uart ?s"
    by (subst wait_ready.simps) (simp add: in8_def ready_at_def)
  also have "\<dots> = wait_ready uart (?s\<lparr>ser_reads := ser_reads ?s + d\<rparr>)"
    using Suc.prems by (intro Suc.IH) force
  finally show ?case by simp
qed simp

lemma wait_ready_Some:
  assumes "ready_at uart (ser_reads s + d)" "\<forall>k<d. \<not> ready_at uart (ser_reads s + k)"
  shows "wait_ready uart s = Some (s\<lparr>ser_reads := ser_reads s + d + 1\<rparr>)"
  unfolding wait_ready_skip[OF assms(2)] using assms(1)
  by (subst wait_ready.simps) (simp add: in8_def ready_at_def)

text \<open>While the transmitter never becomes ready, waiting does not return.\<close>

lemma wait_ready_None:
  assumes "\<forall>k\<ge>ser_reads s. \<not> ready_at uart k"
  shows "wait_ready uart s = None"
proof (rule ccontr)
  assume "wait_ready uart s \<noteq> None"
  then obtain s' where "wait_ready uart s = Some s'" by auto
  then have "\<exists>k\<ge>ser_reads s. ready_at uart k"
  proof (rule wait_ready.raw_induct[where P = "\<lambda>u s _. \<exists>k\<ge>ser_reads s. ready_at u k", rotated])
    fix wait u s s'
    assume ih: "\<And>u s y. wait u s = Some y \<Longrightarrow> \<exists>k\<ge>ser_reads s. ready_at u k"
      and r: "(case in8 u s of (v, s) \<Rightarrow> if v AND 32 = 0 then wait u s else Some s) = Some s'"
    show "\<exists>k\<ge>ser_reads s. ready_at u k"
    proof (cases "u (ser_reads s) AND 32 = 0")
      case True
      with r have "wait u (s\<lparr>ser_reads := ser_reads s + 1\<rparr>) = Some s'" by (simp add: in8_def)
      from ih[OF this] show ?thesis by (auto dest: Suc_leD)
    qed (auto simp: ready_at_def)
  qed
  with assms show False by blast
qed

lemma write_byte_Some:
  assumes "\<forall>n. \<exists>m\<ge>n. ready_at uart m"
  shows "\<exists>r. write_byte uart b s = Some (s\<lparr>ser_reads := r, ser_outs := ser_outs s @ [(COM1_BASE, b)]\<rparr>)"
proof -
  define d where "d = (LEAST d. ready_at uart (ser_reads s + d))"
  obtain m where "m \<ge> ser_reads s" "ready_at uart m" using assms by blast
  then have "ready_at uart (ser_reads s + (m - ser_reads s))" by simp
  then have "ready_at uart (ser_reads s + d)" unfolding d_def by (rule LeastI)
  moreover have "\<forall>k<d. \<not> ready_at uart (ser_reads s + k)" unfolding d_def using not_less_Least by blast
  ultimately show ?thesis by (intro exI[of _ "ser_reads s + d + 1"]) (simp add: write_byte_def wait_ready_Some out8_def)
qed



end
