(* ===== verification/Arch.thy ===== *)
theory Arch
  imports Context_Switch Tty
begin

text \<open>
  Setting up the processor: segments (\<^verbatim>\<open>kernel/src/gdt.rs\<close>), interrupt controllers
  (\<^verbatim>\<open>kernel/src/interrupts/apic.rs\<close>), the interrupt table and the keyboard handler
  (\<^verbatim>\<open>kernel/src/interrupts/mod.rs\<close>), and the system-call registers (\<^verbatim>\<open>kernel/src/syscall/mod.rs\<close>).
  Arguments stand for code and hardware outside the repository: \<open>gdt_append\<close> for the descriptor table of the
  \<^verbatim>\<open>x86_64\<close> crate, \<open>va_new\<close> and \<open>va_add\<close> for its addresses, \<open>dev\<close> for what a memory-mapped register reads
  after a history of writes, \<open>add_byte\<close> and \<open>process_keyevent\<close> for the decoder of \<^verbatim>\<open>pc_keyboard\<close>.
\<close>


section \<open>Segments\<close>

datatype descriptor =
    Kernel_code_segment | Kernel_data_segment | User_code_segment | User_data_segment | Tss_segment u64

record selectors =
  kernel_code :: u16
  kernel_data :: u16
  user_code_32 :: u16
  user_code_64 :: u16
  user_data :: u16
  sel_tss :: u16

definition build_gdt :: "(descriptor \<Rightarrow> 'g \<Rightarrow> u16 \<times> 'g) \<Rightarrow> u64 \<Rightarrow> 'g \<Rightarrow> 'g \<times> selectors" where
  "build_gdt gdt_append tss_addr gdt =
     (let (kc, gdt) = gdt_append Kernel_code_segment gdt;
          (kd, gdt) = gdt_append Kernel_data_segment gdt;
          (uc32, gdt) = gdt_append User_code_segment gdt;
          (ud, gdt) = gdt_append User_data_segment gdt;
          (uc64, gdt) = gdt_append User_code_segment gdt;
          (tss, gdt) = gdt_append (Tss_segment tss_addr) gdt in
      (gdt, \<lparr>kernel_code = kc, kernel_data = kd, user_code_32 = uc32, user_code_64 = uc64, user_data = ud, sel_tss = tss\<rparr>))"

text \<open>The processor's tables and registers that initialisation writes.\<close>

record 'g arch =
  a_gdtr :: "'g option"
  a_cs :: u16
  a_ds :: u16
  a_es :: u16
  a_ss :: u16
  a_tr :: u16
  a_ist0 :: u64
  a_gs_base :: u64
  a_kernel_gs_base :: u64
  a_idt_loaded :: bool
  a_pics_disabled :: bool
  a_apic_base_msr :: u64
  a_star :: u64
  a_lstar :: u64
  a_sfmask :: u64
  a_efer :: u64
  a_mmio :: "(u64 \<times> u32) list"
  a_lapic :: u64
  a_ioapic :: u64

definition load_segments_of :: "'g \<times> selectors \<Rightarrow> u64 \<Rightarrow> 'g arch \<Rightarrow> 'g arch" where
  "load_segments_of gdt per_cpu a = a\<lparr>a_gdtr := Some (fst gdt), a_cs := kernel_code (snd gdt), a_ds := 0, a_es := 0,
     a_ss := 0, a_tr := sel_tss (snd gdt), a_gs_base := per_cpu, a_kernel_gs_base := 0\<rparr>"

definition gdt_init :: "(u64 \<Rightarrow> u64 \<Rightarrow> u64 run) \<Rightarrow> 'g \<times> selectors \<Rightarrow> u64 \<Rightarrow> u64 \<Rightarrow> 'g arch \<Rightarrow> 'g arch run" where
  "gdt_init va_add gdt stack_start per_cpu a =
     run_bind (va_add stack_start (4096 * 2)) (\<lambda>top. Done (load_segments_of gdt per_cpu (a\<lparr>a_ist0 := top\<rparr>)))"

definition gdt_init_for_cpu :: "'g \<times> selectors \<Rightarrow> u64 \<Rightarrow> 'g arch \<Rightarrow> 'g arch" where
  "gdt_init_for_cpu gdt per_cpu a = load_segments_of gdt per_cpu a"

definition reload_gdt :: "'g \<times> selectors \<Rightarrow> 'g arch \<Rightarrow> 'g arch" where
  "reload_gdt gdt a = a\<lparr>a_gdtr := Some (fst gdt)\<rparr>"


section \<open>System-call registers\<close>

definition syscall_init :: "(u64 \<Rightarrow> u64 run) \<Rightarrow> u64 \<Rightarrow> 'g arch \<Rightarrow> 'g arch run" where
  "syscall_init va_new entry a =
     (let kernel_base = 0x08; user_base = 0x1B;
          a = a\<lparr>a_star := push_bit 48 user_base OR push_bit 32 kernel_base\<rparr> in
      run_bind (va_new entry) (\<lambda>l.
      let a = a\<lparr>a_lstar := l, a_sfmask := 0x200\<rparr> in
      Done (a\<lparr>a_efer := a_efer a OR 1\<rparr>)))"


section \<open>Interrupt controllers\<close>

definition mmio_write :: "u64 \<Rightarrow> u32 \<Rightarrow> 'g arch \<Rightarrow> 'g arch" where
  "mmio_write addr v a = a\<lparr>a_mmio := a_mmio a @ [(addr, v)]\<rparr>"

definition lapic_write :: "u64 \<Rightarrow> u32 \<Rightarrow> u32 \<Rightarrow> 'g arch \<Rightarrow> 'g arch run" where
  "lapic_write base offset v a = run_bind (add_or_panic base (ucast offset)) (\<lambda>p. Done (mmio_write p v a))"

definition lapic_read :: "((u64 \<times> u32) list \<Rightarrow> u64 \<Rightarrow> u32) \<Rightarrow> u64 \<Rightarrow> u32 \<Rightarrow> 'g arch \<Rightarrow> u32 run" where
  "lapic_read dev base offset a = run_bind (add_or_panic base (ucast offset)) (\<lambda>p. Done (dev (a_mmio a) p))"

definition lapic_initialize :: "((u64 \<times> u32) list \<Rightarrow> u64 \<Rightarrow> u32) \<Rightarrow> u64 \<Rightarrow> 'g arch \<Rightarrow> 'g arch run" where
  "lapic_initialize dev base a =
     (let spurious_vector = 0xFF in
      run_bind (lapic_read dev base 0xF0 a) (\<lambda>v. lapic_write base 0xF0 (v OR 0x100 OR spurious_vector) a))"

definition start_timer :: "u64 \<Rightarrow> u32 \<Rightarrow> 'g arch \<Rightarrow> 'g arch run" where
  "start_timer base initial_count a =
     run_bind (lapic_write base 0x3E0 0x3 a) (\<lambda>a.
     run_bind (lapic_write base 0x320 (0x20000 OR 32) a) (\<lambda>a.
     lapic_write base 0x380 initial_count a))"

definition lapic_signal_eoi :: "u64 \<Rightarrow> 'g arch \<Rightarrow> 'g arch run" where
  "lapic_signal_eoi base a = lapic_write base 0xB0 0 a"

definition ioapic_write :: "u64 \<Rightarrow> u32 \<Rightarrow> u32 \<Rightarrow> 'g arch \<Rightarrow> 'g arch" where
  "ioapic_write base reg v a = mmio_write (base + 16) v (mmio_write base reg a)"

definition route_irq :: "u64 \<Rightarrow> u8 \<Rightarrow> u8 \<Rightarrow> 'g arch \<Rightarrow> 'g arch" where
  "route_irq base irq vector a =
     (let low_reg = 0x10 + ucast irq * 2; high_reg = low_reg + 1 in
      ioapic_write base high_reg 0 (ioapic_write base low_reg (ucast vector) a))"

definition get_base_addr :: "(u64 \<Rightarrow> u64 run) \<Rightarrow> 'g arch \<Rightarrow> (u64 \<times> 'g arch) run" where
  "get_base_addr va_new a =
     (let base = a_apic_base_msr a;
          a = (if base AND 0x800 = 0 then a\<lparr>a_apic_base_msr := base OR 0x800\<rparr> else a) in
      run_bind (va_new (base AND 0xFFFFFFFFFF000)) (\<lambda>addr. Done (addr, a)))"

definition apic_init_for_cpu ::
  "(u64 \<Rightarrow> u64 run) \<Rightarrow> ((u64 \<times> u32) list \<Rightarrow> u64 \<Rightarrow> u32) \<Rightarrow> 'g arch \<Rightarrow> 'g arch run" where
  "apic_init_for_cpu va_new dev a = run_bind (get_base_addr va_new a) (\<lambda>(base, a). lapic_initialize dev base a)"


section \<open>Interrupts\<close>

definition PIC_1_OFFSET :: u8 where "PIC_1_OFFSET = 32"
definition PIC_2_OFFSET :: u8 where "PIC_2_OFFSET = PIC_1_OFFSET + 8"
definition SYSCALL_VECTOR :: u8 where "SYSCALL_VECTOR = 0x80"
definition TIMER_INTERRUPT_VECTOR :: u8 where "TIMER_INTERRUPT_VECTOR = 32"
definition KEYBOARD_INTERRUPT_VECTOR :: u8 where "KEYBOARD_INTERRUPT_VECTOR = 33"
definition YIELD_INTERRUPT_VECTOR :: u8 where "YIELD_INTERRUPT_VECTOR = 0x81"

datatype idt_handler =
    Breakpoint_handler | Double_fault_handler u16 | Page_fault_handler | Gpf_handler
  | Timer_interrupt_entry | Yield_interrupt_entry | Keyboard_interrupt_handler | Syscall_handler

text \<open>The named exceptions of the table have the vectors 3, 8, 13 and 14 of the architecture.\<close>

definition idt :: "u8 \<Rightarrow> idt_handler option" where
  "idt = Map.empty(3 \<mapsto> Breakpoint_handler, 8 \<mapsto> Double_fault_handler 0, 14 \<mapsto> Page_fault_handler,
     13 \<mapsto> Gpf_handler, TIMER_INTERRUPT_VECTOR \<mapsto> Timer_interrupt_entry,
     YIELD_INTERRUPT_VECTOR \<mapsto> Yield_interrupt_entry, KEYBOARD_INTERRUPT_VECTOR \<mapsto> Keyboard_interrupt_handler,
     SYSCALL_VECTOR \<mapsto> Syscall_handler)"

definition init_idt :: "'g arch \<Rightarrow> 'g arch" where
  "init_idt a = a\<lparr>a_idt_loaded := True\<rparr>"

text \<open>The first use of the lazily built local controller reads the base register once more.\<close>

definition interrupts_init ::
  "(u64 \<Rightarrow> u64 run) \<Rightarrow> (u64 \<Rightarrow> u64 \<Rightarrow> u64 run) \<Rightarrow> ((u64 \<times> u32) list \<Rightarrow> u64 \<Rightarrow> u32) \<Rightarrow> u64 \<Rightarrow> 'g arch \<Rightarrow> 'g arch run" where
  "interrupts_init va_new va_add dev phys_mem_offset a =
     (let a = (init_idt a)\<lparr>a_pics_disabled := True\<rparr> in
      run_bind (get_base_addr va_new a) (\<lambda>(lapic_phys, a).
      run_bind (va_add phys_mem_offset lapic_phys) (\<lambda>lapic_virt.
      run_bind (get_base_addr va_new a) (\<lambda>(_, a).
      let a = a\<lparr>a_lapic := lapic_virt\<rparr> in
      run_bind (lapic_initialize dev lapic_virt a) (\<lambda>a.
      run_bind (start_timer lapic_virt 0x10000 a) (\<lambda>a.
      run_bind (va_add phys_mem_offset 0xFEC00000) (\<lambda>ioapic_virt.
      let a = a\<lparr>a_ioapic := ioapic_virt\<rparr> in
      Done (route_irq ioapic_virt 1 KEYBOARD_INTERRUPT_VECTOR a))))))))"

text \<open>One keyboard interrupt: the decoder's state, the terminal and its screen, the character buffer.\<close>

datatype decoded_key = Unicode rchar | RawKey

record ('k, 'g) input_state =
  in_decoder :: 'k
  in_tty :: "tty \<times> screen"
  in_buffer :: "rchar list"
  in_arch :: "'g arch"

definition deliver_key :: "decoded_key \<Rightarrow> ('k, 'g) input_state \<Rightarrow> ('k, 'g) input_state run" where
  "deliver_key key st = (case key of
       Unicode character \<Rightarrow>
         run_bind (handle_input character (in_tty st)) (\<lambda>t.
         Done (st\<lparr>in_tty := t, in_buffer := add_char character (in_buffer st)\<rparr>))
     | RawKey \<Rightarrow> Done st)"

definition keyboard_interrupt ::
  "('k \<Rightarrow> u8 \<Rightarrow> ('err + 'ev option) \<times> 'k) \<Rightarrow> ('k \<Rightarrow> 'ev \<Rightarrow> decoded_key option \<times> 'k) \<Rightarrow> u8
    \<Rightarrow> ('k, 'g) input_state \<Rightarrow> ('k, 'g) input_state run" where
  "keyboard_interrupt add_byte process_keyevent scancode st =
     (case add_byte (in_decoder st) scancode of (r, k) \<Rightarrow>
      let st = st\<lparr>in_decoder := k\<rparr> in
      run_bind (case r of
          Inr (Some key_event) \<Rightarrow>
            (case process_keyevent k key_event of
               (None, k) \<Rightarrow> Done (st\<lparr>in_decoder := k\<rparr>)
             | (Some key, k) \<Rightarrow> deliver_key key (st\<lparr>in_decoder := k\<rparr>))
        | _ \<Rightarrow> Done st) (\<lambda>st.
      run_bind (lapic_signal_eoi (a_lapic (in_arch st)) (in_arch st)) (\<lambda>a. Done (st\<lparr>in_arch := a\<rparr>))))"


section \<open>Segments of tasks and the descriptor table\<close>

text \<open>What the crate documents of its table: the first entry is the null descriptor; a code or data segment
  takes one further entry and a task state segment two, of at most eight; the selector is the index times
  eight with the descriptor's privilege level.\<close>

definition descriptor_rpl :: "descriptor \<Rightarrow> u16" where
  "descriptor_rpl d = (case d of User_code_segment \<Rightarrow> 3 | User_data_segment \<Rightarrow> 3 | _ \<Rightarrow> 0)"

definition descriptor_slots :: "descriptor \<Rightarrow> nat" where
  "descriptor_slots d = (case d of Tss_segment _ \<Rightarrow> 2 | _ \<Rightarrow> 1)"

definition gdt_law :: "(descriptor \<Rightarrow> 'g \<Rightarrow> u16 \<times> 'g) \<Rightarrow> ('g \<Rightarrow> nat) \<Rightarrow> bool" where
  "gdt_law gdt_append next_index \<longleftrightarrow> (\<forall>d g. next_index g + descriptor_slots d \<le> 8 \<longrightarrow>
     fst (gdt_append d g) = of_nat (8 * next_index g) OR descriptor_rpl d
     \<and> next_index (snd (gdt_append d g)) = next_index g + descriptor_slots d)"

lemma build_gdt_selectors:
  assumes "gdt_law gdt_append next_index" "next_index g = 1"
  shows "snd (build_gdt gdt_append tss g) =
    \<lparr>kernel_code = 0x08, kernel_data = 0x10, user_code_32 = 0x1B, user_code_64 = 0x2B, user_data = 0x23, sel_tss = 0x30\<rparr>"
proof -
  have step: "\<exists>g'. gdt_append d g = (of_nat (8 * n) OR descriptor_rpl d, g') \<and> next_index g' = n + descriptor_slots d"
    if "next_index g = n" "n + descriptor_slots d \<le> 8" for d g n
    using assms(1) that unfolding gdt_law_def by (metis prod.collapse)
  note d = descriptor_rpl_def descriptor_slots_def
  obtain g1 where 1: "gdt_append Kernel_code_segment g = (0x08, g1)" "next_index g1 = 2"
    using step[OF assms(2), of Kernel_code_segment] by (auto simp: d)
  obtain g2 where 2: "gdt_append Kernel_data_segment g1 = (0x10, g2)" "next_index g2 = 3"
    using step[OF 1(2), of Kernel_data_segment] by (auto simp: d)
  obtain g3 where 3: "gdt_append User_code_segment g2 = (0x1B, g3)" "next_index g3 = 4"
    using step[OF 2(2), of User_code_segment] by (auto simp: d)
  obtain g4 where 4: "gdt_append User_data_segment g3 = (0x23, g4)" "next_index g4 = 5"
    using step[OF 3(2), of User_data_segment] by (auto simp: d)
  obtain g5 where 5: "gdt_append User_code_segment g4 = (0x2B, g5)" "next_index g5 = 6"
    using step[OF 4(2), of User_code_segment] by (auto simp: d)
  obtain g6 where 6: "gdt_append (Tss_segment tss) g5 = (0x30, g6)"
    using step[OF 5(2), of "Tss_segment tss"] by (auto simp: d)
  show ?thesis by (simp add: build_gdt_def 1(1) 2(1) 3(1) 4(1) 5(1) 6)
qed

lemma new_frame_segments:
  "write_frame stack_top vss vsp vcs entry mem = (p, mem') \<Longrightarrow>
   p = stack_top - 160 \<and> c_cs (frame_at mem' p) = vcs \<and> c_ss (frame_at mem' p) = vss \<and> c_rip (frame_at mem' p) = entry
   \<and> c_rsp (frame_at mem' p) = vsp \<and> c_rflags (frame_at mem' p) = 0x202"
  using write_frame_context[of stack_top vss vsp vcs entry mem] by (auto simp: frame_at_def)


definition list_append :: "descriptor \<Rightarrow> descriptor list \<Rightarrow> u16 \<times> descriptor list" where
  "list_append d g = (of_nat (8 * (1 + sum_list (map descriptor_slots g))) OR descriptor_rpl d, g @ [d])"


end
