(* ===== verification/Devices.thy ===== *)
theory Devices
  imports Bytes
begin

text \<open>
  The PCI scan (\<^verbatim>\<open>kernel/src/drivers/pci.rs\<close>) and the SATA controller (\<^verbatim>\<open>kernel/src/drivers/ahci.rs\<close>).
  The hardware is a parameter: \<open>cfg\<close> is the double word that the configuration port returns for an address,
  \<open>io\<close> reads and writes the controller's registers, a read possibly changing the device.  A loop that waits for the
  device may not end: \<open>None\<close> means that the operation does not return.
\<close>


section \<open>Outcomes of operations that wait\<close>

definition wait_bind :: "'a run option \<Rightarrow> ('a \<Rightarrow> 'b run option) \<Rightarrow> 'b run option" where
  "wait_bind m f = (case m of None \<Rightarrow> None | Some Panic \<Rightarrow> Some Panic | Some (Done x) \<Rightarrow> f x)"

fun wait_fold :: "('a \<Rightarrow> 's \<Rightarrow> 's run option) \<Rightarrow> 'a list \<Rightarrow> 's \<Rightarrow> 's run option" where
  "wait_fold f [] s = Some (Done s)"
| "wait_fold f (x # xs) s = wait_bind (f x s) (wait_fold f xs)"

lemma wait_bind_simps [simp]:
  "wait_bind None f = None" "wait_bind (Some Panic) f = Some Panic" "wait_bind (Some (Done x)) f = f x"
  by (simp_all add: wait_bind_def)

lemma wait_bind_Done: "wait_bind m f = Some (Done y) \<longleftrightarrow> (\<exists>x. m = Some (Done x) \<and> f x = Some (Done y))"
  by (auto simp: wait_bind_def split: option.splits run.splits)


section \<open>The disk controller\<close>

record 'd mmio =
  rd :: "u64 \<Rightarrow> 'd \<Rightarrow> u32 \<times> 'd"
  wr :: "u64 \<Rightarrow> u32 \<Rightarrow> 'd \<Rightarrow> 'd"

text \<open>Register addresses follow from the layout of the C structures: \<open>Ghc\<close> has \<open>ghc\<close>, \<open>pi\<close> and \<open>vs\<close> at 4, 12 and 16;
  the fifteen registers of \<open>PortRegs\<close> take 60 bytes, with \<open>cmd\<close> at 24 and \<open>sig\<close> at 36.\<close>

definition port_reg :: "u64 \<Rightarrow> nat \<Rightarrow> u64 \<Rightarrow> u64" where
  "port_reg ports_base n off = ports_base + of_nat (n * 60) + off"

record ahci_controller =
  ah_abar :: u64
  ah_ports :: u64

definition modify :: "'d mmio \<Rightarrow> u64 \<Rightarrow> (u32 \<Rightarrow> u32) \<Rightarrow> 'd \<Rightarrow> 'd" where
  "modify io a f d = (case rd io a d of (v, d) \<Rightarrow> wr io a (f v) d)"

definition ahci_init :: "'d mmio \<Rightarrow> (u64 \<Rightarrow> u64 \<Rightarrow> u64 run) \<Rightarrow> u64 \<Rightarrow> 'd \<Rightarrow> (ahci_controller option \<times> 'd) run" where
  "ahci_init io va_add abar d =
     (let (_, d) = rd io (abar + 0x10) d;
          (_, d) = rd io (abar + 0x10) d;
          d = modify io (abar + 0x04) (\<lambda>v. v OR 0x80000000) d;
          (_, d) = rd io (abar + 0x0C) d in
      run_bind (va_add abar 0x100) (\<lambda>ports_base.
      Done (Some \<lparr>ah_abar = abar, ah_ports = ports_base\<rparr>, d)))"

partial_function (option) wait_clear :: "'d mmio \<Rightarrow> u64 \<Rightarrow> u32 \<Rightarrow> 'd \<Rightarrow> 'd option" where
  "wait_clear io a bits d = (case rd io a d of (v, d) \<Rightarrow> if v AND bits \<noteq> 0 then wait_clear io a bits d else Some d)"

definition init_port :: "'d mmio \<Rightarrow> ahci_controller \<Rightarrow> nat \<Rightarrow> 'd \<Rightarrow> 'd option" where
  "init_port io c port_num d =
     (let cmd = port_reg (ah_ports c) port_num 0x18 in
      case wait_clear io cmd 0x00000001 (modify io cmd (\<lambda>v. v AND NOT 0x00000001) d) of None \<Rightarrow> None | Some d \<Rightarrow>
      case wait_clear io cmd 0x00000010 (modify io cmd (\<lambda>v. v AND NOT 0x00000010) d) of None \<Rightarrow> None | Some d \<Rightarrow>
      let d = modify io cmd (\<lambda>v. v OR 0x00000010) d in
      Some (modify io cmd (\<lambda>v. v OR 0x00000001) d))"

datatype port_kind = Sata | Satapi | Semb | Pmp | No_device u32

definition port_kind_of :: "u32 \<Rightarrow> port_kind" where
  "port_kind_of sig = (if sig = 0x101 then Sata else if sig = 0xEB140101 then Satapi else if sig = 0x96690101 then Semb
     else if sig = 0x00000101 then Pmp else No_device sig)"

text \<open>The report names each implemented port and what was found there.\<close>

definition probe_port ::
  "'d mmio \<Rightarrow> ahci_controller \<Rightarrow> u32 \<Rightarrow> nat \<Rightarrow> (nat \<times> port_kind) list \<times> 'd \<Rightarrow> ((nat \<times> port_kind) list \<times> 'd) run option" where
  "probe_port io c ports_impl port_num st =
     (if drop_bit port_num ports_impl AND 1 = 0 then Some (Done st)
      else case rd io (port_reg (ah_ports c) port_num 0x24) (snd st) of (sig, d) \<Rightarrow>
        let report = fst st @ [(port_num, port_kind_of sig)] in
        if port_kind_of sig = Sata then
          (case init_port io c port_num d of None \<Rightarrow> None | Some d \<Rightarrow> Some (Done (report, d)))
        else Some (Done (report, d)))"

definition probe_ports :: "'d mmio \<Rightarrow> ahci_controller \<Rightarrow> 'd \<Rightarrow> ((nat \<times> port_kind) list \<times> 'd) run option" where
  "probe_ports io c d = (case rd io (ah_abar c + 0x0C) d of (ports_impl, d) \<Rightarrow>
     wait_fold (probe_port io c ports_impl) [0..<32] ([], d))"

record 'd disks =
  dk_device :: 'd
  dk_controller :: "ahci_controller option"
  dk_ports :: "(nat \<times> port_kind) list"

definition init_from_pci :: "'d mmio \<Rightarrow> (u64 \<Rightarrow> u64 \<Rightarrow> u64 run) \<Rightarrow> u64 \<Rightarrow> u64 \<Rightarrow> 'd disks \<Rightarrow> (bool \<times> 'd disks) run option" where
  "init_from_pci io va_add bar5_addr phys_mem_offset s =
     (if bar5_addr = 0 then Some (Done (False, s))
      else wait_bind (Some (run_bind (va_add phys_mem_offset bar5_addr) (\<lambda>abar. ahci_init io va_add abar (dk_device s)))) (\<lambda>(c, d).
        case c of
          None \<Rightarrow> Some (Done (False, s\<lparr>dk_device := d\<rparr>))
        | Some c \<Rightarrow> wait_bind (probe_ports io c d) (\<lambda>(report, d).
            Some (Done (True, s\<lparr>dk_device := d, dk_controller := Some c, dk_ports := dk_ports s @ report\<rparr>)))))"

text \<open>\<open>read_blocks\<close> is a stub in the source: it reports failure and leaves the buffer alone.\<close>

definition ahci_read_blocks :: "nat \<Rightarrow> u64 \<Rightarrow> nat \<Rightarrow> u8 list \<Rightarrow> bool \<times> u8 list" where
  "ahci_read_blocks device lba n buffer = (False, buffer)"


section \<open>The PCI bus\<close>

definition pci_address :: "u8 \<Rightarrow> u8 \<Rightarrow> u8 \<Rightarrow> u8 \<Rightarrow> u32" where
  "pci_address bus slot func offset =
     push_bit 16 (ucast bus) OR push_bit 11 (ucast slot) OR push_bit 8 (ucast func) OR (ucast offset AND 0xFC) OR 0x80000000"

definition pci_config_read_word :: "(u32 \<Rightarrow> u32) \<Rightarrow> u8 \<Rightarrow> u8 \<Rightarrow> u8 \<Rightarrow> u8 \<Rightarrow> u16" where
  "pci_config_read_word cfg bus slot func offset =
     ucast (drop_bit (unat ((offset AND 2) * 8)) (cfg (pci_address bus slot func offset)) AND 0xFFFF)"

definition get_vendor_id :: "(u32 \<Rightarrow> u32) \<Rightarrow> u8 \<Rightarrow> u8 \<Rightarrow> u8 \<Rightarrow> u16" where
  "get_vendor_id cfg bus slot func = pci_config_read_word cfg bus slot func 0"

definition get_device_id :: "(u32 \<Rightarrow> u32) \<Rightarrow> u8 \<Rightarrow> u8 \<Rightarrow> u8 \<Rightarrow> u16" where
  "get_device_id cfg bus slot func = pci_config_read_word cfg bus slot func 2"

definition get_class_code :: "(u32 \<Rightarrow> u32) \<Rightarrow> u8 \<Rightarrow> u8 \<Rightarrow> u8 \<Rightarrow> u8" where
  "get_class_code cfg bus slot func = ucast (drop_bit 8 (pci_config_read_word cfg bus slot func 0x0A))"

definition get_subclass :: "(u32 \<Rightarrow> u32) \<Rightarrow> u8 \<Rightarrow> u8 \<Rightarrow> u8 \<Rightarrow> u8" where
  "get_subclass cfg bus slot func = ucast (pci_config_read_word cfg bus slot func 0x0A AND 0xFF)"

definition get_bar5 :: "(u32 \<Rightarrow> u32) \<Rightarrow> u8 \<Rightarrow> u8 \<Rightarrow> u8 \<Rightarrow> u64" where
  "get_bar5 cfg bus slot func =
     (let bar5_low = ucast (pci_config_read_word cfg bus slot func 0x24);
          bar5_high = ucast (pci_config_read_word cfg bus slot func 0x26) in
      (push_bit 16 bar5_high OR bar5_low) AND 0xFFFFFFF0)"

record pci_function =
  pci_bus :: u8
  pci_slot :: u8
  pci_vendor :: u16
  pci_device :: u16
  pci_class :: u8
  pci_subclass :: u8

definition scan_slot ::
  "(u32 \<Rightarrow> u32) \<Rightarrow> 'd mmio \<Rightarrow> (u64 \<Rightarrow> u64 \<Rightarrow> u64 run) \<Rightarrow> u64 \<Rightarrow> u8 \<times> u8 \<Rightarrow> pci_function list \<times> 'd disks
    \<Rightarrow> (pci_function list \<times> 'd disks) run option" where
  "scan_slot cfg io va_add phys_mem_offset bs st =
     (case bs of (bus, slot) \<Rightarrow>
      let vendor = get_vendor_id cfg bus slot 0 in
      if vendor \<noteq> 0xFFFF then
        let f = \<lparr>pci_bus = bus, pci_slot = slot, pci_vendor = vendor, pci_device = get_device_id cfg bus slot 0,
                 pci_class = get_class_code cfg bus slot 0, pci_subclass = get_subclass cfg bus slot 0\<rparr>;
            found = fst st @ [f] in
        if pci_class f = 0x01 \<and> pci_subclass f = 0x06 then
          wait_bind (init_from_pci io va_add (get_bar5 cfg bus slot 0) phys_mem_offset (snd st)) (\<lambda>(_, s). Some (Done (found, s)))
        else Some (Done (found, snd st))
      else Some (Done st))"

definition pci_slots :: "(u8 \<times> u8) list" where
  "pci_slots = concat (map (\<lambda>bus. map (\<lambda>slot. (of_nat bus, of_nat slot)) [0..<32]) [0..<256])"

definition enumerate_pci ::
  "(u32 \<Rightarrow> u32) \<Rightarrow> 'd mmio \<Rightarrow> (u64 \<Rightarrow> u64 \<Rightarrow> u64 run) \<Rightarrow> u64 \<Rightarrow> 'd disks \<Rightarrow> (pci_function list \<times> 'd disks) run option" where
  "enumerate_pci cfg io va_add phys_mem_offset s = wait_fold (scan_slot cfg io va_add phys_mem_offset) pci_slots ([], s)"

definition pci_init ::
  "(u32 \<Rightarrow> u32) \<Rightarrow> 'd mmio \<Rightarrow> (u64 \<Rightarrow> u64 \<Rightarrow> u64 run) \<Rightarrow> u64 \<Rightarrow> 'd disks \<Rightarrow> (pci_function list \<times> 'd disks) run option" where
  "pci_init cfg io va_add phys_mem_offset s = enumerate_pci cfg io va_add phys_mem_offset s"


section \<open>Reading the configuration space\<close>

lemma pci_address_word:
  "pci_address b s f 2 = pci_address b s f 0" "pci_address b s f 0x0A = pci_address b s f 8" "pci_address b s f 0x26 = pci_address b s f 0x24"
  by (simp_all add: pci_address_def)

lemma low_word: "(ucast (x AND 0xFFFF) :: u16) = ucast (x :: u32)"
proof -
  have m: "(0xFFFF :: u32) = mask 16" by (simp add: mask_eq_exp_minus_1)
  show ?thesis unfolding m by (rule bit_word_eqI) (simp add: bit_simps)
qed

lemma pci_words:
  "get_vendor_id cfg b s f = ucast (cfg (pci_address b s f 0))"
  "get_device_id cfg b s f = ucast (drop_bit 16 (cfg (pci_address b s f 0)))"
  by (simp_all add: get_vendor_id_def get_device_id_def pci_config_read_word_def pci_address_word low_word)

lemma pci_classes:
  "get_class_code cfg b s f = ucast (drop_bit 24 (cfg (pci_address b s f 8)))"
  "get_subclass cfg b s f = ucast (drop_bit 16 (cfg (pci_address b s f 8)))"
proof -
  let ?x = "cfg (pci_address b s f 8)"
  have w: "pci_config_read_word cfg b s f 0x0A = ucast (drop_bit 16 ?x)"
    by (simp add: pci_config_read_word_def pci_address_word low_word)
  show "get_class_code cfg b s f = ucast (drop_bit 24 ?x)"
    unfolding get_class_code_def w by (rule bit_word_eqI) (simp add: bit_simps)
  have m: "(0xFF :: u16) = mask 8" by (simp add: mask_eq_exp_minus_1)
  show "get_subclass cfg b s f = ucast (drop_bit 16 ?x)"
    unfolding get_subclass_def w m by (rule bit_word_eqI) (simp add: bit_simps)
qed

lemma pci_bar5: "get_bar5 cfg b s f = ucast (cfg (pci_address b s f 0x24)) AND 0xFFFFFFF0"
proof -
  let ?x = "cfg (pci_address b s f 0x24)"
  have w: "pci_config_read_word cfg b s f 0x24 = ucast ?x" "pci_config_read_word cfg b s f 0x26 = ucast (drop_bit 16 ?x)"
    by (simp_all add: pci_config_read_word_def pci_address_word low_word)
  have "push_bit 16 (ucast (ucast (drop_bit 16 ?x) :: u16)) OR ucast (ucast ?x :: u16) = (ucast ?x :: u64)"
    by (rule bit_word_eqI) (auto simp: bit_simps dest: bit_imp_le_length)
  then show ?thesis by (simp add: get_bar5_def w)
qed


section \<open>Waiting\<close>

fun reads :: "'d mmio \<Rightarrow> u64 \<Rightarrow> nat \<Rightarrow> 'd \<Rightarrow> 'd" where
  "reads io a 0 d = d"
| "reads io a (Suc n) d = reads io a n (snd (rd io a d))"

text \<open>Once the bit of a command is cleared, the device shows it clear after some number of reads.\<close>

definition stops :: "'d mmio \<Rightarrow> bool" where
  "stops io \<longleftrightarrow> (\<forall>a bits d. \<exists>n. fst (rd io a (reads io a n (modify io a (\<lambda>v. v AND NOT bits) d))) AND bits = 0)"

lemma wait_clear_returns: "fst (rd io a (reads io a n d)) AND bits = 0 \<Longrightarrow> \<exists>d'. wait_clear io a bits d = Some d'"
proof (induction n arbitrary: d)
  case 0
  then show ?case by (subst wait_clear.simps) (auto split: prod.splits)
next
  case (Suc n)
  then obtain d' where "wait_clear io a bits (snd (rd io a d)) = Some d'" by auto
  then show ?case by (subst wait_clear.simps) (auto split: prod.splits)
qed

lemma wait_cleared: "stops io \<Longrightarrow> \<exists>d'. wait_clear io a bits (modify io a (\<lambda>v. v AND NOT bits) d) = Some d'"
  unfolding stops_def by (elim allE[of _ a] allE[of _ bits] allE[of _ d] exE) (rule wait_clear_returns)

lemma init_port_returns:
  assumes "stops io"
  shows "\<exists>d'. init_port io c n d = Some d'"
proof -
  let ?cmd = "port_reg (ah_ports c) n 0x18"
  obtain d1 where 1: "wait_clear io ?cmd 1 (modify io ?cmd (\<lambda>v. v AND NOT 1) d) = Some d1" using wait_cleared[OF assms] by blast
  obtain d2 where 2: "wait_clear io ?cmd 16 (modify io ?cmd (\<lambda>v. v AND NOT 16) d1) = Some d2" using wait_cleared[OF assms] by blast
  show ?thesis unfolding init_port_def Let_def using 1 2 by simp
qed

lemma wait_fold_returns:
  assumes "\<And>x s. x \<in> set xs \<Longrightarrow> \<exists>s'. f x s = Some (Done s')"
  shows "\<exists>s'. wait_fold f xs s = Some (Done s')"
  using assms by (induction xs arbitrary: s) (simp, metis list.set_intros wait_bind_simps(3) wait_fold.simps(2))

lemma probe_ports_returns:
  assumes "stops io"
  shows "\<exists>r. probe_ports io c d = Some (Done r)"
proof -
  have "\<exists>s'. probe_port io c p n s = Some (Done s')" for p n s
  proof -
    obtain sig d1 where r: "rd io (port_reg (ah_ports c) n 0x24) (snd s) = (sig, d1)" by (cases "rd io (port_reg (ah_ports c) n 0x24) (snd s)")
    obtain d2 where "init_port io c n d1 = Some d2" using init_port_returns[OF assms] by blast
    with r show ?thesis by (simp add: probe_port_def Let_def)
  qed
  then have "\<exists>s'. wait_fold (probe_port io c p) [0..<32] s = Some (Done s')" for p s by (intro wait_fold_returns) blast
  then show ?thesis by (simp add: probe_ports_def split: prod.splits del: upt_rec_numeral)
qed


section \<open>The scan\<close>

text \<open>A function as the double words of its configuration space describe it.\<close>

definition function_at :: "(u32 \<Rightarrow> u32) \<Rightarrow> u8 \<Rightarrow> u8 \<Rightarrow> pci_function" where
  "function_at cfg b s = (let id = cfg (pci_address b s 0 0); cl = cfg (pci_address b s 0 8) in
     \<lparr>pci_bus = b, pci_slot = s, pci_vendor = ucast id, pci_device = ucast (drop_bit 16 id),
      pci_class = ucast (drop_bit 24 cl), pci_subclass = ucast (drop_bit 16 cl)\<rparr>)"

definition is_ahci :: "(u32 \<Rightarrow> u32) \<Rightarrow> pci_function \<Rightarrow> bool" where
  "is_ahci cfg f \<longleftrightarrow> pci_class f = 1 \<and> pci_subclass f = 6 \<and> cfg (pci_address (pci_bus f) (pci_slot f) 0 0x24) AND 0xFFFFFFF0 \<noteq> 0"

definition functions_of :: "(u32 \<Rightarrow> u32) \<Rightarrow> (u8 \<times> u8) list \<Rightarrow> pci_function list" where
  "functions_of cfg bs = filter (\<lambda>f. pci_vendor f \<noteq> 0xFFFF) (map (\<lambda>(b, s). function_at cfg b s) bs)"

text \<open>Addresses of the window up to four gigabytes can be formed.\<close>

definition window_adds :: "(u64 \<Rightarrow> u64 \<Rightarrow> u64 run) \<Rightarrow> u64 \<Rightarrow> bool" where
  "window_adds va_add off \<longleftrightarrow> (\<forall>a. unat a < 0x100000000 \<longrightarrow>
     va_add off a = Done (off + a) \<and> va_add (off + a) 0x100 = Done (off + a + 0x100))"

lemma bar5_below: "unat (ucast (x :: u32) AND 0xFFFFFFF0 :: u64) < 0x100000000"
proof -
  have "unat (ucast x AND 0xFFFFFFF0 :: u64) \<le> unat (0xFFFFFFF0 :: u64)"
    using word_and_le1[of "ucast x" "0xFFFFFFF0 :: u64"] by (simp add: word_le_nat_alt)
  then show ?thesis by simp
qed

lemma bar5_zero: "(ucast (x :: u32) AND 0xFFFFFFF0 :: u64) = 0 \<longleftrightarrow> x AND 0xFFFFFFF0 = 0"
proof -
  have "(ucast x AND 0xFFFFFFF0 :: u64) = ucast (x AND 0xFFFFFFF0)" by (simp add: unsigned_and_eq)
  moreover have "(ucast y :: u64) = 0 \<longleftrightarrow> y = 0" for y :: u32
    using bit_imp_le_length[of y] by (fastforce simp: bit_eq_iff bit_simps)
  ultimately show ?thesis by simp
qed


lemma init_from_pci_returns:
  assumes "stops io" "window_adds va_add off"
  shows "\<exists>ok s'. init_from_pci io va_add (ucast (x :: u32) AND 0xFFFFFFF0) off s = Some (Done (ok, s'))
    \<and> (dk_controller s' \<noteq> None \<longleftrightarrow> dk_controller s \<noteq> None \<or> x AND 0xFFFFFFF0 \<noteq> 0)"
proof (cases "x AND 0xFFFFFFF0 = 0")
  case True
  then show ?thesis by (intro exI[of _ False] exI[of _ s]) (simp add: init_from_pci_def bar5_zero)
next
  case False
  let ?a = "ucast x AND 0xFFFFFFF0 :: u64"
  have nz: "?a \<noteq> 0" using False by (simp only: bar5_zero) simp
  have v: "va_add off ?a = Done (off + ?a)" "va_add (off + ?a) 0x100 = Done (off + ?a + 0x100)"
    using assms(2) bar5_below[of x] by (simp_all only: window_adds_def)
  obtain c d where i: "ahci_init io va_add (off + ?a) (dk_device s) = Done (Some c, d)"
    using v(2) by (fastforce simp: ahci_init_def Let_def case_prod_beta)
  obtain r where "probe_ports io c d = Some (Done r)" using probe_ports_returns[OF assms(1)] by blast
  with False show ?thesis by (simp only: init_from_pci_def nz if_False v(1) run_bind_simps i wait_bind_simps prod.case option.case) (cases r; auto)
qed

lemma scan_slot_spec:
  assumes "stops io" "window_adds va_add off"
  shows "\<exists>s'. scan_slot cfg io va_add off (b, sl) (found, s) = Some (Done (found @ functions_of cfg [(b, sl)], s'))
    \<and> (dk_controller s' \<noteq> None \<longleftrightarrow> dk_controller s \<noteq> None \<or> (\<exists>f\<in>set (functions_of cfg [(b, sl)]). is_ahci cfg f))"
proof -
  let ?x = "cfg (pci_address b sl 0 0x24)"
  obtain ok s' where i: "init_from_pci io va_add (ucast ?x AND 0xFFFFFFF0) off s = Some (Done (ok, s'))"
    "dk_controller s' \<noteq> None \<longleftrightarrow> dk_controller s \<noteq> None \<or> ?x AND 0xFFFFFFF0 \<noteq> 0"
    using init_from_pci_returns[OF assms] by blast
  show ?thesis
  proof (cases "pci_vendor (function_at cfg b sl) = 0xFFFF")
    case True
    then show ?thesis by (simp add: scan_slot_def functions_of_def function_at_def Let_def pci_words)
  next
    case False
    then have f: "functions_of cfg [(b, sl)] = [function_at cfg b sl]" by (simp add: functions_of_def)
    show ?thesis
    proof (cases "pci_class (function_at cfg b sl) = 1 \<and> pci_subclass (function_at cfg b sl) = 6")
      case True
      then have "scan_slot cfg io va_add off (b, sl) (found, s) = Some (Done (found @ [function_at cfg b sl], s'))"
        using False i(1) by (simp add: scan_slot_def function_at_def Let_def pci_words pci_classes pci_bar5)
      moreover have "is_ahci cfg (function_at cfg b sl) \<longleftrightarrow> ?x AND 0xFFFFFFF0 \<noteq> 0"
        using True by (simp add: is_ahci_def) (simp add: function_at_def Let_def)
      ultimately show ?thesis using i(2) f by simp
    next
      case 2: False
      then have "scan_slot cfg io va_add off (b, sl) (found, s) = Some (Done (found @ [function_at cfg b sl], s))"
        using False by (auto simp: scan_slot_def function_at_def Let_def pci_words pci_classes)
      moreover have "\<not> is_ahci cfg (function_at cfg b sl)" using 2 by (auto simp: is_ahci_def)
      ultimately show ?thesis using f by simp
    qed
  qed
qed

lemma scan_spec:
  assumes "stops io" "window_adds va_add off"
  shows "\<exists>s'. wait_fold (scan_slot cfg io va_add off) bs (found, s) = Some (Done (found @ functions_of cfg bs, s'))
    \<and> (dk_controller s' \<noteq> None \<longleftrightarrow> dk_controller s \<noteq> None \<or> (\<exists>f\<in>set (functions_of cfg bs). is_ahci cfg f))"
proof (induction bs arbitrary: found s)
  case Nil
  show ?case by (simp add: functions_of_def)
next
  case (Cons x bs)
  obtain b sl where x: "x = (b, sl)" by (cases x)
  have f: "functions_of cfg ((b, sl) # bs) = functions_of cfg [(b, sl)] @ functions_of cfg bs" by (simp add: functions_of_def)
  obtain s1 where 1: "scan_slot cfg io va_add off (b, sl) (found, s) = Some (Done (found @ functions_of cfg [(b, sl)], s1))"
    "dk_controller s1 \<noteq> None \<longleftrightarrow> dk_controller s \<noteq> None \<or> (\<exists>f\<in>set (functions_of cfg [(b, sl)]). is_ahci cfg f)"
    using scan_slot_spec[OF assms] by blast
  from Cons.IH[of "found @ functions_of cfg [(b, sl)]" s1] obtain s2 where
    2: "wait_fold (scan_slot cfg io va_add off) bs (found @ functions_of cfg [(b, sl)], s1) = Some (Done (found @ functions_of cfg ((b, sl) # bs), s2))"
    "dk_controller s2 \<noteq> None \<longleftrightarrow> dk_controller s1 \<noteq> None \<or> (\<exists>f\<in>set (functions_of cfg bs). is_ahci cfg f)"
    unfolding f by auto
  have "wait_fold (scan_slot cfg io va_add off) ((b, sl) # bs) (found, s) = Some (Done (found @ functions_of cfg ((b, sl) # bs), s2))"
    by (simp only: wait_fold.simps 1(1) wait_bind_simps 2(1))
  moreover have "dk_controller s2 \<noteq> None \<longleftrightarrow> dk_controller s \<noteq> None \<or> (\<exists>f\<in>set (functions_of cfg ((b, sl) # bs)). is_ahci cfg f)"
    unfolding f 2(2) 1(2) by auto
  ultimately show ?case unfolding x by blast
qed

lemma pci_slots_product: "pci_slots = map (\<lambda>(b, s). (of_nat b, of_nat s)) (List.product [0..<256] [0..<32])"
  unfolding pci_slots_def by (simp add: product_concat_map map_concat comp_def del: upt_rec_numeral)

lemma distinct_pci_slots: "distinct pci_slots"
proof -
  have "inj_on (of_nat :: nat \<Rightarrow> u8) {0..<256}" using inj_on_word_of_nat[where 'a = 8] by (auto simp: lessThan_atLeast0 inj_on_def)
  then have i: "b = b'" if "b < 256" "b' < 256" "(of_nat b :: u8) = of_nat b'" for b b' using that by (auto dest: inj_onD)
  have "inj_on (\<lambda>(b, s). (of_nat b :: u8, of_nat s :: u8)) ({0..<256} \<times> {0..<32})"
  proof (rule inj_onI, clarsimp)
    fix b s b' s' :: nat
    assume a: "b < 256" "s < 32" "b' < 256" "s' < 32" "(of_nat b :: u8) = of_nat b'" "(of_nat s :: u8) = of_nat s'"
    show "b = b' \<and> s = s'" using i[OF a(1,3,5)] i[OF _ _ a(6)] a(2,4) by simp
  qed
  then show ?thesis unfolding pci_slots_product by (simp only: distinct_map distinct_product distinct_upt set_product set_upt)
qed

lemma set_pci_slots: "(b, sl) \<in> set pci_slots \<longleftrightarrow> sl < 32"
proof
  assume "(b, sl) \<in> set pci_slots"
  then obtain n where "n < 32" "sl = of_nat n" unfolding pci_slots_product by (auto simp del: upt_rec_numeral)
  then show "sl < 32" by (simp add: word_less_nat_alt unat_of_nat)
next
  assume "sl < 32"
  then have "unat sl < 32" by (simp add: word_less_nat_alt)
  moreover have "unat b < 256" using unsigned_less[of b] by simp
  ultimately have "(unat b, unat sl) \<in> set (List.product [0..<256] [0..<32])" by (simp del: upt_rec_numeral)
  from imageI[OF this, of "\<lambda>(b, s). (of_nat b :: u8, of_nat s :: u8)"]
  show "(b, sl) \<in> set pci_slots" unfolding pci_slots_product by (simp del: upt_rec_numeral)
qed

lemma functions_distinct: "distinct bs \<Longrightarrow> distinct (map (\<lambda>f. (pci_bus f, pci_slot f)) (functions_of cfg bs))"
proof (induction bs)
  case (Cons x bs)
  have "(pci_bus f, pci_slot f) \<in> set bs" if "f \<in> set (functions_of cfg bs)" for f
    using that by (auto simp: functions_of_def function_at_def Let_def)
  with Cons show ?case by (cases x) (auto simp: functions_of_def function_at_def Let_def)
qed (simp add: functions_of_def)


definition quiet_io :: "(u64 \<Rightarrow> u32) mmio" where
  "quiet_io = \<lparr>rd = (\<lambda>a d. (d a, d)), wr = (\<lambda>a v d. d(a := v))\<rparr>"

definition one_disk :: "u32 \<Rightarrow> u32" where
  "one_disk a = (if a = pci_address 0 3 0 0 then 0x29228086 else if a = pci_address 0 3 0 8 then 0x01060102
     else if a = pci_address 0 3 0 0x24 then 0xFEBF1000 else 0xFFFFFFFF)"


text \<open>The registers of a port other than the first are not where the array of structures puts them: the
  controller places them 128 bytes apart, the structures are 60 bytes long.\<close>

theorem port_registers_misplaced:
  assumes "0 < n" "n < 32"
  shows "port_reg base n off \<noteq> base + of_nat (n * 0x80) + off"
proof -
  have "n * 60 \<noteq> n * 0x80" "n * 60 < 2 ^ LENGTH(64)" "n * 0x80 < 2 ^ LENGTH(64)" using assms by simp_all
  then have "(of_nat (n * 60) :: u64) \<noteq> of_nat (n * 0x80)" by (metis of_nat_inverse)
  then show ?thesis by (simp only: port_reg_def add_left_cancel add_right_cancel not_False_eq_True)
qed

end
