(* ===== verification/Platform.thy ===== *)
theory Platform
  imports Arch Devices
begin

text \<open>
  Processors: what the firmware's tables say of them (\<^verbatim>\<open>kernel/src/acpi.rs\<close>) and how the others are started
  (\<^verbatim>\<open>kernel/src/smp.rs\<close>).  The parser of the tables is the \<^verbatim>\<open>acpi\<close> crate: the arguments \<open>from_rsdp\<close> and
  \<open>platform_new\<close>.  The time-stamp counter and the counter that the other processors increment are given by their values at each read.
\<close>


section \<open>Firmware tables\<close>

datatype interrupt_model = Apic_model u64 | Other_model

record processor_info =
  boot_processor :: u32
  application_processors :: "u32 list"

record platform_info =
  interrupt_model_of :: interrupt_model
  processor_info_of :: "processor_info option"

record acpi_state =
  lapic_address :: "u64 option"
  boot_apic_id :: "u32 option"
  ap_apic_ids :: "u32 list"

definition acpi_new :: acpi_state where
  "acpi_new = \<lparr>lapic_address = None, boot_apic_id = None, ap_apic_ids = []\<rparr>"

definition map_physical_region :: "(u64 \<Rightarrow> u64 \<Rightarrow> u64 run) \<Rightarrow> u64 \<Rightarrow> u64 \<Rightarrow> nat \<Rightarrow> (u64 \<times> u64 \<times> nat \<times> nat) run" where
  "map_physical_region va_add phys_mem_offset physical_address n =
     run_bind (va_add phys_mem_offset physical_address) (\<lambda>virtual_address.
     if virtual_address = 0 then Panic else Done (physical_address, virtual_address, n, n))"

definition acpi_processors :: "platform_info \<Rightarrow> acpi_state \<Rightarrow> acpi_state" where
  "acpi_processors p s =
     (let s = (case interrupt_model_of p of Apic_model a \<Rightarrow> s\<lparr>lapic_address := Some a\<rparr> | Other_model \<Rightarrow> s) in
      case processor_info_of p of
        Some i \<Rightarrow> s\<lparr>boot_apic_id := Some (boot_processor i), ap_apic_ids := ap_apic_ids s @ application_processors i\<rparr>
      | None \<Rightarrow> s)"

definition acpi_init :: "(u64 \<Rightarrow> 'e + 't) \<Rightarrow> ('t \<Rightarrow> 'e + platform_info) \<Rightarrow> u64 \<Rightarrow> acpi_state \<Rightarrow> acpi_state" where
  "acpi_init from_rsdp platform_new rsdp_addr s =
     (if rsdp_addr = 0 then s
      else case from_rsdp rsdp_addr of
        Inl _ \<Rightarrow> s
      | Inr tables \<Rightarrow> (case platform_new tables of Inl _ \<Rightarrow> s | Inr platform_info \<Rightarrow> acpi_processors platform_info s))"


section \<open>Processors\<close>

definition MAX_CPUS :: nat where "MAX_CPUS = 256"
definition TRAMPOLINE_ADDR :: u64 where "TRAMPOLINE_ADDR = 0x8000"

record per_cpu_data =
  pc_cpu_id :: u32
  pc_kernel_stack_top :: u64
  pc_current_task_id :: u64
  pc_uptime_ticks :: u64
  pc_is_bsp :: bool

definition per_cpu_data_new :: per_cpu_data where
  "per_cpu_data_new = \<lparr>pc_cpu_id = 0, pc_kernel_stack_top = 0, pc_current_task_id = 0, pc_uptime_ticks = 0, pc_is_bsp = True\<rparr>"

record smp =
  per_cpu_area :: "per_cpu_data list"
  cpu_count :: u32
  bsp_cpu_id :: u32
  ap_ready :: u32

definition smp_new :: smp where
  "smp_new = \<lparr>per_cpu_area = replicate MAX_CPUS per_cpu_data_new, cpu_count = 1, bsp_cpu_id = 0, ap_ready = 0\<rparr>"

definition get_current_cpu_id :: "'d mmio \<Rightarrow> acpi_state \<Rightarrow> 'd \<Rightarrow> (u32 \<times> 'd) run" where
  "get_current_cpu_id io acpi d = (case lapic_address acpi of
       Some lapic_base \<Rightarrow> run_bind (add_or_panic lapic_base 0x20) (\<lambda>a. case rd io a d of (v, d) \<Rightarrow> Done (drop_bit 24 v, d))
     | None \<Rightarrow> Done (0, d))"

definition set_current_cpu_data :: "per_cpu_data \<Rightarrow> smp \<Rightarrow> smp" where
  "set_current_cpu_data data s = (let idx = unat (pc_cpu_id data) in
     if idx < MAX_CPUS then s\<lparr>per_cpu_area := (per_cpu_area s)[idx := data]\<rparr> else s)"

definition get_cpu_data :: "u32 \<Rightarrow> smp \<Rightarrow> per_cpu_data" where
  "get_cpu_data cpu_id s = (let idx = unat cpu_id in
     if idx < MAX_CPUS then per_cpu_area s ! idx else per_cpu_area s ! 0)"

definition get_current_cpu_data :: "'d mmio \<Rightarrow> acpi_state \<Rightarrow> 'd \<Rightarrow> smp \<Rightarrow> (per_cpu_data \<times> 'd) run" where
  "get_current_cpu_data io acpi d s = run_bind (get_current_cpu_id io acpi d) (\<lambda>(cpu_id, d). Done (get_cpu_data cpu_id s, d))"

definition increment_cpu_count :: "smp \<Rightarrow> smp" where
  "increment_cpu_count s = s\<lparr>cpu_count := cpu_count s + 1\<rparr>"

definition set_bsp_cpu_id :: "u32 \<Rightarrow> smp \<Rightarrow> smp" where
  "set_bsp_cpu_id n s = s\<lparr>bsp_cpu_id := n\<rparr>"

definition signal_ap_ready :: "smp \<Rightarrow> smp" where
  "signal_ap_ready s = s\<lparr>ap_ready := ap_ready s + 1\<rparr>"

partial_function (option) wait_loop :: "(nat \<Rightarrow> u64) \<Rightarrow> (nat \<Rightarrow> u32) \<Rightarrow> u32 \<Rightarrow> u64 \<Rightarrow> nat \<Rightarrow> u32 run option" where
  "wait_loop tsc ready cpus timeout_us i =
     (case sub_or_panic cpus 1 of
        Panic \<Rightarrow> Some Panic
      | Done others \<Rightarrow>
          if others \<le> ready i then Some (Done (ready i))
          else case run_bind (sub_or_panic (tsc (Suc i)) (tsc 0)) (\<lambda>elapsed.
                    run_bind (mul_or_panic timeout_us 1000) (\<lambda>limit. Done (limit < elapsed))) of
            Panic \<Rightarrow> Some Panic
          | Done timed_out \<Rightarrow>
              if timed_out then Some (Done (ready i)) else wait_loop tsc ready cpus timeout_us (Suc i))"

definition wait_for_aps :: "(nat \<Rightarrow> u64) \<Rightarrow> (nat \<Rightarrow> u32) \<Rightarrow> u64 \<Rightarrow> smp \<Rightarrow> u32 run option" where
  "wait_for_aps tsc ready timeout_us s = wait_loop tsc ready (cpu_count s) timeout_us 0"

definition send_ipi :: "'d mmio \<Rightarrow> u64 \<Rightarrow> u64 \<Rightarrow> u32 \<Rightarrow> u32 \<Rightarrow> 'd \<Rightarrow> 'd option" where
  "send_ipi io icr_low icr_high apic_id command d =
     (let d = wr io icr_high (push_bit 24 apic_id) d; d = wr io icr_low command d in
      wait_clear io icr_low 0x1000 d)"

definition send_init_sipi_sipi :: "'d mmio \<Rightarrow> acpi_state \<Rightarrow> u32 \<Rightarrow> 'd \<Rightarrow> (bool \<times> 'd) run option" where
  "send_init_sipi_sipi io acpi apic_id d = (case lapic_address acpi of
       None \<Rightarrow> Some (Done (False, d))
     | Some lapic_base \<Rightarrow>
         wait_bind (Some (run_bind (add_or_panic lapic_base 0x300) (\<lambda>l. run_bind (add_or_panic lapic_base 0x310) (\<lambda>h. Done (l, h)))))
           (\<lambda>(icr_low, icr_high).
         case send_ipi io icr_low icr_high apic_id 0x0000C500 d of None \<Rightarrow> None | Some d \<Rightarrow>
         let trampoline_vec = ucast (drop_bit 12 TRAMPOLINE_ADDR) in
         case send_ipi io icr_low icr_high apic_id (0x0000C600 OR (trampoline_vec AND 0xFF)) d of None \<Rightarrow> None | Some d \<Rightarrow>
         case send_ipi io icr_low icr_high apic_id (0x0000C600 OR (trampoline_vec AND 0xFF)) d of None \<Rightarrow> None | Some d \<Rightarrow>
         Some (Done (True, d))))"

definition start_aps ::
  "'d mmio \<Rightarrow> acpi_state \<Rightarrow> (nat \<Rightarrow> u64) \<Rightarrow> (nat \<Rightarrow> u32) \<Rightarrow> u32 list \<Rightarrow> smp \<Rightarrow> 'd \<Rightarrow> (u32 \<times> 'd) run option" where
  "start_aps io acpi tsc ready ap_ids s d =
     wait_bind (wait_fold (\<lambda>apic_id d. wait_bind (send_init_sipi_sipi io acpi apic_id d) (\<lambda>(_, d). Some (Done d))) ap_ids d) (\<lambda>d.
     wait_bind (wait_for_aps tsc ready 1000000 s) (\<lambda>n. Some (Done (n, d))))"

definition smp_init ::
  "'d mmio \<Rightarrow> acpi_state \<Rightarrow> (nat \<Rightarrow> u64) \<Rightarrow> (nat \<Rightarrow> u32) \<Rightarrow> smp \<Rightarrow> 'd \<Rightarrow> (smp \<times> 'd) run option" where
  "smp_init io acpi tsc ready s d =
     (let s = set_bsp_cpu_id (case boot_apic_id acpi of Some bsp_id \<Rightarrow> bsp_id | None \<Rightarrow> 0) s;
          ap_ids = ap_apic_ids acpi in
      if ap_ids \<noteq> [] then wait_bind (start_aps io acpi tsc ready ap_ids s d) (\<lambda>(_, d). Some (Done (s, d)))
      else Some (Done (s, d)))"

text \<open>The entry of another processor, up to its idle loop.\<close>

definition ap_entry ::
  "(u64 \<Rightarrow> u64 run) \<Rightarrow> ((u64 \<times> u32) list \<Rightarrow> u64 \<Rightarrow> u32) \<Rightarrow> 'g \<times> selectors \<Rightarrow> u64 \<Rightarrow> u32 \<Rightarrow> smp \<times> 'g arch \<Rightarrow> (smp \<times> 'g arch) run" where
  "ap_entry va_new dev gdt per_cpu apic_id st =
     (let s = set_current_cpu_data (per_cpu_data_new\<lparr>pc_cpu_id := apic_id, pc_is_bsp := False\<rparr>) (fst st);
          a = gdt_init_for_cpu gdt per_cpu (snd st) in
      run_bind (apic_init_for_cpu va_new dev a) (\<lambda>a. Done (signal_ap_ready s, a)))"


section \<open>Starting the other processors\<close>

text \<open>No step of the start-up counts a processor, so the wait for the others returns at once with however many
  have reported by then.\<close>

lemma wait_for_aps_at_once: "cpu_count s = 1 \<Longrightarrow> wait_for_aps tsc ready timeout_us s = Some (Done (ready 0))"
  unfolding wait_for_aps_def by (subst wait_loop.simps) (simp add: sub_or_panic_def)

theorem smp_init_ignores_processors:
  assumes "smp_init io acpi tsc ready smp_new d = Some (Done (s, d'))"
  shows "cpu_count s = 1 \<and> wait_for_aps tsc ready timeout_us s = Some (Done (ready 0))"
proof -
  have "cpu_count s = 1"
    using assms by (auto simp: smp_init_def Let_def wait_bind_Done smp_new_def set_bsp_cpu_id_def split: if_splits prod.splits)
  with wait_for_aps_at_once show ?thesis by blast
qed

text \<open>With several processors counted, waiting ends as soon as all have reported or the time is over.\<close>

lemma wait_loop_returns:
  assumes "1 \<le> cpus" "\<forall>i. tsc 0 \<le> tsc i" "unat timeout_us * 1000 < 2 ^ 64" "timeout_us * 1000 < tsc (Suc (i + n)) - tsc 0"
  shows "\<exists>j\<ge>i. j \<le> i + n \<and> wait_loop tsc ready cpus timeout_us i = Some (Done (ready j))"
  using assms(4)
proof (induction n arbitrary: i)
  case 0
  then have "wait_loop tsc ready cpus timeout_us i = Some (Done (ready i))"
    using assms(1-3) by (subst wait_loop.simps) (simp add: sub_or_panic_def mul_or_panic_def)
  then show ?case by auto
next
  case (Suc n)
  have "tsc 0 \<le> tsc (Suc i)" using assms(2) by blast
  then have "wait_loop tsc ready cpus timeout_us i = (if cpus - 1 \<le> ready i \<or> timeout_us * 1000 < tsc (Suc i) - tsc 0
      then Some (Done (ready i)) else wait_loop tsc ready cpus timeout_us (Suc i))"
    using assms(1,3) by (subst wait_loop.simps) (simp add: sub_or_panic_def mul_or_panic_def)
  moreover have "\<exists>j\<ge>Suc i. j \<le> Suc i + n \<and> wait_loop tsc ready cpus timeout_us (Suc i) = Some (Done (ready j))"
    using Suc.IH[of "Suc i"] Suc.prems by simp
  ultimately show ?case by (smt (verit) Suc_leD add_Suc_shift le_add1 le_refl)
qed

text \<open>Data stored for a processor of the area is found again, and other processors keep theirs.\<close>

lemma cpu_data_roundtrip:
  assumes "length (per_cpu_area s) = MAX_CPUS" "unat (pc_cpu_id data) < MAX_CPUS"
  shows "get_cpu_data (pc_cpu_id data) (set_current_cpu_data data s) = data"
    "unat n < MAX_CPUS \<Longrightarrow> n \<noteq> pc_cpu_id data \<Longrightarrow> get_cpu_data n (set_current_cpu_data data s) = get_cpu_data n s"
  using assms by (simp_all add: get_cpu_data_def set_current_cpu_data_def Let_def nth_list_update word_unat_eq_iff)

end
