(* ===== verification/Ext2.thy ===== *)
theory Ext2
  imports Devices Vfs
begin

text \<open>
  Mounting disks: the mount table (\<^verbatim>\<open>kernel/src/fs/mod.rs\<close>) and the ext2 driver
  (\<^verbatim>\<open>kernel/src/fs/ext2.rs\<close>).  The driver's operations take the block reader as the argument \<open>rb\<close>; the
  kernel's is \<open>ahci_read_blocks\<close>.
\<close>


section \<open>Definitions\<close>

datatype fs_type = Ext2_fs | Fat32 | Unknown_fs

record mount_info =
  mnt_device :: nat
  mnt_fs_type :: fs_type
  mnt_point :: rstr
  mnt_root_inode :: u32

definition fs_mount :: "nat \<Rightarrow> fs_type \<Rightarrow> rstr \<Rightarrow> mount_info list \<Rightarrow> bool \<times> mount_info list" where
  "fs_mount device fs_type mount_point mounts =
     (True, mounts @ [\<lparr>mnt_device = device, mnt_fs_type = fs_type, mnt_point = mount_point, mnt_root_inode = 2\<rparr>])"

record ext2_superblock =
  sb_inode_count :: u32
  sb_block_count :: u32
  sb_reserved_blocks :: u32
  sb_free_blocks :: u32
  sb_free_inodes :: u32
  sb_first_data_block :: u32
  sb_log_block_size :: u32
  sb_log_frag_size :: u32
  sb_blocks_per_group :: u32
  sb_frags_per_group :: u32
  sb_inodes_per_group :: u32
  sb_mtime :: u32
  sb_wtime :: u32
  sb_mnt_count :: u16
  sb_max_mnt_count :: u16
  sb_magic :: u16
  sb_state :: u16
  sb_errors :: u16
  sb_minor_rev_level :: u16
  sb_lastcheck :: u32
  sb_checkinterval :: u32
  sb_creator_os :: u32
  sb_rev_level :: u32
  sb_reserved :: "u8 list"

definition sb_is_valid :: "ext2_superblock \<Rightarrow> bool" where
  "sb_is_valid sb \<longleftrightarrow> sb_magic sb = 0xEF53"

text \<open>A shift by the width or more panics; bits shifted out are lost.\<close>

definition sb_block_size :: "ext2_superblock \<Rightarrow> nat run" where
  "sb_block_size sb = (let n = unat (sb_log_block_size sb) in
     if n < 64 then Done (1024 * 2 ^ n mod usize_limit) else Panic)"

record ext2_inode =
  in_mode :: u16
  in_uid :: u16
  in_size_low :: u32
  in_atime :: u32
  in_ctime :: u32
  in_mtime :: u32
  in_dtime :: u32
  in_gid :: u16
  in_links_count :: u16
  in_blocks :: u32
  in_flags :: u32
  in_osd1 :: u32
  in_block :: "u32 list"
  in_generation :: u32
  in_file_acl :: u32
  in_dir_acl :: u32
  in_faddr :: u32
  in_osd2 :: "u8 list"

definition inode_is_directory :: "ext2_inode \<Rightarrow> bool" where
  "inode_is_directory i \<longleftrightarrow> in_mode i AND 0x4000 \<noteq> 0"

definition inode_is_regular_file :: "ext2_inode \<Rightarrow> bool" where
  "inode_is_regular_file i \<longleftrightarrow> in_mode i AND 0x8000 \<noteq> 0"

definition inode_size :: "ext2_inode \<Rightarrow> u64" where
  "inode_size i = ucast (in_size_low i)"

record ext2_dir_entry =
  de_inode :: u32
  de_rec_len :: u16
  de_name_len :: u8
  de_file_type :: u8

record group_desc =
  gd_block_bitmap :: u32
  gd_inode_bitmap :: u32
  gd_inode_table :: u32
  gd_free_blocks_count :: u16
  gd_free_inodes_count :: u16
  gd_used_dirs_count :: u16
  gd_pad :: u16
  gd_reserved :: "u8 list"

record ext2_fs =
  fs_superblock :: ext2_superblock
  fs_block_size :: nat
  fs_device_id :: nat
  fs_group_desc :: "group_desc list"

type_synonym block_reader = "nat \<Rightarrow> u64 \<Rightarrow> nat \<Rightarrow> u8 list \<Rightarrow> bool \<times> u8 list"

definition ext2_read_blocks :: "block_reader \<Rightarrow> block_reader" where
  "ext2_read_blocks rb device_id lba n buffer = rb device_id lba n buffer"

definition dummy_superblock :: ext2_superblock where
  "dummy_superblock = \<lparr>sb_inode_count = 0, sb_block_count = 0, sb_reserved_blocks = 0, sb_free_blocks = 0, sb_free_inodes = 0,
     sb_first_data_block = 1, sb_log_block_size = 0, sb_log_frag_size = 0, sb_blocks_per_group = 8192, sb_frags_per_group = 8192,
     sb_inodes_per_group = 1024, sb_mtime = 0, sb_wtime = 0, sb_mnt_count = 0, sb_max_mnt_count = 0, sb_magic = 0xEF53, sb_state = 1,
     sb_errors = 0, sb_minor_rev_level = 0, sb_lastcheck = 0, sb_checkinterval = 0, sb_creator_os = 0, sb_rev_level = 0,
     sb_reserved = replicate 768 0\<rparr>"

text \<open>The packed structure as it lies in the buffer.\<close>

definition superblock_at :: "u8 list \<Rightarrow> ext2_superblock" where
  "superblock_at b =
     (let w = (\<lambda>i. le_u32 (sub_slice i (i + 4) b)); h = (\<lambda>i. le_u16 (sub_slice i (i + 2) b)) in
      \<lparr>sb_inode_count = w 0, sb_block_count = w 4, sb_reserved_blocks = w 8, sb_free_blocks = w 12, sb_free_inodes = w 16,
       sb_first_data_block = w 20, sb_log_block_size = w 24, sb_log_frag_size = w 28, sb_blocks_per_group = w 32,
       sb_frags_per_group = w 36, sb_inodes_per_group = w 40, sb_mtime = w 44, sb_wtime = w 48, sb_mnt_count = h 52,
       sb_max_mnt_count = h 54, sb_magic = h 56, sb_state = h 58, sb_errors = h 60, sb_minor_rev_level = h 62,
       sb_lastcheck = w 64, sb_checkinterval = w 68, sb_creator_os = w 72, sb_rev_level = w 76,
       sb_reserved = sub_slice 80 848 b\<rparr>)"

definition read_superblock :: "block_reader \<Rightarrow> nat \<Rightarrow> ext2_superblock option" where
  "read_superblock rb device_id = (case ext2_read_blocks rb device_id 2 1 (replicate 1024 0) of (ok, buffer) \<Rightarrow>
     if \<not> ok then Some dummy_superblock
     else let sb = superblock_at buffer in
       if \<not> sb_is_valid sb then None else Some sb)"

definition u32_div :: "u32 \<Rightarrow> u32 \<Rightarrow> u32 run" where
  "u32_div a b = (if b = 0 then Panic else Done (a div b))"

definition ext2_init :: "block_reader \<Rightarrow> nat \<Rightarrow> ext2_fs option \<Rightarrow> (bool \<times> ext2_fs option) run" where
  "ext2_init rb device_id state = (case read_superblock rb device_id of
       None \<Rightarrow> Done (False, state)
     | Some superblock \<Rightarrow>
         run_bind (sb_block_size superblock) (\<lambda>block_size.
         run_bind (add_or_panic (sb_block_count superblock) (sb_blocks_per_group superblock)) (\<lambda>n.
         run_bind (sub_or_panic n 1) (\<lambda>n.
         run_bind (u32_div n (sb_blocks_per_group superblock)) (\<lambda>g.
         let group_count = unat g in
         run_bind (usize_mul group_count 32) (\<lambda>n.
         run_bind (usize_add n block_size) (\<lambda>n.
         run_bind (usize_sub n 1) (\<lambda>n.
         if block_size = 0 then Panic
         else run_bind (usize_mul (n div block_size) block_size) (\<lambda>gd_size.
         if vec_limit < gd_size then Panic
         else Done (True, Some \<lparr>fs_superblock = superblock, fs_block_size = block_size, fs_device_id = device_id,
                fs_group_desc = []\<rparr>))))))))))"

definition ext2_mount :: "block_reader \<Rightarrow> nat \<Rightarrow> ext2_fs option \<times> mount_info list \<Rightarrow> (bool \<times> ext2_fs option \<times> mount_info list) run" where
  "ext2_mount rb device_id st = run_bind (ext2_init rb device_id (fst st)) (\<lambda>(ok, fs).
     if \<not> ok then Done (False, fs, snd st)
     else Done (True, fs, snd (fs_mount device_id Ext2_fs (ascii ''/'') (snd st))))"

definition read_inode :: "nat \<Rightarrow> u32 \<Rightarrow> ext2_inode option" where
  "read_inode device_id ino = None"

definition ext2_list_dir :: "nat \<Rightarrow> u32 \<Rightarrow> (u32 \<times> rstr \<times> u8) list" where
  "ext2_list_dir device_id ino = []"


section \<open>Mounting\<close>

text \<open>With the kernel's block reader every device mounts, whatever it holds, with the built-in superblock.\<close>

theorem ext2_mounts_anything:
  "ext2_mount ahci_read_blocks device_id (fs, mounts) = Done (True,
     Some \<lparr>fs_superblock = dummy_superblock, fs_block_size = 1024, fs_device_id = device_id, fs_group_desc = []\<rparr>,
     mounts @ [\<lparr>mnt_device = device_id, mnt_fs_type = Ext2_fs, mnt_point = ascii ''/'', mnt_root_inode = 2\<rparr>])"
proof -
  have "read_superblock ahci_read_blocks device_id = Some dummy_superblock"
    by (simp add: read_superblock_def ext2_read_blocks_def ahci_read_blocks_def)
  then show ?thesis
    by (simp add: ext2_mount_def ext2_init_def fs_mount_def dummy_superblock_def sb_block_size_def add_or_panic_def
        sub_or_panic_def u32_div_def usize_mul_def usize_add_def usize_sub_def vec_limit_def Let_def)
qed

text \<open>A reader that works: the superblock it returns decides.  A wrong magic number is refused, and a superblock without
  blocks per group makes the kernel panic.\<close>

theorem ext2_init_checks:
  assumes "rb device_id 2 1 (replicate 1024 0) = (True, buffer)"
  shows "sb_magic (superblock_at buffer) \<noteq> 0xEF53 \<Longrightarrow> ext2_init rb device_id fs = Done (False, fs)"
    and "sb_magic (superblock_at buffer) = 0xEF53 \<Longrightarrow> sb_blocks_per_group (superblock_at buffer) = 0 \<Longrightarrow> ext2_init rb device_id fs = Panic"
proof -
  show "ext2_init rb device_id fs = Done (False, fs)" if "sb_magic (superblock_at buffer) \<noteq> 0xEF53"
    using assms that by (simp add: ext2_init_def read_superblock_def ext2_read_blocks_def sb_is_valid_def)
  have d: "u32_div n 0 = Panic" for n by (simp add: u32_div_def)
  show "ext2_init rb device_id fs = Panic"
    if "sb_magic (superblock_at buffer) = 0xEF53" "sb_blocks_per_group (superblock_at buffer) = 0"
  proof (cases "ext2_init rb device_id fs")
    case (Done r)
    with assms that show ?thesis by (auto simp: ext2_init_def read_superblock_def ext2_read_blocks_def sb_is_valid_def run_bind_eq_Done d)
  qed
qed

text \<open>The tests of one mode bit call a block device (mode 0x6000) a directory and a socket (0xC000) both.\<close>

theorem inode_kind_confused:
  "in_mode i = 0x6000 \<Longrightarrow> inode_is_directory i" "in_mode j = 0xC000 \<Longrightarrow> inode_is_directory j \<and> inode_is_regular_file j"
  by (simp_all add: inode_is_directory_def inode_is_regular_file_def)

end
