(* ===== verification/Security.thy ===== *)
theory Security
  imports Bytes
begin

text \<open>
  The security context (\<^verbatim>\<open>kernel/src/security/mod.rs\<close>) and the network stub (\<^verbatim>\<open>kernel/src/drivers/net.rs\<close>).
\<close>


section \<open>Definitions\<close>

record capabilities =
  can_read :: bool
  can_write :: bool
  can_exec :: bool
  can_network :: bool
  can_admin :: bool

definition caps_full :: capabilities where
  "caps_full = \<lparr>can_read = True, can_write = True, can_exec = True, can_network = True, can_admin = True\<rparr>"

definition caps_basic :: capabilities where
  "caps_basic = \<lparr>can_read = True, can_write = True, can_exec = True, can_network = False, can_admin = False\<rparr>"

definition caps_restricted :: capabilities where
  "caps_restricted = \<lparr>can_read = True, can_write = False, can_exec = False, can_network = False, can_admin = False\<rparr>"

record security_context =
  sec_uid :: u32
  sec_gid :: u32
  sec_caps :: capabilities
  is_privileged :: bool

definition security_init :: "security_context option \<Rightarrow> security_context option" where
  "security_init ctx = Some \<lparr>sec_uid = 0, sec_gid = 0, sec_caps = caps_full, is_privileged = True\<rparr>"

definition set_context :: "u32 \<Rightarrow> u32 \<Rightarrow> capabilities \<Rightarrow> security_context option \<Rightarrow> security_context option" where
  "set_context uid gid caps ctx = Some \<lparr>sec_uid = uid, sec_gid = gid, sec_caps = caps, is_privileged = (uid = 0)\<rparr>"

definition check_capability :: "rstr \<Rightarrow> security_context option \<Rightarrow> bool" where
  "check_capability cap ctx = (case ctx of
       Some ctx \<Rightarrow>
         if cap = ascii ''read'' then can_read (sec_caps ctx)
         else if cap = ascii ''write'' then can_write (sec_caps ctx)
         else if cap = ascii ''exec'' then can_exec (sec_caps ctx)
         else if cap = ascii ''network'' then can_network (sec_caps ctx)
         else if cap = ascii ''admin'' then can_admin (sec_caps ctx)
         else False
     | None \<Rightarrow> False)"

definition get_uid :: "security_context option \<Rightarrow> u32" where
  "get_uid ctx = (case ctx of Some ctx \<Rightarrow> sec_uid ctx | None \<Rightarrow> 0)"

definition authenticate :: "rstr \<Rightarrow> rstr \<Rightarrow> bool" where
  "authenticate username password = True"

record network_state =
  net_initialized :: bool

definition net_init :: "network_state \<Rightarrow> network_state" where
  "net_init s = s\<lparr>net_initialized := True\<rparr>"

definition net_poll :: "network_state \<Rightarrow> network_state" where
  "net_poll s = (if \<not> net_initialized s then s else s)"


section \<open>Capabilities\<close>

text \<open>The capabilities that a named check grants.\<close>

definition granted :: "security_context option \<Rightarrow> rstr set" where
  "granted ctx = {cap. check_capability cap ctx}"

text \<open>The predefined sets grow from restricted to basic to full, none grants a name the source does not know, and without a
  context nothing is granted although the user number reads as the superuser's.\<close>

theorem capability_sets:
  "granted (set_context u g caps_restricted c) = {ascii ''read''}"
  "granted (set_context u g caps_basic c) = {ascii ''read'', ascii ''write'', ascii ''exec''}"
  "granted (security_init c) = {ascii ''read'', ascii ''write'', ascii ''exec'', ascii ''network'', ascii ''admin''}"
  "granted None = {} \<and> get_uid None = 0"
  by (auto simp: granted_def check_capability_def set_context_def security_init_def get_uid_def
      caps_restricted_def caps_basic_def caps_full_def ascii_def)

end
