(* ===== verification/Kernel_Space.thy ===== *)
theory Kernel_Space
  imports Process_Image Context_Switch Heap
begin

text \<open>
  The kernel's own address space: its heap (\<open>init_heap\<close> of \<^verbatim>\<open>kernel/src/memory/heap.rs\<close>), the kernel stacks of
  tasks and the creation of tasks (\<^verbatim>\<open>kernel/src/task/mod.rs\<close>), and the user stack of
  \<^verbatim>\<open>kernel/src/memory/user.rs\<close>.  The state joins the page tables and the frame allocator (\<open>os_space\<close>) to the
  machine of theory \<open>Context\<close>, whose \<open>slots_of\<close> is the memory of the kernel stacks by virtual address.  A process is
  shared by reference, so a new one is put into the next free cell of \<open>proc_heap\<close>.
\<close>


section \<open>Heap and user stack\<close>

definition HEAP_START :: u64 where "HEAP_START = 0xFFFFA00000000000"
definition HEAP_SIZE :: u64 where "HEAP_SIZE = 100 * 1024"

fun map_heap_pages ::
  "('e, 's) mapper \<Rightarrow> ('s \<Rightarrow> (u64 option \<times> 's) run) \<Rightarrow> u64 \<Rightarrow> u64 list \<Rightarrow> 'e tables \<times> 's \<Rightarrow> (bool \<times> 'e tables \<times> 's) run" where
  "map_heap_pages mp alloc pml4 [] w = Done (True, w)"
| "map_heap_pages mp alloc pml4 (page # ps) w =
     run_bind (alloc (snd w)) (\<lambda>(f, s). case f of
         None \<Rightarrow> Done (False, fst w, s)
       | Some frame \<Rightarrow>
           run_bind (mp_map_to mp pml4 page frame (PRESENT OR WRITABLE) (fst w, s)) (\<lambda>(mapped, w).
           if mapped then map_heap_pages mp alloc pml4 ps w else Done (False, w)))"

definition init_heap ::
  "('e, 's) mapper \<Rightarrow> ('s \<Rightarrow> (u64 option \<times> 's) run) \<Rightarrow> u64 \<Rightarrow> ('e tables \<times> 's) \<times> fsb \<Rightarrow> (bool \<times> ('e tables \<times> 's) \<times> fsb) run" where
  "init_heap mp alloc pml4 st =
     run_bind (va_new mp HEAP_START) (\<lambda>heap_start.
     run_bind (va_add mp heap_start HEAP_SIZE) (\<lambda>e.
     run_bind (va_sub mp e 1) (\<lambda>heap_end.
     run_bind (map_heap_pages mp alloc pml4 (page_range mp (page_of mp heap_start) (page_of mp heap_end)) (fst st)) (\<lambda>(mapped, w).
     if \<not> mapped then Done (False, w, snd st)
     else run_bind (fsb_init (unat HEAP_START) (unat HEAP_SIZE) (snd st)) (\<lambda>h. Done (True, w, h))))))"

definition USER_STACK_BASE :: u64 where "USER_STACK_BASE = 0x7ffff000"
definition USER_STACK_SIZE_PAGES :: nat where "USER_STACK_SIZE_PAGES = 16"

text \<open>The frames pushed so far are the first component of the state; a failure leaves the loop.\<close>

fun user_stack_pages ::
  "('e, 's) mapper \<Rightarrow> ('s \<Rightarrow> (u64 option \<times> 's) run) \<Rightarrow> u64 \<Rightarrow> nat list \<Rightarrow> u64 list \<times> 'e tables \<times> 's
    \<Rightarrow> (bool \<times> u64 list \<times> 'e tables \<times> 's) run" where
  "user_stack_pages mp alloc pml4 [] st = Done (True, st)"
| "user_stack_pages mp alloc pml4 (i # is) (fs, t, s) =
     run_bind (alloc s) (\<lambda>(f, s). case f of
         None \<Rightarrow> Done (False, fs, t, s)
       | Some frame \<Rightarrow>
           run_bind (mul_or_panic (of_nat i) 4096) (\<lambda>off.
           run_bind (sub_or_panic USER_STACK_BASE off) (\<lambda>a.
           run_bind (va_new mp a) (\<lambda>page.
           if page_of mp page \<noteq> page then Done (False, fs, t, s)
           else run_bind (mp_map_to mp pml4 page frame (PRESENT OR WRITABLE OR USER_ACCESSIBLE) (t, s)) (\<lambda>(mapped, t, s).
             if mapped then user_stack_pages mp alloc pml4 is (fs @ [frame], t, s) else Done (False, fs, t, s))))))"

definition alloc_user_stack ::
  "('e, 's) mapper \<Rightarrow> ('s \<Rightarrow> (u64 option \<times> 's) run) \<Rightarrow> u64 \<Rightarrow> u64 list \<times> 'e tables \<times> 's
    \<Rightarrow> (u64 option \<times> u64 list \<times> 'e tables \<times> 's) run" where
  "alloc_user_stack mp alloc pml4 st =
     run_bind (user_stack_pages mp alloc pml4 [0..<USER_STACK_SIZE_PAGES] st) (\<lambda>(mapped, st).
     Done (if mapped then Some USER_STACK_BASE else None, st))"


section \<open>Tasks\<close>

record ('e, 's) os =
  os_space :: "('e, 's) pworld"
  os_machine :: machine
  os_procs :: nat

abbreviation os_tables :: "('e, 's) os \<Rightarrow> 'e tables \<times> 's" where
  "os_tables w \<equiv> (p_tables (os_space w), p_alloc (os_space w))"

definition set_tables :: "'e tables \<times> 's \<Rightarrow> ('e, 's) os \<Rightarrow> ('e, 's) os" where
  "set_tables ts w = w\<lparr>os_space := (os_space w)\<lparr>p_tables := fst ts, p_alloc := snd ts\<rparr>\<rparr>"

definition share_process :: "process_inner \<Rightarrow> ('e, 's) os \<Rightarrow> nat \<times> ('e, 's) os" where
  "share_process proc w =
     (let k = kern (os_machine w) in
      (os_procs w, w\<lparr>os_machine := (os_machine w)\<lparr>kern := k\<lparr>proc_heap := (proc_heap k)(os_procs w := proc)\<rparr>\<rparr>,
                     os_procs := os_procs w + 1\<rparr>))"

definition update_process :: "nat \<Rightarrow> (process_inner \<Rightarrow> process_inner) \<Rightarrow> ('e, 's) os \<Rightarrow> ('e, 's) os" where
  "update_process c f w =
     (let k = kern (os_machine w) in
      w\<lparr>os_machine := (os_machine w)\<lparr>kern := k\<lparr>proc_heap := (proc_heap k)(c := f (proc_heap k c))\<rparr>\<rparr>\<rparr>)"

definition next_task :: "('e, 's) os \<Rightarrow> nat \<times> ('e, 's) os" where
  "next_task w = (case task_id_new (kern (os_machine w)) of (n, k) \<Rightarrow> (n, w\<lparr>os_machine := (os_machine w)\<lparr>kern := k\<rparr>\<rparr>))"

definition stack_start_virt :: "nat \<Rightarrow> u64 run" where
  "stack_start_virt n =
     run_bind (mul_or_panic (of_nat n) STACK_STRIDE) (\<lambda>off.
     run_bind (add_or_panic KERNEL_STACK_REGION_BASE off) (\<lambda>stack_region_base.
     add_or_panic stack_region_base 4096))"

definition init_kernel_stack_region ::
  "('e, 's) mapper \<Rightarrow> ('s \<Rightarrow> (u64 option \<times> 's) run) \<Rightarrow> u64 \<Rightarrow> 'e tables \<times> 's \<Rightarrow> ('e tables \<times> 's) run" where
  "init_kernel_stack_region mp alloc pml4 w =
     run_bind (va_new mp KERNEL_STACK_REGION_BASE) (\<lambda>a.
     let anchor_page = page_of mp a in
     if mp_translate mp pml4 (fst w) anchor_page \<noteq> None then Done w
     else run_bind (alloc (snd w)) (\<lambda>(f, s). run_bind (run_the f) (\<lambda>frame.
       run_bind (mp_map_to mp pml4 anchor_page frame (PRESENT OR WRITABLE) (fst w, s)) (\<lambda>(_, w). Done w))))"

definition stack_pages :: "('e, 's) mapper \<Rightarrow> u64 \<Rightarrow> u64 \<Rightarrow> u64 list run" where
  "stack_pages mp usable_stack_start stack_top =
     run_bind (va_sub mp stack_top 1) (\<lambda>last. Done (page_range mp (page_of mp usable_stack_start) (page_of mp last)))"

definition task_new ::
  "('e, 's) mapper \<Rightarrow> ('s \<Rightarrow> (u64 option \<times> 's) run) \<Rightarrow> u64 \<Rightarrow> u64 \<Rightarrow> ('e, 's) os \<Rightarrow> (task \<times> ('e, 's) os) run" where
  "task_new mp alloc pml4 entry w =
     (let (n, w) = next_task w in
      run_bind (stack_start_virt n) (\<lambda>usable_stack_start.
      run_bind (add_or_panic usable_stack_start STACK_SIZE) (\<lambda>stack_top.
      run_bind (stack_pages mp usable_stack_start stack_top) (\<lambda>pages.
      run_bind (run_fold (map_kernel_page mp alloc pml4 (PRESENT OR WRITABLE)) pages (os_tables w)) (\<lambda>ts.
      let w = set_tables ts w;
          (sp, mem) = new_kernel_frame stack_top entry (slots_of (os_machine w));
          w = w\<lparr>os_machine := (os_machine w)\<lparr>slots_of := mem\<rparr>\<rparr>;
          (c, w) = share_process (kernel_process (cr3 (kern (os_machine w)))) w in
      Done (\<lparr>task_id = n, stack_ptr = sp, kernel_stack_top = stack_top, task_process = c, task_state_of = Ready\<rparr>,
            update_process c (add_thread n) w))))))"

definition map_stack_page ::
  "('e, 's) mapper \<Rightarrow> ('s \<Rightarrow> (u64 option \<times> 's) run) \<Rightarrow> u64 \<Rightarrow> u64 \<Rightarrow> u64 \<Rightarrow> 'e tables \<times> 's \<Rightarrow> ('e tables \<times> 's) run" where
  "map_stack_page mp alloc pml4 process_pml4 page w =
     run_bind (alloc (snd w)) (\<lambda>(f, s). run_bind (run_the f) (\<lambda>frame.
     run_bind (mp_map_to mp pml4 page frame (PRESENT OR WRITABLE) (fst w, s)) (\<lambda>(_, w).
     run_bind (mp_map_to mp process_pml4 page frame (PRESENT OR WRITABLE) w) (\<lambda>(_, w). Done w))))"

definition task_new_user ::
  "('e, 's) mapper \<Rightarrow> ('s \<Rightarrow> (u64 option \<times> 's) run) \<Rightarrow> u64 \<Rightarrow> nat \<Rightarrow> ('e, 's) os \<Rightarrow> (task \<times> ('e, 's) os) run" where
  "task_new_user mp alloc pml4 c w =
     (let (n, w) = next_task w; process = proc_heap (kern (os_machine w)) c in
      run_bind (stack_start_virt n) (\<lambda>usable_stack_start.
      run_bind (add_or_panic usable_stack_start STACK_SIZE) (\<lambda>stack_top.
      run_bind (stack_pages mp usable_stack_start stack_top) (\<lambda>pages.
      run_bind (run_fold (map_stack_page mp alloc pml4 (pml4_frame process)) pages (os_tables w)) (\<lambda>ts.
      let w = set_tables ts w;
          (sp, mem) = new_user_frame stack_top process (slots_of (os_machine w));
          w = w\<lparr>os_machine := (os_machine w)\<lparr>slots_of := mem\<rparr>\<rparr>;
          w = update_process c (add_thread n) w in
      Done (\<lparr>task_id = n, stack_ptr = sp, kernel_stack_top = stack_top, task_process = c, task_state_of = Ready\<rparr>, w))))))"

text \<open>\<open>scheduler::add_task(task)\<close> after either.\<close>

definition queue_task :: "task \<Rightarrow> ('e, 's) os \<Rightarrow> ('e, 's) os run" where
  "queue_task t w = run_bind (add_task t (kern (os_machine w))) (\<lambda>k. Done (w\<lparr>os_machine := (os_machine w)\<lparr>kern := k\<rparr>\<rparr>))"


section \<open>The stack region\<close>

text \<open>The region of the kernel stacks is the part of the kernel half under one entry, number 508, of the top-level table.\<close>

definition stack_addr :: "u64 \<Rightarrow> bool" where
  "stack_addr v \<longleftrightarrow> 0xFFFFFE0000000000 \<le> unat v \<and> unat v < 0xFFFFFE8000000000"

definition kernel_tables :: "'e entry_ops \<Rightarrow> 'e tables \<Rightarrow> u64 \<Rightarrow> u64 list" where
  "kernel_tables ops t pml4 = pml4 # concat (map (\<lambda>i. table_list ops t 3 (t pml4 i)) [256..<512])"

text \<open>What the crate documents of \<open>map_to\<close> there.  A page that is mapped already is an error and nothing but
  the flags of tables on the way may change.  Otherwise, where the region's entry is present and frames for up to three new
  tables are at hand, it succeeds: where the tables of the kernel half form a tree, the page leads to the frame, other pages keep their frames, only tables of
  the tree and new ones are written, and no entry of the top-level table is redirected.\<close>

definition maps_page ::
  "'e entry_ops \<Rightarrow> ('e, 's) mapper \<Rightarrow> ('s \<Rightarrow> (u64 option \<times> 's) run) \<Rightarrow> u64 \<Rightarrow> u64 \<Rightarrow> u64 \<Rightarrow> 'e tables \<times> 's \<Rightarrow> 'e tables \<times> 's \<Rightarrow> bool" where
  "maps_page ops mp alloc pml4 page frame w w' \<longleftrightarrow> (case (w, w') of ((t, s), (t', s')) \<Rightarrow>
     \<exists>n fs. n \<le> 3 \<and> take_frames alloc n s = Done (fs, s')
        \<and> (distinct (kernel_tables ops t pml4 @ frame # fs) \<longrightarrow>
             distinct (kernel_tables ops t' pml4)
             \<and> set (kernel_tables ops t' pml4) \<subseteq> set (kernel_tables ops t pml4) \<union> set fs
             \<and> (\<forall>v. stack_addr v \<longrightarrow> mp_translate mp pml4 t' v
                  = (if page_base v = page then Some (frame + page_off v) else mp_translate mp pml4 t v))
             \<and> (\<forall>q. q \<notin> set (kernel_tables ops t pml4) \<union> set fs \<longrightarrow> t' q = t q)
             \<and> (\<forall>i<512. entry_frame ops (t' pml4 i) = entry_frame ops (t pml4 i))))"

definition same_walks :: "'e entry_ops \<Rightarrow> ('e, 's) mapper \<Rightarrow> 'e tables \<Rightarrow> 'e tables \<Rightarrow> bool" where
  "same_walks ops mp t t' \<longleftrightarrow> (\<forall>f i. entry_frame ops (t' f i) = entry_frame ops (t f i))
     \<and> (\<forall>p v. stack_addr v \<longrightarrow> mp_translate mp p t' v = mp_translate mp p t v)"

definition stack_map_law :: "'e entry_ops \<Rightarrow> ('e, 's) mapper \<Rightarrow> ('s \<Rightarrow> (u64 option \<times> 's) run) \<Rightarrow> bool" where
  "stack_map_law ops mp alloc \<longleftrightarrow> (\<forall>pml4 page frame fl t s. 4096 dvd unat page \<longrightarrow> stack_addr page \<longrightarrow> phys_frame frame \<longrightarrow>
     (mp_translate mp pml4 t page \<noteq> None \<longrightarrow>
        (\<exists>t'. mp_map_to mp pml4 page frame fl (t, s) = Done (False, t', s) \<and> same_walks ops mp t t'))
     \<and> (mp_translate mp pml4 t page = None \<longrightarrow> entry_frame ops (t pml4 508) \<noteq> None \<longrightarrow> can_take alloc 3 s \<longrightarrow>
        (\<exists>t' s'. mp_map_to mp pml4 page frame fl (t, s) = Done (True, t', s')
           \<and> maps_page ops mp alloc pml4 page frame (t, s) (t', s'))))"

definition stack_laws :: "'e entry_ops \<Rightarrow> ('e, 's) mapper \<Rightarrow> ('s \<Rightarrow> (u64 option \<times> 's) run) \<Rightarrow> bool" where
  "stack_laws ops mp alloc \<longleftrightarrow>
     (\<forall>a. page_of mp a = page_base a)
     \<and> (\<forall>a b. a \<le> b \<longrightarrow> distinct (page_range mp (page_base a) (page_base b))
          \<and> set (page_range mp (page_base a) (page_base b)) = {page_base v |v. a \<le> v \<and> v \<le> b})
     \<and> (\<forall>a n. stack_addr a \<longrightarrow> n \<le> a \<longrightarrow> stack_addr (a - n) \<longrightarrow> va_sub mp a n = Done (a - n))
     \<and> (\<forall>p q t v. stack_addr v \<longrightarrow> entry_frame ops (t p 508) = entry_frame ops (t q 508)
          \<longrightarrow> mp_translate mp p t v = mp_translate mp q t v)
     \<and> stack_map_law ops mp alloc"

text \<open>The kernel's tables \<open>kp\<close> and those of the processes \<open>ps\<close>, for the frames \<open>tk\<close> in use: the tables form a tree, the
  region's entry is present, every process has the kernel half of the kernel's table, and the pages of the region are pairwise
  different frames in use, none of them a table.\<close>

definition region_ok ::
  "'e entry_ops \<Rightarrow> ('e, 's) mapper \<Rightarrow> u64 \<Rightarrow> u64 set \<Rightarrow> (u64 \<Rightarrow> bool) \<Rightarrow> 'e tables \<Rightarrow> bool" where
  "region_ok ops mp kp ps tk t \<longleftrightarrow>
     distinct (kernel_tables ops t kp) \<and> (\<forall>f\<in>set (kernel_tables ops t kp). tk f) \<and> entry_frame ops (t kp 508) \<noteq> None
     \<and> (\<forall>q\<in>ps. tk q \<and> q \<notin> set (kernel_tables ops t kp)
          \<and> (\<forall>i. 256 \<le> i \<longrightarrow> i < 512 \<longrightarrow> entry_frame ops (t q i) = entry_frame ops (t kp i)))
     \<and> (\<forall>v f. stack_addr v \<longrightarrow> mp_translate mp kp t (page_base v) = Some f \<longrightarrow> tk f \<and> f \<notin> set (kernel_tables ops t kp))
     \<and> (\<forall>v v' f. stack_addr v \<longrightarrow> stack_addr v' \<longrightarrow> mp_translate mp kp t (page_base v) = Some f
          \<longrightarrow> mp_translate mp kp t (page_base v') = Some f \<longrightarrow> page_base v = page_base v')"

lemma stack_lawsD:
  assumes "stack_laws ops mp alloc"
  shows "\<And>a. page_of mp a = page_base a"
    "\<And>a b. a \<le> b \<Longrightarrow> distinct (page_range mp (page_base a) (page_base b))"
    "\<And>a b. a \<le> b \<Longrightarrow> set (page_range mp (page_base a) (page_base b)) = {page_base v |v. a \<le> v \<and> v \<le> b}"
    "\<And>a n. stack_addr a \<Longrightarrow> n \<le> a \<Longrightarrow> stack_addr (a - n) \<Longrightarrow> va_sub mp a n = Done (a - n)"
    "\<And>p q t v. stack_addr v \<Longrightarrow> entry_frame ops (t p 508) = entry_frame ops (t q 508) \<Longrightarrow> mp_translate mp p t v = mp_translate mp q t v"
    "stack_map_law ops mp alloc"
  using assms unfolding stack_laws_def by blast+

lemma stack_addr_base: "stack_addr v \<Longrightarrow> stack_addr (page_base v)"
proof -
  assume v: "stack_addr v"
  then have "0xFFFFFE0000000000 div 4096 \<le> unat v div 4096" by (intro div_le_mono) (simp add: stack_addr_def)
  then have "0xFFFFFE0000000 \<le> unat v div 4096" by simp
  with v show ?thesis using div_times_less_eq_dividend[of "unat v" 4096] unfolding stack_addr_def unat_page by linarith
qed

lemma kernel_tables_cong:
  assumes "\<And>f i. entry_frame ops (t' f i) = entry_frame ops (t f i)"
  shows "kernel_tables ops t' pml4 = kernel_tables ops t pml4"
proof -
  have "table_list ops t' 3 (t' pml4 i) = table_list ops t 3 (t pml4 i)" for i by (intro table_list_cong) (use assms in auto)
  then show ?thesis by (simp add: kernel_tables_def del: upt_rec_numeral)
qed

lemma can_take_Suc: "can_take alloc (Suc n) s \<longleftrightarrow> (\<exists>f s'. alloc s = Done (Some f, s') \<and> can_take alloc n s')"
  by (auto split: run.splits option.splits)

lemma can_take_le: "can_take alloc n s \<Longrightarrow> m \<le> n \<Longrightarrow> can_take alloc m s"
proof (induction m arbitrary: n s)
  case (Suc m)
  then obtain n' where n: "n = Suc n'" by (cases n) auto
  with Suc.prems obtain f s' where "alloc s = Done (Some f, s')" "can_take alloc n' s'" by (auto simp: can_take_Suc simp del: can_take.simps)
  with Suc.IH[of n' s'] Suc.prems(2) n show ?case by (simp add: can_take_Suc del: can_take.simps)
qed simp

lemma can_take_rest: "can_take alloc (m + k) s \<Longrightarrow> take_frames alloc m s = Done (fs, s') \<Longrightarrow> can_take alloc k s'"
proof (induction m arbitrary: s fs)
  case (Suc m)
  then obtain f s1 where a: "alloc s = Done (Some f, s1)" "can_take alloc (m + k) s1" by (auto simp: can_take_Suc simp del: can_take.simps)
  with Suc.prems(2) obtain gs where "take_frames alloc m s1 = Done (gs, s')" by (auto simp: run_bind_eq_Done)
  with Suc.IH a show ?case by blast
qed simp


text \<open>Where the stack of task \<open>n\<close> lies, and its pages.\<close>

lemma stack_bounds:
  assumes "n \<le> 13421771"
  obtains start stop where "stack_start_virt n = Done start" "add_or_panic start STACK_SIZE = Done stop"
    "unat start = 0xFFFFFE0000001000 + n * 40960" "unat stop = 0xFFFFFE0000009000 + n * 40960" "stack_top_virt n = Done stop"
proof -
  have n: "unat (of_nat n :: u64) = n" using of_nat_inverse[of n, where 'a = 64] assms by simp
  let ?a = "of_nat n * STACK_STRIDE"
  have 1: "mul_or_panic (of_nat n) STACK_STRIDE = Done ?a" using assms n by (simp add: mul_or_panic_def STACK_STRIDE_def)
  then have a: "unat ?a = n * 40960" using mul_or_panic_Done[OF 1] n by (simp add: STACK_STRIDE_def)
  let ?b = "KERNEL_STACK_REGION_BASE + ?a"
  have 2: "add_or_panic KERNEL_STACK_REGION_BASE ?a = Done ?b" using assms a by (simp add: add_or_panic_def KERNEL_STACK_REGION_BASE_def)
  then have b: "unat ?b = 0xFFFFFE0000000000 + n * 40960" using add_or_panic_Done[OF 2] a by (simp add: KERNEL_STACK_REGION_BASE_def)
  have 3: "add_or_panic ?b 4096 = Done (?b + 4096)" using assms b by (simp add: add_or_panic_def)
  then have c: "unat (?b + 4096) = 0xFFFFFE0000001000 + n * 40960" using add_or_panic_Done[OF 3] b by simp
  have 4: "add_or_panic (?b + 4096) STACK_SIZE = Done (?b + 4096 + STACK_SIZE)" using assms c by (simp add: add_or_panic_def STACK_SIZE_def)
  then have d: "unat (?b + 4096 + STACK_SIZE) = 0xFFFFFE0000009000 + n * 40960" using add_or_panic_Done[OF 4] c by (simp add: STACK_SIZE_def)
  have "stack_start_virt n = Done (?b + 4096)" by (simp only: stack_start_virt_def 1 2 3 run_bind_simps)
  moreover have "stack_top_virt n = Done (?b + 4096 + STACK_SIZE)" by (simp only: stack_top_virt_def 1 2 3 4 run_bind_simps)
  ultimately show ?thesis using that 4 c d by blast
qed

lemma page_interval: "4096 * a \<le> x \<and> x < 4096 * b \<longleftrightarrow> a \<le> x div 4096 \<and> x div 4096 < (b :: nat)"
  using less_eq_div_iff_mult_less_eq[of 4096 a x] div_less_iff_less_mult[of 4096 x b] by (simp add: mult.commute)

lemma stack_pages_set:
  assumes laws: "stack_laws ops mp alloc" and n: "n \<le> 13421771"
    and b: "unat start = 0xFFFFFE0000001000 + n * 40960" "unat stop = 0xFFFFFE0000009000 + n * 40960"
  obtains pages where "stack_pages mp start stop = Done pages" "distinct pages" "length pages = 8"
    "\<And>p. p \<in> set pages \<Longrightarrow> 4096 dvd unat p \<and> stack_addr p"
    "\<And>v. page_base v \<in> set pages \<longleftrightarrow> unat start \<le> unat v \<and> unat v < unat stop"
proof -
  let ?last = "stop - 1" and ?m = "0xFFFFFE0000001 + n * 10"
  have l: "unat ?last = unat stop - 1" "stack_addr stop" "stack_addr ?last" "1 \<le> stop"
    using b(2) n by (auto simp: stack_addr_def unat_sub word_le_nat_alt)
  have le: "start \<le> ?last" using l(1) b by (simp add: word_le_nat_alt)
  let ?pages = "page_range mp (page_base start) (page_base ?last)"
  have set: "set ?pages = {page_base v |v. start \<le> v \<and> v \<le> ?last}" by (rule stack_lawsD(3)[OF laws le])
  have al: "unat start = 4096 * ?m" "unat stop = 4096 * (?m + 8)" using b by simp_all
  have iv: "unat start \<le> unat v \<and> unat v < unat stop \<longleftrightarrow> ?m \<le> unat v div 4096 \<and> unat v div 4096 < ?m + 8" for v
    unfolding al by (rule page_interval)
  have iw: "start \<le> v \<and> v \<le> ?last \<longleftrightarrow> unat start \<le> unat v \<and> unat v < unat stop" for v
    using l(1) b(2) by (auto simp: word_le_nat_alt)
  have mem: "page_base v \<in> set ?pages \<longleftrightarrow> unat start \<le> unat v \<and> unat v < unat stop" for v
  proof
    assume "page_base v \<in> set ?pages"
    then obtain w where w: "page_base v = page_base w" "unat start \<le> unat w \<and> unat w < unat stop" unfolding set iw by blast
    then have "unat v div 4096 = unat w div 4096" using unat_page(1)[of v] unat_page(1)[of w] by simp
    with w(2) show "unat start \<le> unat v \<and> unat v < unat stop" unfolding iv by simp
  qed (use set iw in blast)
  have props: "4096 dvd unat p \<and> stack_addr p" if "p \<in> set ?pages" for p
  proof -
    from that obtain v where p: "p = page_base v" unfolding set by blast
    with that have "unat start \<le> unat v" "unat v < unat stop" using mem by blast+
    then have "stack_addr v" using b n by (simp add: stack_addr_def)
    with p show ?thesis by (simp add: stack_addr_base)
  qed
  have "set ?pages = (\<lambda>k. of_nat (4096 * (?m + k))) ` {0..<8}"
  proof (intro equalityI subsetI)
    fix p assume "p \<in> set ?pages"
    then obtain v where v: "p = page_base v" "page_base v \<in> set ?pages" unfolding set by blast
    then have m: "?m \<le> unat v div 4096" "unat v div 4096 < ?m + 8" using mem iv by blast+
    have "p = of_nat (unat (page_base v))" by (simp add: v(1))
    also have "unat (page_base v) = 4096 * (?m + (unat v div 4096 - ?m))" using m(1) by (simp add: unat_page)
    finally show "p \<in> (\<lambda>k. of_nat (4096 * (?m + k))) ` {0..<8}" using m by (intro image_eqI[of _ _ "unat v div 4096 - ?m"]) auto
  next
    fix p assume "p \<in> (\<lambda>k. of_nat (4096 * (?m + k)) :: u64) ` {0..<8}"
    then obtain k where k: "p = of_nat (4096 * (?m + k))" "k < 8" by auto
    have u: "unat p = 4096 * (?m + k)" unfolding k(1) by (rule of_nat_inverse[OF refl]) (use n k(2) in simp)
    then have "page_base p = p" by (intro page_base_id) simp
    moreover have "page_base p \<in> set ?pages" unfolding mem u using k(2) b by simp
    ultimately show "p \<in> set ?pages" by simp
  qed
  moreover have "inj_on (\<lambda>k. of_nat (4096 * (?m + k)) :: u64) {0..<8}"
  proof (rule inj_onI)
    fix x y assume a: "x \<in> {0..<8}" "y \<in> {0..<8}" "(of_nat (4096 * (?m + x)) :: u64) = of_nat (4096 * (?m + y))"
    have "4096 * (?m + x) < 2 ^ LENGTH(64)" "4096 * (?m + y) < 2 ^ LENGTH(64)" using a(1,2) n by simp_all
    with a(3) have "4096 * (?m + x) = 4096 * (?m + y)" by (metis of_nat_inverse)
    then show "x = y" by simp
  qed
  ultimately have "card (set ?pages) = 8" by (simp add: card_image)
  moreover have d: "distinct ?pages" by (rule stack_lawsD(2)[OF laws le])
  ultimately have "length ?pages = 8" by (simp add: distinct_card)
  moreover have "stack_pages mp start stop = Done ?pages"
    using stack_lawsD(4)[OF laws l(2,4,3)] stack_lawsD(1)[OF laws] by (simp add: stack_pages_def)
  ultimately show ?thesis using that[OF _ d _ props mem] by blast
qed

text \<open>A page was added to the region: it leads to a frame that was not in use.\<close>

definition page_added ::
  "'e entry_ops \<Rightarrow> ('e, 's) mapper \<Rightarrow> u64 \<Rightarrow> u64 set \<Rightarrow> (u64 \<Rightarrow> bool) \<Rightarrow> (u64 \<Rightarrow> bool) \<Rightarrow> u64 \<Rightarrow> 'e tables \<Rightarrow> 'e tables \<Rightarrow> bool" where
  "page_added ops mp kp ps tk tk' page t t' \<longleftrightarrow> tk \<le> tk' \<and> region_ok ops mp kp ps tk' t'
     \<and> (\<exists>frame. \<not> tk frame \<and> (\<forall>v. stack_addr v \<longrightarrow>
          mp_translate mp kp t' v = (if page_base v = page then Some (frame + page_off v) else mp_translate mp kp t v)))"

definition pages_added ::
  "'e entry_ops \<Rightarrow> ('e, 's) mapper \<Rightarrow> u64 \<Rightarrow> u64 set \<Rightarrow> (u64 \<Rightarrow> bool) \<Rightarrow> (u64 \<Rightarrow> bool) \<Rightarrow> u64 set \<Rightarrow> 'e tables \<Rightarrow> 'e tables \<Rightarrow> bool" where
  "pages_added ops mp kp ps tk tk' pages t t' \<longleftrightarrow> tk \<le> tk' \<and> region_ok ops mp kp ps tk' t'
     \<and> (\<forall>v. stack_addr v \<longrightarrow> page_base v \<notin> pages \<longrightarrow> mp_translate mp kp t' v = mp_translate mp kp t v)
     \<and> (\<forall>v. stack_addr v \<longrightarrow> page_base v \<in> pages \<longrightarrow>
          (\<exists>frame. \<not> tk frame \<and> mp_translate mp kp t' v = Some (frame + page_off v)))"

context frame_pool
begin

text \<open>Mapping one page of the region into the kernel's tables.\<close>

lemma kernel_map:
  assumes law: "stack_map_law ops mp alloc" and ok: "ok s" and r: "region_ok ops mp kp ps (taken s) t"
    and pg: "4096 dvd unat page" "stack_addr page" "mp_translate mp kp t page = None" and cap: "can_take alloc 4 s"
  obtains frame s1 t' s' where "alloc s = Done (Some frame, s1)" "mp_map_to mp kp page frame fl (t, s1) = Done (True, t', s')"
    "phys_frame frame" "ok s'" "taken s \<le> taken s'" "region_ok ops mp kp ps (taken s') t'"
    "\<And>v. stack_addr v \<Longrightarrow> mp_translate mp kp t' v = (if page_base v = page then Some (frame + page_off v) else mp_translate mp kp t v)"
    "\<not> taken s frame" "\<And>b. can_take alloc (4 + b) s \<Longrightarrow> can_take alloc b s'"
proof -
  have "can_take alloc (Suc 3) s" using cap by simp
  then obtain frame s1 where al: "alloc s = Done (Some frame, s1)" and c3: "can_take alloc 3 s1"
    unfolding can_take_Suc by blast
  note fr = pool_fresh[OF ok al] and k1 = pool_keeps[OF ok al]
  have e: "entry_frame ops (t kp 508) \<noteq> None" using r by (simp add: region_ok_def)
  obtain t' s' where mt: "mp_map_to mp kp page frame fl (t, s1) = Done (True, t', s')"
    and mp: "maps_page ops mp alloc kp page frame (t, s1) (t', s')"
    using law pg fr c3 e unfolding stack_map_law_def by blast
  obtain n fs where n: "n \<le> 3" and tk: "take_frames alloc n s1 = Done (fs, s')"
    and eff: "distinct (kernel_tables ops t kp @ frame # fs) \<longrightarrow>
             distinct (kernel_tables ops t' kp)
             \<and> set (kernel_tables ops t' kp) \<subseteq> set (kernel_tables ops t kp) \<union> set fs
             \<and> (\<forall>v. stack_addr v \<longrightarrow> mp_translate mp kp t' v
                  = (if page_base v = page then Some (frame + page_off v) else mp_translate mp kp t v))
             \<and> (\<forall>q. q \<notin> set (kernel_tables ops t kp) \<union> set fs \<longrightarrow> t' q = t q)
             \<and> (\<forall>i<512. entry_frame ops (t' kp i) = entry_frame ops (t kp i))"
    using mp unfolding maps_page_def prod.case by (elim exE conjE) (rule that)
  have p: "ok s'" "taken s1 \<le> taken s'" "distinct fs" "\<forall>f\<in>set fs. \<not> taken s1 f \<and> taken s' f"
    using pool_take[OF _ tk] k1 by auto
  have old: "\<forall>f\<in>set (kernel_tables ops t kp). taken s f" "distinct (kernel_tables ops t kp)" "entry_frame ops (t kp 508) \<noteq> None"
    using r by (auto simp: region_ok_def)
  have "distinct (kernel_tables ops t kp @ frame # fs)" using old p fr k1 by auto
  with eff have eff: "distinct (kernel_tables ops t' kp)"
    "set (kernel_tables ops t' kp) \<subseteq> set (kernel_tables ops t kp) \<union> set fs"
    "\<And>v. stack_addr v \<Longrightarrow> mp_translate mp kp t' v
       = (if page_base v = page then Some (frame + page_off v) else mp_translate mp kp t v)"
    "\<And>q. q \<notin> set (kernel_tables ops t kp) \<union> set fs \<Longrightarrow> t' q = t q"
    "\<And>i. i < 512 \<Longrightarrow> entry_frame ops (t' kp i) = entry_frame ops (t kp i)" by blast+
  note top = eff(5)
  have tr: "mp_translate mp kp t' (page_base v) = (if page_base v = page then Some frame else mp_translate mp kp t (page_base v))"
    if "stack_addr v" for v
    using eff(3)[OF stack_addr_base[OF that]] page_off_base[of page] page_base_id[OF pg(1)] by auto
  have data: "f \<notin> set (kernel_tables ops t kp)" "taken s f" if "stack_addr v" "mp_translate mp kp t (page_base v) = Some f" for v f
    using r that by (auto simp: region_ok_def)
  have inj: "page_base v = page_base v'" if "stack_addr v" "stack_addr v'"
    "mp_translate mp kp t (page_base v) = Some f" "mp_translate mp kp t (page_base v') = Some f" for v v' f
    using r that unfolding region_ok_def by blast
  have tabs: "taken s' f \<and> f \<noteq> frame" if "f \<in> set (kernel_tables ops t' kp)" for f
    using that eff(2) old(1) p(2,4) k1 fr by blast
  have procs: "taken s' q \<and> q \<notin> set (kernel_tables ops t' kp) \<and> t' q = t q" if "q \<in> ps" for q
  proof -
    from that r have q: "taken s q" "q \<notin> set (kernel_tables ops t kp)" by (auto simp: region_ok_def)
    then have "q \<notin> set (kernel_tables ops t kp) \<union> set fs" "taken s' q" using p(2,4) k1 by blast+
    then show ?thesis using eff(2,4) by blast
  qed
  have "region_ok ops mp kp ps (taken s') t'" unfolding region_ok_def
  proof (intro conjI allI impI ballI)
    show "entry_frame ops (t' q i) = entry_frame ops (t' kp i)" if "q \<in> ps" "256 \<le> i" "i < 512" for q i
      using procs[OF that(1)] top r that by (simp add: region_ok_def)
  next
    fix v f assume a: "stack_addr v" "mp_translate mp kp t' (page_base v) = Some f"
    show "taken s' f" using a tr[OF a(1)] data[of v f] fr k1 p(2) by (auto split: if_splits)
    show "f \<notin> set (kernel_tables ops t' kp)"
      using a tr[OF a(1)] data[of v f] tabs[of f] eff(2) p(4) k1 by (auto split: if_splits)
  next
    fix v v' f assume a: "stack_addr v" "stack_addr v'" "mp_translate mp kp t' (page_base v) = Some f"
      "mp_translate mp kp t' (page_base v') = Some f"
    with tr[OF a(1)] tr[OF a(2)] data(2)[of v frame] data(2)[of v' frame] inj[of v v' f] fr
    show "page_base v = page_base v'" by (auto split: if_splits)
  qed (use eff(1) top old(3) tabs procs in auto)
  moreover have "can_take alloc b s'" if "can_take alloc (4 + b) s" for b
  proof -
    have "can_take alloc (Suc (3 + b)) s" using that by simp
    then have "can_take alloc (3 + b) s1" using al unfolding can_take_Suc by simp
    then have "can_take alloc (n + b) s1" by (rule can_take_le) (use n in simp)
    then show ?thesis by (rule can_take_rest[OF _ tk])
  qed
  ultimately show ?thesis using that[OF al mt] fr p k1 eff(3) by (metis order_trans)
qed

text \<open>The two ways a page of a kernel stack is mapped, for a kernel task and for a task of the process with the tables \<open>q\<close>.\<close>

lemma kernel_page_step:
  assumes "stack_laws ops mp alloc" "ok s" "region_ok ops mp kp ps (taken s) t" "4096 dvd unat page" "stack_addr page"
    "mp_translate mp kp t page = None" "can_take alloc 4 s"
  shows "\<exists>t' s'. map_kernel_page mp alloc kp fl page (t, s) = Done (t', s') \<and> ok s'
    \<and> page_added ops mp kp ps (taken s) (taken s') page t t' \<and> (\<forall>b. can_take alloc (4 + b) s \<longrightarrow> can_take alloc b s')"
proof -
  obtain frame s1 t' s' where "alloc s = Done (Some frame, s1)" "mp_map_to mp kp page frame fl (t, s1) = Done (True, t', s')"
    "phys_frame frame" "ok s'" "taken s \<le> taken s'" "region_ok ops mp kp ps (taken s') t'"
    "\<And>v. stack_addr v \<Longrightarrow> mp_translate mp kp t' v = (if page_base v = page then Some (frame + page_off v) else mp_translate mp kp t v)"
    "\<not> taken s frame" "\<And>b. can_take alloc (4 + b) s \<Longrightarrow> can_take alloc b s'"
    using kernel_map[OF stack_lawsD(6)[OF assms(1)] assms(2-)] by metis
  then show ?thesis unfolding page_added_def map_kernel_page_def by (intro exI[of _ t'] exI[of _ s']) auto
qed

lemma stack_page_step:
  assumes laws: "stack_laws ops mp alloc" and q: "q \<in> ps" and "ok s" "region_ok ops mp kp ps (taken s) t" "4096 dvd unat page" "stack_addr page"
    "mp_translate mp kp t page = None" "can_take alloc 4 s"
  shows "\<exists>t' s'. map_stack_page mp alloc kp q page (t, s) = Done (t', s') \<and> ok s'
    \<and> page_added ops mp kp ps (taken s) (taken s') page t t' \<and> (\<forall>b. can_take alloc (4 + b) s \<longrightarrow> can_take alloc b s')"
proof -
  note law = stack_lawsD(6)[OF laws]
  obtain frame s1 t1 s' where k: "alloc s = Done (Some frame, s1)"
    "mp_map_to mp kp page frame (PRESENT OR WRITABLE) (t, s1) = Done (True, t1, s')"
    "phys_frame frame" "ok s'" "taken s \<le> taken s'" "region_ok ops mp kp ps (taken s') t1"
    "\<And>v. stack_addr v \<Longrightarrow> mp_translate mp kp t1 v = (if page_base v = page then Some (frame + page_off v) else mp_translate mp kp t v)"
    "\<not> taken s frame" "\<And>b. can_take alloc (4 + b) s \<Longrightarrow> can_take alloc b s'"
    using kernel_map[OF law assms(3-)] by metis
  have share: "entry_frame ops (t1 q 508) = entry_frame ops (t1 kp 508)" using k(6) q by (auto simp: region_ok_def)
  have "mp_translate mp q t1 page = mp_translate mp kp t1 page" by (rule stack_lawsD(5)[where t = t1 and p = q and q = kp, OF laws assms(6) share])
  then have "mp_translate mp q t1 page \<noteq> None" using k(7)[OF assms(6)] page_base_id[OF assms(5)] by simp
  then obtain t' where m: "mp_map_to mp q page frame (PRESENT OR WRITABLE) (t1, s') = Done (False, t', s')" and w: "same_walks ops mp t1 t'"
    using law assms(5,6) k(3) unfolding stack_map_law_def by blast
  have kt: "kernel_tables ops t' kp = kernel_tables ops t1 kp" by (rule kernel_tables_cong) (use w in \<open>simp add: same_walks_def\<close>)
  have tr: "mp_translate mp kp t' v = mp_translate mp kp t1 v" if "stack_addr v" for v using w that by (simp add: same_walks_def)
  have "region_ok ops mp kp ps (taken s') t'"
    using k(6) w stack_addr_base unfolding region_ok_def kt same_walks_def by (simp add: tr[OF stack_addr_base])
  then have "page_added ops mp kp ps (taken s) (taken s') page t t'"
    unfolding page_added_def using k(5,7,8) tr by auto
  with k(1,2,4,9) m show ?thesis by (simp add: map_stack_page_def)
qed

lemma pages_step:
  assumes step: "\<And>page t s. ok s \<Longrightarrow> region_ok ops mp kp ps (taken s) t \<Longrightarrow> 4096 dvd unat page \<Longrightarrow> stack_addr page
      \<Longrightarrow> mp_translate mp kp t page = None \<Longrightarrow> can_take alloc 4 s \<Longrightarrow> \<exists>t' s'. f page (t, s) = Done (t', s') \<and> ok s'
        \<and> page_added ops mp kp ps (taken s) (taken s') page t t' \<and> (\<forall>b. can_take alloc (4 + b) s \<longrightarrow> can_take alloc b s')"
    and "ok s" "region_ok ops mp kp ps (taken s) t" "distinct pages"
    "\<forall>p\<in>set pages. 4096 dvd unat p \<and> stack_addr p \<and> mp_translate mp kp t p = None" "can_take alloc (4 * length pages) s"
  shows "\<exists>t' s'. run_fold f pages (t, s) = Done (t', s') \<and> ok s' \<and> pages_added ops mp kp ps (taken s) (taken s') (set pages) t t'
    \<and> (\<forall>b. can_take alloc (4 * length pages + b) s \<longrightarrow> can_take alloc b s')"
  using assms(2-)
proof (induction pages arbitrary: t s)
  case Nil
  then show ?case by (simp add: pages_added_def)
next
  case (Cons p pages)
  have p: "4096 dvd unat p" "stack_addr p" "mp_translate mp kp t p = None" "can_take alloc 4 s"
    using Cons.prems(4,5) can_take_le[of alloc "4 * length (p # pages)" s 4] by auto
  obtain t1 s1 where 1: "f p (t, s) = Done (t1, s1)" "ok s1" "page_added ops mp kp ps (taken s) (taken s1) p t t1"
    "\<forall>b. can_take alloc (4 + b) s \<longrightarrow> can_take alloc b s1"
    using step[OF Cons.prems(1,2) p] by blast
  have cap: "can_take alloc (4 * length pages) s1" using 1(4) Cons.prems(5) by simp
  obtain frame where fr: "\<not> taken s frame" "\<And>v. stack_addr v \<Longrightarrow>
      mp_translate mp kp t1 v = (if page_base v = p then Some (frame + page_off v) else mp_translate mp kp t v)"
    using 1(3) unfolding page_added_def by blast
  have mono: "taken s \<le> taken s1" "region_ok ops mp kp ps (taken s1) t1" using 1(3) by (auto simp: page_added_def)
  have "mp_translate mp kp t1 x = None" if "x \<in> set pages" for x
    using that fr(2)[of x] Cons.prems(3,4) page_base_id[of x] by auto
  then have "\<forall>x\<in>set pages. 4096 dvd unat x \<and> stack_addr x \<and> mp_translate mp kp t1 x = None" using Cons.prems(4) by auto
  with Cons.IH[OF 1(2) mono(2) _ _ cap] Cons.prems(3) obtain t' s' where
    2: "run_fold f pages (t1, s1) = Done (t', s')" "ok s'" "pages_added ops mp kp ps (taken s1) (taken s') (set pages) t1 t'"
    "\<forall>b. can_take alloc (4 * length pages + b) s1 \<longrightarrow> can_take alloc b s'" by auto
  have "pages_added ops mp kp ps (taken s) (taken s') (set (p # pages)) t t'"
    unfolding pages_added_def
  proof (intro conjI allI impI)
    show "taken s \<le> taken s'" "region_ok ops mp kp ps (taken s') t'" using 2(3) mono(1) by (auto simp: pages_added_def)
    show "mp_translate mp kp t' v = mp_translate mp kp t v" if "stack_addr v" "page_base v \<notin> set (p # pages)" for v
      using 2(3) that fr(2)[OF that(1)] by (simp add: pages_added_def)
    show "\<exists>frame. \<not> taken s frame \<and> mp_translate mp kp t' v = Some (frame + page_off v)"
      if v: "stack_addr v" "page_base v \<in> set (p # pages)" for v
    proof (cases "page_base v \<in> set pages")
      case True
      then obtain g where "\<not> taken s1 g" "mp_translate mp kp t' v = Some (g + page_off v)"
        using 2(3) v(1) unfolding pages_added_def by blast
      with mono(1) show ?thesis by blast
    next
      case False
      then have "mp_translate mp kp t' v = Some (frame + page_off v)"
        using 2(3) v fr(2)[OF v(1)] by (simp add: pages_added_def)
      with fr(1) show ?thesis by blast
    qed
  qed
  moreover have "can_take alloc b s'" if "can_take alloc (4 * length (p # pages) + b) s" for b
  proof -
    have "can_take alloc (4 + (4 * length pages + b)) s" using that by (simp add: add.assoc)
    then show ?thesis using 1(4) 2(4) by blast
  qed
  ultimately show ?case using 1(1) 2(1,2) by simp
qed

end


section \<open>Creating tasks\<close>

datatype new_task = Kernel_task u64 | User_task nat

definition create_task ::
  "('e, 's) mapper \<Rightarrow> ('s \<Rightarrow> (u64 option \<times> 's) run) \<Rightarrow> u64 \<Rightarrow> new_task \<Rightarrow> ('e, 's) os \<Rightarrow> (task \<times> ('e, 's) os) run" where
  "create_task mp alloc pml4 nt w = (case nt of
       Kernel_task entry \<Rightarrow> task_new mp alloc pml4 entry w
     | User_task c \<Rightarrow> task_new_user mp alloc pml4 c w)"

abbreviation process_table :: "('e, 's) os \<Rightarrow> nat \<Rightarrow> u64" where
  "process_table w c \<equiv> pml4_frame (proc_heap (kern (os_machine w)) c)"

abbreviation next_id :: "('e, 's) os \<Rightarrow> nat" where
  "next_id w \<equiv> next_task_id (kern (os_machine w))"

text \<open>Below the next task's number, everything of the region but the stacks themselves is unmapped (the anchor page, in the
  unused place of task 0, apart); from there on all of it.\<close>

definition gaps :: "('e, 's) mapper \<Rightarrow> u64 \<Rightarrow> nat \<Rightarrow> 'e tables \<Rightarrow> bool" where
  "gaps mp kp n t \<longleftrightarrow> (\<forall>v m r. stack_addr v \<longrightarrow> unat v = 0xFFFFFE0000000000 + m * 40960 + r \<longrightarrow> r < 40960
     \<longrightarrow> n \<le> m \<or> 1 \<le> m \<and> (r < 4096 \<or> 36864 \<le> r) \<longrightarrow> mp_translate mp kp t v = None)"

definition os_ok :: "'e entry_ops \<Rightarrow> ('e, 's) mapper \<Rightarrow> u64 \<Rightarrow> u64 set \<Rightarrow> (u64 \<Rightarrow> bool) \<Rightarrow> ('e, 's) os \<Rightarrow> bool" where
  "os_ok ops mp kp ps tk w \<longleftrightarrow> region_ok ops mp kp ps tk (p_tables (os_space w))
     \<and> gaps mp kp (next_id w) (p_tables (os_space w)) \<and> 1 \<le> next_id w
     \<and> cr3 (kern (os_machine w)) = kp \<and> (\<forall>c<os_procs w. process_table w c \<in> insert kp ps)"

definition valid_new :: "u64 set \<Rightarrow> ('e, 's) os \<Rightarrow> new_task \<Rightarrow> bool" where
  "valid_new ps w nt = (case nt of Kernel_task _ \<Rightarrow> True | User_task c \<Rightarrow> c < os_procs w \<and> process_table w c \<in> ps)"

text \<open>The state after the creation of a task, once its stack is mapped.\<close>

definition created :: "('e, 's) os \<Rightarrow> 'e tables \<times> 's \<Rightarrow> slots \<Rightarrow> nat \<Rightarrow> process_inner \<Rightarrow> nat \<Rightarrow> ('e, 's) os" where
  "created w ts mem c proc procs = \<lparr>os_space = (os_space w)\<lparr>p_tables := fst ts, p_alloc := snd ts\<rparr>,
     os_machine = (os_machine w)\<lparr>slots_of := mem, kern := (kern (os_machine w))\<lparr>next_task_id := (next_id w + 1) mod usize_limit,
       proc_heap := (proc_heap (kern (os_machine w)))(c := add_thread (next_id w) proc)\<rparr>\<rparr>, os_procs = procs\<rparr>"

lemma task_new_run:
  assumes "stack_start_virt (next_id w) = Done start" "add_or_panic start STACK_SIZE = Done stop" "stack_pages mp start stop = Done pages"
    "run_fold (map_kernel_page mp alloc kp (PRESENT OR WRITABLE)) pages (os_tables w) = Done ts"
    "new_kernel_frame stop entry (slots_of (os_machine w)) = (sp, mem)"
  shows "task_new mp alloc kp entry w =
    Done (\<lparr>task_id = next_id w, stack_ptr = sp, kernel_stack_top = stop, task_process = os_procs w, task_state_of = Ready\<rparr>,
          created w ts mem (os_procs w) (kernel_process (cr3 (kern (os_machine w)))) (os_procs w + 1))"
  using assms by (simp add: task_new_def next_task_def task_id_new_def set_tables_def share_process_def update_process_def created_def Let_def)

lemma task_new_user_run:
  assumes "stack_start_virt (next_id w) = Done start" "add_or_panic start STACK_SIZE = Done stop" "stack_pages mp start stop = Done pages"
    "run_fold (map_stack_page mp alloc kp (process_table w c)) pages (os_tables w) = Done ts"
    "new_user_frame stop (proc_heap (kern (os_machine w)) c) (slots_of (os_machine w)) = (sp, mem)"
  shows "task_new_user mp alloc kp c w =
    Done (\<lparr>task_id = next_id w, stack_ptr = sp, kernel_stack_top = stop, task_process = c, task_state_of = Ready\<rparr>,
          created w ts mem c (proc_heap (kern (os_machine w)) c) (os_procs w))"
  using assms by (simp add: task_new_user_def next_task_def task_id_new_def set_tables_def update_process_def created_def Let_def)

lemma gaps_step:
  assumes "gaps mp kp n t" "\<And>v. stack_addr v \<Longrightarrow> \<not> (0xFFFFFE0000001000 + n * 40960 \<le> unat v \<and> unat v < 0xFFFFFE0000009000 + n * 40960)
      \<Longrightarrow> mp_translate mp kp t' v = mp_translate mp kp t v"
  shows "gaps mp kp (Suc n) t'"
  unfolding gaps_def
proof (intro allI impI)
  fix v m r assume a: "stack_addr v" "unat v = 0xFFFFFE0000000000 + m * 40960 + r" "r < 40960" "Suc n \<le> m \<or> 1 \<le> m \<and> (r < 4096 \<or> 36864 \<le> r)"
  have "\<not> (0xFFFFFE0000001000 + n * 40960 \<le> unat v \<and> unat v < 0xFFFFFE0000009000 + n * 40960)"
  proof
    assume c: "0xFFFFFE0000001000 + n * 40960 \<le> unat v \<and> unat v < 0xFFFFFE0000009000 + n * 40960"
    then have "n * 40960 < Suc m * 40960" "m * 40960 < Suc n * 40960" using a(2,3) by auto
    then have "m = n" by simp
    with c a(2,4) show False by auto
  qed
  from assms(2)[OF a(1) this] assms(1) a show "mp_translate mp kp t' v = None"
    unfolding gaps_def by (metis Suc_leD)
qed

context frame_pool
begin

lemma create_task_step:
  assumes laws: "stack_laws ops mp alloc" and inv: "os_ok ops mp kp ps (taken (p_alloc (os_space w))) w" "ok (p_alloc (os_space w))"
    and n: "next_id w \<le> 13421771" and nt: "valid_new ps w nt" and cap: "can_take alloc (32 + b) (p_alloc (os_space w))"
  shows "\<exists>t w'. create_task mp alloc kp nt w = Done (t, w') \<and> task_id t = next_id w \<and> stack_ok t \<and> next_id w' = next_id w + 1
    \<and> ok (p_alloc (os_space w')) \<and> os_ok ops mp kp ps (taken (p_alloc (os_space w'))) w' \<and> can_take alloc b (p_alloc (os_space w'))
    \<and> os_procs w \<le> os_procs w' \<and> (\<forall>c<os_procs w. process_table w' c = process_table w c) \<and> task_process t < os_procs w'
    \<and> (\<forall>v. stack_addr v \<longrightarrow> (if v \<in> own_stack t then mp_translate mp kp (p_tables (os_space w')) v \<noteq> None
         else mp_translate mp kp (p_tables (os_space w')) v = mp_translate mp kp (p_tables (os_space w)) v))"
proof -
  let ?n = "next_id w" and ?t = "p_tables (os_space w)" and ?s = "p_alloc (os_space w)"
  let ?f = "case nt of Kernel_task _ \<Rightarrow> map_kernel_page mp alloc kp (PRESENT OR WRITABLE) | User_task c \<Rightarrow> map_stack_page mp alloc kp (process_table w c)"
  have o: "region_ok ops mp kp ps (taken ?s) ?t" "gaps mp kp ?n ?t" "1 \<le> ?n" "cr3 (kern (os_machine w)) = kp"
    "\<forall>c<os_procs w. process_table w c \<in> insert kp ps" using inv(1) by (auto simp: os_ok_def)
  obtain start stop where st: "stack_start_virt ?n = Done start" "add_or_panic start STACK_SIZE = Done stop"
    "unat start = 0xFFFFFE0000001000 + ?n * 40960" "unat stop = 0xFFFFFE0000009000 + ?n * 40960" "stack_top_virt ?n = Done stop"
    by (rule stack_bounds[OF n])
  obtain pages where pg: "stack_pages mp start stop = Done pages" "distinct pages" "length pages = 8"
    "\<And>p. p \<in> set pages \<Longrightarrow> 4096 dvd unat p \<and> stack_addr p"
    "\<And>v. page_base v \<in> set pages \<longleftrightarrow> unat start \<le> unat v \<and> unat v < unat stop"
    by (rule stack_pages_set[OF laws n st(3,4)], rule that; blast)
  have none: "mp_translate mp kp ?t p = None" if "p \<in> set pages" for p
  proof -
    have p: "stack_addr p" "unat start \<le> unat p" "unat p < unat stop" using pg(4)[OF that] pg(5)[of p] that page_base_id[of p] by simp_all
    then have "unat p = 0xFFFFFE0000000000 + ?n * 40960 + (unat p - (0xFFFFFE0000000000 + ?n * 40960))"
      "unat p - (0xFFFFFE0000000000 + ?n * 40960) < 40960" using st(3,4) by auto
    with o(2) p(1) show ?thesis unfolding gaps_def by blast
  qed
  have c32: "can_take alloc (4 * length pages) ?s" using can_take_le[OF cap, of "4 * length pages"] pg(3) by simp
  have step: "ok s \<Longrightarrow> region_ok ops mp kp ps (taken s) t \<Longrightarrow> 4096 dvd unat page \<Longrightarrow> stack_addr page
      \<Longrightarrow> mp_translate mp kp t page = None \<Longrightarrow> can_take alloc 4 s \<Longrightarrow> \<exists>t' s'. ?f page (t, s) = Done (t', s') \<and> ok s'
        \<and> page_added ops mp kp ps (taken s) (taken s') page t t' \<and> (\<forall>b. can_take alloc (4 + b) s \<longrightarrow> can_take alloc b s')" for page t s
    using kernel_page_step[OF laws] stack_page_step[OF laws, of "process_table w _" ps] nt by (cases nt) (auto simp: valid_new_def)
  have all: "\<forall>p\<in>set pages. 4096 dvd unat p \<and> stack_addr p \<and> mp_translate mp kp ?t p = None" using pg(4) none by blast
  from pages_step[of ops mp kp ps ?f, OF step inv(2) o(1) pg(2) all c32] obtain t' s' where
    r: "run_fold ?f pages (?t, ?s) = Done (t', s')" "ok s'" "pages_added ops mp kp ps (taken ?s) (taken s') (set pages) ?t t'"
    "\<forall>b. can_take alloc (4 * length pages + b) ?s \<longrightarrow> can_take alloc b s'" by blast
  have cb: "can_take alloc b s'" using r(4) cap pg(3) by simp
  have tr: "mp_translate mp kp t' v = mp_translate mp kp ?t v"
    if "stack_addr v" "\<not> (unat start \<le> unat v \<and> unat v < unat stop)" for v
    using r(3) that pg(5) by (simp add: pages_added_def)
  have tr': "mp_translate mp kp t' v \<noteq> None" if "stack_addr v" "unat start \<le> unat v \<and> unat v < unat stop" for v
    using r(3) that pg(5) unfolding pages_added_def by blast
  have g: "gaps mp kp (Suc ?n) t'" by (rule gaps_step[OF o(2)]) (use tr st(3,4) in auto)
  have reg: "region_ok ops mp kp ps (taken s') t'" using r(3) by (simp add: pages_added_def)
  have nx: "(?n + 1) mod usize_limit = ?n + 1" "?n < usize_limit" using n by simp_all
  obtain sp mem c w' where fin: "create_task mp alloc kp nt w = Done (\<lparr>task_id = ?n, stack_ptr = sp, kernel_stack_top = stop, task_process = c, task_state_of = Ready\<rparr>, w')"
    "os_space w' = (os_space w)\<lparr>p_tables := t', p_alloc := s'\<rparr>" "next_id w' = ?n + 1" "cr3 (kern (os_machine w')) = kp"
    "os_procs w \<le> os_procs w'" "c < os_procs w'" "\<forall>c<os_procs w. process_table w' c = process_table w c"
    "\<forall>c<os_procs w'. process_table w' c \<in> insert kp ps"
  proof (cases nt)
    case (Kernel_task entry)
    obtain sp mem where f: "new_kernel_frame stop entry (slots_of (os_machine w)) = (sp, mem)" by (cases "new_kernel_frame stop entry (slots_of (os_machine w))")
    have "create_task mp alloc kp nt w = Done (\<lparr>task_id = ?n, stack_ptr = sp, kernel_stack_top = stop, task_process = os_procs w, task_state_of = Ready\<rparr>,
        created w (t', s') mem (os_procs w) (kernel_process kp) (os_procs w + 1))"
      using task_new_run[OF st(1,2) pg(1) _ f] r(1) Kernel_task o(4) by (simp add: create_task_def)
    then show ?thesis using nx o(4,5) by (elim that) (auto simp: created_def kernel_process_def add_thread_def less_Suc_eq)
  next
    case (User_task c)
    obtain sp mem where f: "new_user_frame stop (proc_heap (kern (os_machine w)) c) (slots_of (os_machine w)) = (sp, mem)"
      by (cases "new_user_frame stop (proc_heap (kern (os_machine w)) c) (slots_of (os_machine w))")
    have "create_task mp alloc kp nt w = Done (\<lparr>task_id = ?n, stack_ptr = sp, kernel_stack_top = stop, task_process = c, task_state_of = Ready\<rparr>,
        created w (t', s') mem c (proc_heap (kern (os_machine w)) c) (os_procs w))"
      using task_new_user_run[OF st(1,2) pg(1) _ f] r(1) User_task by (simp add: create_task_def)
    then show ?thesis using nx o(4,5) nt User_task by (elim that) (auto simp: created_def add_thread_def valid_new_def)
  qed
  let ?task = "\<lparr>task_id = ?n, stack_ptr = sp, kernel_stack_top = stop, task_process = c, task_state_of = Ready\<rparr>"
  have own: "v \<in> own_stack ?task \<longleftrightarrow> unat start \<le> unat v \<and> unat v < unat stop" for v
    using st(3,4) by (simp add: own_stack_def)
  have "stack_ok ?task" using st(5) nx(2) by (simp add: stack_ok_def)
  moreover have "os_ok ops mp kp ps (taken s') w'" using reg g fin(2-4,8) o(3) by (simp add: os_ok_def)
  moreover have "if v \<in> own_stack ?task then mp_translate mp kp t' v \<noteq> None else mp_translate mp kp t' v = mp_translate mp kp ?t v"
    if "stack_addr v" for v using tr[OF that] tr'[OF that] own by simp
  ultimately show ?thesis using fin r(2) cb by (intro exI[of _ ?task] exI[of _ w']) simp
qed

end


section \<open>Creation refines the system's step\<close>

text \<open>Creating a task and adding it to the queue is the step \<open>spawns\<close> of the machine, after the task's process was entered
  into the heap.\<close>

definition spawn_task ::
  "('e, 's) mapper \<Rightarrow> ('s \<Rightarrow> (u64 option \<times> 's) run) \<Rightarrow> u64 \<Rightarrow> new_task \<Rightarrow> ('e, 's) os \<Rightarrow> ('e, 's) os run" where
  "spawn_task mp alloc pml4 nt w = run_bind (create_task mp alloc pml4 nt w) (\<lambda>(t, w). queue_task t w)"

lemma stack_top_start: "stack_top_virt n = run_bind (stack_start_virt n) (\<lambda>start. add_or_panic start STACK_SIZE)"
  by (simp add: stack_top_virt_def stack_start_virt_def run_bind_assoc)

lemma create_task_form:
  assumes "create_task mp alloc kp nt w = Done (t, w1)"
  shows "\<exists>mem ts c proc procs. w1 = created w ts mem c proc procs \<and> task_id t = next_id w \<and> task_state_of t = Ready
    \<and> task_process t = c \<and> stack_top_virt (next_id w) = Done (kernel_stack_top t)
    \<and> ((\<exists>entry. nt = Kernel_task entry \<and> new_kernel_frame (kernel_stack_top t) entry (slots_of (os_machine w)) = (stack_ptr t, mem)
          \<and> c = os_procs w \<and> procs = os_procs w + 1 \<and> proc = kernel_process (cr3 (kern (os_machine w))))
       \<or> nt = User_task c \<and> proc = proc_heap (kern (os_machine w)) c \<and> procs = os_procs w
          \<and> new_user_frame (kernel_stack_top t) proc (slots_of (os_machine w)) = (stack_ptr t, mem))"
proof (cases nt)
  case (Kernel_task entry)
  with assms obtain start stop pages ts where a: "stack_start_virt (next_id w) = Done start" "add_or_panic start STACK_SIZE = Done stop"
    "stack_pages mp start stop = Done pages"
    "run_fold (map_kernel_page mp alloc kp (PRESENT OR WRITABLE)) pages (os_tables w) = Done ts"
    by (auto simp: create_task_def task_new_def next_task_def task_id_new_def run_bind_eq_Done Let_def)
  obtain sp mem where f: "new_kernel_frame stop entry (slots_of (os_machine w)) = (sp, mem)" by (cases "new_kernel_frame stop entry (slots_of (os_machine w))")
  from task_new_run[OF a f] assms Kernel_task have "t = \<lparr>task_id = next_id w, stack_ptr = sp, kernel_stack_top = stop, task_process = os_procs w, task_state_of = Ready\<rparr>"
    "w1 = created w ts mem (os_procs w) (kernel_process (cr3 (kern (os_machine w)))) (os_procs w + 1)" by (simp_all add: create_task_def)
  with a f Kernel_task show ?thesis by (cases ts) (auto simp: stack_top_start)
next
  case (User_task c)
  with assms obtain start stop pages ts where a: "stack_start_virt (next_id w) = Done start" "add_or_panic start STACK_SIZE = Done stop"
    "stack_pages mp start stop = Done pages"
    "run_fold (map_stack_page mp alloc kp (process_table w c)) pages (os_tables w) = Done ts"
    by (auto simp: create_task_def task_new_user_def next_task_def task_id_new_def run_bind_eq_Done Let_def)
  obtain sp mem where f: "new_user_frame stop (proc_heap (kern (os_machine w)) c) (slots_of (os_machine w)) = (sp, mem)"
    by (cases "new_user_frame stop (proc_heap (kern (os_machine w)) c) (slots_of (os_machine w))")
  from task_new_user_run[OF a f] assms User_task have "t = \<lparr>task_id = next_id w, stack_ptr = sp, kernel_stack_top = stop, task_process = c, task_state_of = Ready\<rparr>"
    "w1 = created w ts mem c (proc_heap (kern (os_machine w)) c) (os_procs w)" by (simp_all add: create_task_def)
  with a f User_task show ?thesis by (cases ts) (auto simp: stack_top_start)
qed

definition with_heap :: "(nat \<Rightarrow> process_inner) \<Rightarrow> machine \<Rightarrow> machine" where
  "with_heap ph m = m\<lparr>kern := (kern m)\<lparr>proc_heap := ph\<rparr>\<rparr>"

lemma spawn_task_spawns:
  assumes "create_task mp alloc kp nt w = Done (t, w1)" "queue_task t w1 = Done w2"
  shows "spawns t (with_heap (proc_heap (kern (os_machine w2))) (os_machine w)) (os_machine w2)"
    "tasks (sched (kern (os_machine w2))) = tasks (sched (kern (os_machine w))) @ [t]"
    "current_task (sched (kern (os_machine w2))) = current_task (sched (kern (os_machine w)))"
    "gs_kernel (os_machine w2) = gs_kernel (os_machine w)"
    "w2 = w1\<lparr>os_machine := os_machine w2\<rparr>" "proc_heap (kern (os_machine w2)) = proc_heap (kern (os_machine w1))"
    "next_id w2 = next_id w1" "cr3 (kern (os_machine w2)) = cr3 (kern (os_machine w1))"
proof -
  from create_task_form[OF assms(1)] obtain mem ts c proc procs where f: "w1 = created w ts mem c proc procs"
    "task_id t = next_id w" "task_state_of t = Ready" "stack_top_virt (next_id w) = Done (kernel_stack_top t)"
    "(\<exists>entry. new_kernel_frame (kernel_stack_top t) entry (slots_of (os_machine w)) = (stack_ptr t, mem))
       \<or> new_user_frame (kernel_stack_top t) proc (slots_of (os_machine w)) = (stack_ptr t, mem)" by blast
  from assms(2) obtain k where k: "add_task t (kern (os_machine w1)) = Done k" "w2 = w1\<lparr>os_machine := (os_machine w1)\<lparr>kern := k\<rparr>\<rparr>"
    by (auto simp: queue_task_def run_bind_eq_Done)
  let ?m = "with_heap (proc_heap (kern (os_machine w2))) (os_machine w)"
  have heap: "proc_heap k = proc_heap (kern (os_machine w1))" using k(1) by (auto simp: add_task_def run_bind_eq_Done)
  have "kern (os_machine w1) = snd (task_id_new (kern ?m))" using f(1) k(2) heap by (simp add: created_def with_heap_def task_id_new_def)
  then have "task_id_new (kern ?m) = (task_id t, kern (os_machine w1))" using f(2) by (simp add: with_heap_def task_id_new_def)
  then have "sched_step (Add t) (kern ?m) k" using f(3) k(1) by (auto simp: sched_step_simps)
  then show "spawns t ?m (os_machine w2)" using f k(2) unfolding spawns_def by (auto simp: created_def with_heap_def)
  show "tasks (sched (kern (os_machine w2))) = tasks (sched (kern (os_machine w))) @ [t]"
    "current_task (sched (kern (os_machine w2))) = current_task (sched (kern (os_machine w)))"
    "gs_kernel (os_machine w2) = gs_kernel (os_machine w)" "next_id w2 = next_id w1" "cr3 (kern (os_machine w2)) = cr3 (kern (os_machine w1))"
    using k f(1) by (auto simp: add_task_def run_bind_eq_Done push_back_def created_def)
  show "w2 = w1\<lparr>os_machine := os_machine w2\<rparr>" "proc_heap (kern (os_machine w2)) = proc_heap (kern (os_machine w1))" using k(2) heap by simp_all
qed

lemma live_with_heap: "live (k\<lparr>proc_heap := ph\<rparr>) = live k"
  by (simp add: live_def split: option.splits)

lemma ready_with_heap [simp]: "ready_inv (with_heap ph m) = ready_inv m" "slots_of (with_heap ph m) = slots_of m"
  "sched (kern (with_heap ph m)) = sched (kern m)"
  by (simp_all add: ready_inv_def with_heap_def queue_inv_def live_with_heap)

end
