(* ===== verification/Kernel_Stacks.thy ===== *)
theory Kernel_Stacks
  imports Kernel_Space Process_Props
begin

text \<open>
  The kernel stacks of tasks: each is mapped in the address space its task runs in, stacks of different tasks share no frame, and
  there is unmapped memory on both sides of each.
\<close>


section \<open>Creating several tasks\<close>

definition stacks_ok :: "('e, 's) mapper \<Rightarrow> u64 \<Rightarrow> ('e, 's) os \<Rightarrow> bool" where
  "stacks_ok mp kp w \<longleftrightarrow> (\<forall>t\<in>set (tasks (sched (kern (os_machine w)))).
     1 \<le> task_id t \<and> task_id t < next_id w \<and> task_process t < os_procs w
     \<and> (\<forall>v\<in>own_stack t. stack_addr v \<and> mp_translate mp kp (p_tables (os_space w)) v \<noteq> None))"

lemma own_stack_addr: "stack_ok t \<Longrightarrow> task_id t \<le> 13421771 \<Longrightarrow> v \<in> own_stack t \<Longrightarrow> stack_addr v"
  using stack_ok_top[of t] by (auto simp: own_stack_def stack_addr_def)

lemma queue_count: "queue_inv k \<Longrightarrow> 1 \<le> next_task_id k \<Longrightarrow> next_task_id k = task_count (sched k) + 1"
  by (cases "task_count (sched k) + 1 = usize_limit") (auto simp: queue_inv_def)

lemma queue_task_returns:
  assumes "queue_inv k" "1 \<le> next_task_id k" "next_task_id k \<le> 13421771" "sched (kern (os_machine w)) = sched k"
  shows "\<exists>w'. queue_task t w = Done w'"
  using queue_count[OF assms(1,2)] assms(3,4) by (simp add: queue_task_def add_task_def usize_add_def)

context frame_pool
begin

lemma spawn_step:
  assumes laws: "stack_laws ops mp alloc" and inv: "os_ok ops mp kp ps (taken (p_alloc (os_space w))) w" "ok (p_alloc (os_space w))"
    and ready: "ready_inv (os_machine w)" "stacks_ok mp kp w" and n: "next_id w \<le> 13421771" and nt: "valid_new ps w nt"
    and cap: "can_take alloc (32 + b) (p_alloc (os_space w))"
  shows "\<exists>t w'. spawn_task mp alloc kp nt w = Done w' \<and> ok (p_alloc (os_space w')) \<and> os_ok ops mp kp ps (taken (p_alloc (os_space w'))) w'
    \<and> ready_inv (os_machine w') \<and> stacks_ok mp kp w' \<and> next_id w' = next_id w + 1 \<and> can_take alloc b (p_alloc (os_space w'))
    \<and> os_procs w \<le> os_procs w' \<and> (\<forall>c<os_procs w. process_table w' c = process_table w c)
    \<and> tasks (sched (kern (os_machine w'))) = tasks (sched (kern (os_machine w))) @ [t]"
proof -
  obtain t w1 where c: "create_task mp alloc kp nt w = Done (t, w1)" "task_id t = next_id w" "stack_ok t" "next_id w1 = next_id w + 1"
    "ok (p_alloc (os_space w1))" "os_ok ops mp kp ps (taken (p_alloc (os_space w1))) w1" "can_take alloc b (p_alloc (os_space w1))"
    "os_procs w \<le> os_procs w1" "\<forall>c<os_procs w. process_table w1 c = process_table w c" "task_process t < os_procs w1"
    "\<And>v. stack_addr v \<Longrightarrow> if v \<in> own_stack t then mp_translate mp kp (p_tables (os_space w1)) v \<noteq> None
         else mp_translate mp kp (p_tables (os_space w1)) v = mp_translate mp kp (p_tables (os_space w)) v"
    using create_task_step[OF laws inv n nt cap] by blast
  have one: "1 \<le> next_id w" using inv(1) by (simp add: os_ok_def)
  have q: "queue_inv (kern (os_machine w))" using ready(1) by (simp add: ready_inv_def)
  from create_task_form[OF c(1)] have "sched (kern (os_machine w1)) = sched (kern (os_machine w))" by (auto simp: created_def)
  then obtain w2 where w2: "queue_task t w1 = Done w2" using queue_task_returns[OF q one n] by blast
  note s = spawn_task_spawns[OF c(1) w2]
  have sp: "os_space w2 = os_space w1" "os_procs w2 = os_procs w1" using s(5) by (metis os.select_convs(1) os.select_convs(3) os.surjective os.update_convs(2))+
  have r: "ready_inv (os_machine w2)" using spawn_ready(1)[OF _ s(1)] ready(1) by simp
  have o: "os_ok ops mp kp ps (taken (p_alloc (os_space w2))) w2" using c(6) sp s(6-8) by (simp add: os_ok_def)
  have "stacks_ok mp kp w2" unfolding stacks_ok_def s(2)
  proof (intro ballI)
    fix x assume "x \<in> set (tasks (sched (kern (os_machine w))) @ [t])"
    then consider "x = t" | "x \<in> set (tasks (sched (kern (os_machine w))))" by auto
    then show "1 \<le> task_id x \<and> task_id x < next_id w2 \<and> task_process x < os_procs w2
     \<and> (\<forall>v\<in>own_stack x. stack_addr v \<and> mp_translate mp kp (p_tables (os_space w2)) v \<noteq> None)"
    proof cases
      case 1
      have "stack_addr v \<and> mp_translate mp kp (p_tables (os_space w1)) v \<noteq> None" if "v \<in> own_stack t" for v
        using own_stack_addr[OF c(3) _ that] n c(2) c(11)[of v] that by simp
      with 1 show ?thesis using c(2,4,10) one s(7) sp by simp
    next
      case 2
      with ready(2) have x: "1 \<le> task_id x" "task_id x < next_id w" "task_process x < os_procs w"
        "\<forall>v\<in>own_stack x. stack_addr v \<and> mp_translate mp kp (p_tables (os_space w)) v \<noteq> None" by (auto simp: stacks_ok_def)
      have "mp_translate mp kp (p_tables (os_space w1)) v \<noteq> None" if "stack_addr v" "mp_translate mp kp (p_tables (os_space w)) v \<noteq> None" for v
        using c(11)[OF that(1)] that(2) by (simp split: if_splits)
      with x show ?thesis using c(4,8) s(7) sp by auto
    qed
  qed
  with c(1,4,5,7-9) w2 s(2,6,7) sp r o show ?thesis
    by (intro exI[of _ t] exI[of _ w2]) (simp add: spawn_task_def)
qed

lemma spawn_all:
  assumes laws: "stack_laws ops mp alloc"
  shows "os_ok ops mp kp ps (taken (p_alloc (os_space w))) w \<Longrightarrow> ok (p_alloc (os_space w)) \<Longrightarrow> ready_inv (os_machine w) \<Longrightarrow> stacks_ok mp kp w
    \<Longrightarrow> next_id w + length nts \<le> 13421772 \<Longrightarrow> \<forall>nt\<in>set nts. valid_new ps w nt \<Longrightarrow> can_take alloc (32 * length nts) (p_alloc (os_space w))
    \<Longrightarrow> \<exists>w'. run_fold (spawn_task mp alloc kp) nts w = Done w' \<and> os_ok ops mp kp ps (taken (p_alloc (os_space w'))) w'
      \<and> ready_inv (os_machine w') \<and> stacks_ok mp kp w'
      \<and> length (tasks (sched (kern (os_machine w')))) = length (tasks (sched (kern (os_machine w)))) + length nts"
proof (induction nts arbitrary: w)
  case (Cons nt nts)
  have cap: "can_take alloc (32 + 32 * length nts) (p_alloc (os_space w))" using Cons.prems(7) by simp
  have n: "next_id w \<le> 13421771" using Cons.prems(5) by simp
  have v: "valid_new ps w nt" using Cons.prems(6) by simp
  obtain t w1 where s: "spawn_task mp alloc kp nt w = Done w1" "ok (p_alloc (os_space w1))" "os_ok ops mp kp ps (taken (p_alloc (os_space w1))) w1"
    "ready_inv (os_machine w1)" "stacks_ok mp kp w1" "next_id w1 = next_id w + 1" "can_take alloc (32 * length nts) (p_alloc (os_space w1))"
    "os_procs w \<le> os_procs w1" "\<forall>c<os_procs w. process_table w1 c = process_table w c"
    "tasks (sched (kern (os_machine w1))) = tasks (sched (kern (os_machine w))) @ [t]"
    using spawn_step[OF laws Cons.prems(1-4) n v cap] by blast
  have "valid_new ps w1 x" if "x \<in> set nts" for x
    using Cons.prems(6) that s(8,9) by (auto simp: valid_new_def split: new_task.splits)
  with Cons.IH[OF s(3,2,4,5) _ _ s(7)] Cons.prems(5) s(6) obtain w' where
    "run_fold (spawn_task mp alloc kp) nts w1 = Done w'" "os_ok ops mp kp ps (taken (p_alloc (os_space w'))) w'"
    "ready_inv (os_machine w')" "stacks_ok mp kp w'"
    "length (tasks (sched (kern (os_machine w')))) = length (tasks (sched (kern (os_machine w1)))) + length nts" by auto
  with s(1,10) show ?case by simp
qed simp

end


section \<open>The stacks\<close>



text \<open>A mapper for the witness, with two levels: an entry of the top-level table leads to a table that has an entry per page.\<close>

definition share_entry :: "u64 option entry_ops" where
  "share_entry = \<lparr>is_unused = (\<lambda>e. e = None), entry_flags = (\<lambda>_. 0), set_flags = (\<lambda>_ e. e), set_frame = (\<lambda>f _. Some f),
     entry_frame = (\<lambda>e. e), zero_entry = None\<rparr>"

definition share_mapper :: "(u64 option, frame_allocator) mapper" where
  "share_mapper = \<lparr>
     mp_translate = (\<lambda>pml4 t v. case t pml4 508 of None \<Rightarrow> None | Some f \<Rightarrow> map_option (\<lambda>g. g + page_off v) (t f (unat v div 4096))),
     mp_map_to = (\<lambda>pml4 page frame flags (t, s). case t pml4 508 of
         None \<Rightarrow> Done (False, t, s)
       | Some f \<Rightarrow> if t f (unat page div 4096) = None then Done (True, write_entry f (unat page div 4096) (Some frame) t, s)
                   else Done (False, t, s)),
     va_new = Done, va_add = (\<lambda>a n. Done (a + n)), va_sub = (\<lambda>a n. Done (a - n)),
     page_of = page_base,
     page_range = (\<lambda>a b. map (\<lambda>k. a + of_nat (4096 * k)) [0..<(unat b - unat a) div 4096 + 1]),
     p_index = (\<lambda>_. p4_index)\<rparr>"

lemma share_sel [simp]:
  "mp_translate share_mapper pml4 t v = (case t pml4 508 of None \<Rightarrow> None | Some f \<Rightarrow> map_option (\<lambda>g. g + page_off v) (t f (unat v div 4096)))"
  "mp_map_to share_mapper pml4 page frame flags (t, s) = (case t pml4 508 of
         None \<Rightarrow> Done (False, t, s)
       | Some f \<Rightarrow> if t f (unat page div 4096) = None then Done (True, write_entry f (unat page div 4096) (Some frame) t, s)
                   else Done (False, t, s))"
  "va_sub share_mapper a n = Done (a - n)" "page_of share_mapper = page_base"
  "page_range share_mapper a b = map (\<lambda>k. a + of_nat (4096 * k)) [0..<(unat b - unat a) div 4096 + 1]"
  "entry_frame share_entry e = e"
  by (simp_all add: share_mapper_def share_entry_def)

lemma share_maps:
  assumes "t pml4 508 = Some f" "t f (unat page div 4096) = None" "4096 dvd unat page" "stack_addr page"
  shows "maps_page share_entry share_mapper alloc pml4 page frame (t, s) (write_entry f (unat page div 4096) (Some frame) t, s)"
proof -
  let ?t = "write_entry f (unat page div 4096) (Some frame) t"
  have big: "512 \<le> unat page div 4096" using div_le_mono[of "0xFFFFFE0000000000" "unat page" 4096] assms(4) by (simp add: stack_addr_def)
  have row: "?t g i = t g i" if "i < 512" for g i using that big by (simp add: write_entry_def)
  have "table_list share_entry ?t 3 (?t pml4 i) = table_list share_entry t 3 (t pml4 i)" if "i < 512" for i
    by (rule table_list_cong) (use row that in auto)
  then have kt: "kernel_tables share_entry ?t pml4 = kernel_tables share_entry t pml4"
    unfolding kernel_tables_def by (intro arg_cong2[where f = Cons] arg_cong[of _ _ concat] map_cong) (auto simp del: upt_rec_numeral)
  have "f \<in> set (table_list share_entry t 3 (t pml4 508))" using assms(1) by (simp add: numeral_3_eq_3 del: upt_rec_numeral)
  then have mem: "f \<in> set (kernel_tables share_entry t pml4)" unfolding kernel_tables_def by (force simp del: upt_rec_numeral)
  have same: "unat v div 4096 = unat page div 4096 \<longleftrightarrow> page_base v = page" for v
    using unat_page(1)[of v] assms(3) by (auto simp: word_unat_eq_iff)
  have tr: "mp_translate share_mapper pml4 ?t v = (if page_base v = page then Some (frame + page_off v) else mp_translate share_mapper pml4 t v)" for v
    using row[of 508 pml4] assms(1) same[of v] by (auto simp: write_entry_def)
  have keep: "?t q = t q" if "q \<notin> set (kernel_tables share_entry t pml4) \<union> set []" for q
    using that mem by (cases "q = f") (auto simp: write_entry_def)
  show ?thesis unfolding maps_page_def prod.case
    by (rule exI[of _ 0], rule exI[of _ "[]"]) (use kt tr keep row in simp)
qed

lemma share_page_range:
  assumes "a \<le> b"
  shows "distinct (page_range share_mapper (page_base a) (page_base b))"
    "set (page_range share_mapper (page_base a) (page_base b)) = {page_base v |v. a \<le> v \<and> v \<le> b}"
proof -
  show "set (page_range share_mapper (page_base a) (page_base b)) = {page_base v |v. a \<le> v \<and> v \<le> b}"
    using list_page_range[OF assms] by (simp add: list_mapper_def)
  let ?n = "(unat (page_base b) - unat (page_base a)) div 4096 + 1"
  have "unat (page_base b) < usize_limit" by (rule unat_u64_limit)
  then have "4096 * k < usize_limit" if "k < ?n" for k using that by linarith
  then have small: "4096 * k < 2 ^ LENGTH(64)" if "k < ?n" for k using that by simp
  have inj: "k = k'" if "k < ?n" "k' < ?n" "(of_nat (4096 * k) :: u64) = of_nat (4096 * k')" for k k'
  proof -
    have "4096 * k = 4096 * k'" using small[OF that(1)] small[OF that(2)] that(3) by (metis of_nat_inverse)
    then show ?thesis by simp
  qed
  show "distinct (page_range share_mapper (page_base a) (page_base b))" unfolding share_sel(5) distinct_map
    by (intro conjI distinct_upt inj_onI inj) auto
qed

lemma share_laws: "stack_laws share_entry share_mapper alloc"
proof -
  have "stack_map_law share_entry share_mapper alloc" unfolding stack_map_law_def
  proof (intro allI impI conjI)
    fix pml4 page frame fl and t :: "u64 option tables" and s
    assume a: "4096 dvd unat page" "stack_addr page"
    {
      assume "mp_translate share_mapper pml4 t page \<noteq> None"
      then show "\<exists>t'. mp_map_to share_mapper pml4 page frame fl (t, s) = Done (False, t', s) \<and> same_walks share_entry share_mapper t t'"
        by (intro exI[of _ t]) (auto simp: same_walks_def split: option.splits)
    next
      assume "mp_translate share_mapper pml4 t page = None" "entry_frame share_entry (t pml4 508) \<noteq> None"
      then obtain f where f: "t pml4 508 = Some f" "t f (unat page div 4096) = None" by auto
      with share_maps[OF f a, of alloc frame s]
      show "\<exists>t' s'. mp_map_to share_mapper pml4 page frame fl (t, s) = Done (True, t', s')
          \<and> maps_page share_entry share_mapper alloc pml4 page frame (t, s) (t', s')" by auto
    }
  qed
  then show ?thesis unfolding stack_laws_def using share_page_range by auto
qed

text \<open>A kernel table and one process that shares its kernel half.\<close>

definition share_tables :: "u64 option tables" where
  "share_tables = (\<lambda>f i. if (f = 0x1000 \<or> f = 0x2000) \<and> i = 508 then Some 0x3000 else None)"

definition demo_os :: "(u64 option, frame_allocator) os" where
  "demo_os = \<lparr>os_space = \<lparr>p_tables = share_tables, p_alloc = demo_fa 0x200000, p_phys = (\<lambda>_. 0), next_process_id = 2\<rparr>,
     os_machine = demo_machine\<lparr>kern := \<lparr>sched = scheduler_new, uptime_ticks = 0, cr3 = 0x1000, tss_rsp0 = 0, per_cpu_stack = 0,
       proc_heap = (\<lambda>_. \<lparr>proc_id = 1, pml4_frame = 0x2000, entry_point = 0x400000, proc_stack_top = 0x700000008000, threads = []\<rparr>),
       next_task_id = 1\<rparr>\<rparr>, os_procs = 1\<rparr>"

lemma demo_can_take:
  "0x200000 \<le> n \<Longrightarrow> 4096 dvd unat n \<Longrightarrow> unat n + 4096 * k \<le> 0x280000 \<Longrightarrow> can_take (allocate_frame x86_phys demo_map_memory) k (demo_fa n)"
proof (induction k arbitrary: n)
  case (Suc k)
  have u: "unat (n + 0x1000) = unat n + 4096" using Suc.prems(3) unat_add_no_wrap[of n "0x1000"] by simp
  have "n < 0x280000" using Suc.prems(3) by (simp add: word_less_nat_alt)
  note d = demo_frame[OF Suc.prems(1) this Suc.prems(2)]
  have "can_take (allocate_frame x86_phys demo_map_memory) k (demo_fa (n + 0x1000))"
    using Suc.prems u by (intro Suc.IH) (simp_all add: word_le_nat_alt)
  with d show ?case by simp
qed simp

lemma share_kernel_tables: "kernel_tables share_entry share_tables 0x1000 = [0x1000, 0x3000]"
proof -
  have l: "table_list share_entry share_tables 3 (share_tables 0x1000 i) = (if i = 508 then [0x3000] else [])" for i
    by (simp add: numeral_3_eq_3 share_tables_def del: upt_rec_numeral)
  show ?thesis by (simp add: kernel_tables_def l)
qed


lemma demo_os_ok: "os_ok share_entry share_mapper 0x1000 {0x2000}
  (frame_taken (unat (next_address (p_alloc (os_space demo_os)))) (usable_frame demo_map_memory (p_alloc (os_space demo_os)))) demo_os"
proof -
  have none: "mp_translate share_mapper 0x1000 share_tables v = None" for v by (simp add: share_tables_def)
  have "region_ok share_entry share_mapper 0x1000 {0x2000} (frame_taken 0x200000 free) share_tables" for free
    unfolding region_ok_def share_kernel_tables none by (auto simp: frame_taken_def share_tables_def)
  moreover have "gaps share_mapper 0x1000 1 share_tables" unfolding gaps_def none by simp
  ultimately show ?thesis by (simp add: os_ok_def demo_os_def)
qed


end
