(* ===== verification/Boot.thy ===== *)
theory Boot
  imports Kernel_Stacks Platform Xtask Serial
begin

text \<open>
  The start of the kernel (\<^verbatim>\<open>kernel/src/boot.rs\<close>): \<open>early_boot\<close> composes the components.  It checks the boot
  information, sets up memory, the processor, devices and the file system, starts the programs of the ramdisk and the kernel's own
  tasks, and hands over to the first of them.  What the machine and the libraries provide is collected in a record \<open>board\<close>.  The lines
  the kernel writes to the serial port are kept as values; theory \<open>Serial\<close> says how a line is sent.  The vectors and strings of
  the kernel are not charged to its heap.
\<close>

unbundle bit_operations_syntax


section \<open>The boot information\<close>

definition ABI_VERSION :: u32 where "ABI_VERSION = 3"

definition validate_boot_info :: "boot_info \<Rightarrow> string + unit" where
  "validate_boot_info b =
     (if bi_abi_version b \<noteq> 3 then Inl ''Unsupported BootInfo ABI version''
      else if mm_descriptors (bi_memory_map b) = 0 then Inl ''Memory map descriptors pointer is null''
      else if unat (mm_descriptors (bi_memory_map b)) mod 8 \<noteq> 0 then Inl ''Memory map descriptors must be 8-byte aligned''
      else if mm_map_size (bi_memory_map b) = 0 then Inl ''Memory map is empty''
      else if mm_desc_size (bi_memory_map b) < 40 then Inl ''Memory map descriptor size is too small''
      else if bi_physical_memory_offset b < 0xffff800000000000 then Inl ''Physical memory offset must be in higher-half''
      else if bi_kernel_image_base b < 0xffffffff80000000 then Inl ''Kernel image base must be in higher-half kernel region''
      else if bi_kernel_image_size b = 0 then Inl ''Kernel image size cannot be zero''
      else if 0 < bi_ramdisk_size b \<and> bi_ramdisk_addr b = 0 then Inl ''Ramdisk size is non-zero but address is null''
      else if bi_ramdisk_addr b \<noteq> 0 \<and> bi_ramdisk_size b = 0 then Inl ''Ramdisk address is non-zero but size is null''
      else Inr ())"


section \<open>State\<close>

record ('e, 'g, 'd, 'x, 't) board =
  bd_entry :: "'e entry_ops"
  bd_mapper :: "('e, frame_allocator) mapper"
  bd_phys :: phys_ops
  bd_memory :: memory
  bd_gdt :: "'g \<times> selectors"
  bd_double_fault_stack :: u64
  bd_per_cpu :: u64
  bd_syscall_entry :: u64
  bd_lapic :: "(u64 \<times> u32) list \<Rightarrow> u64 \<Rightarrow> u32"
  bd_pci :: "u32 \<Rightarrow> u32"
  bd_io :: "'d mmio"
  bd_from_rsdp :: "u64 \<Rightarrow> 'x + 't"
  bd_platform_info :: "'t \<Rightarrow> 'x + platform_info"
  bd_tsc :: "nat \<Rightarrow> u64"
  bd_ready :: "nat \<Rightarrow> u32"
  bd_heartbeat :: u64
  bd_worker :: u64
  bd_idle :: u64

datatype boot_line =
    Stage string
  | Ramdisk_line u64 u64
  | Kernel_addr_line "u64 option"
  | Init_size_line u64

record ('e, 'g, 'd) kernel_state =
  k_os :: "('e, frame_allocator) os"
  k_heap :: fsb
  k_arch :: "'g arch"
  k_disks :: "'d disks"
  k_acpi :: acpi_state
  k_smp :: smp
  k_files :: files
  k_phys_mem_offset :: "u64 option"
  k_serial :: serial
  k_log :: "boot_line list"

definition writeln :: "boot_line \<Rightarrow> ('e, 'g, 'd) kernel_state \<Rightarrow> ('e, 'g, 'd) kernel_state" where
  "writeln l st = st\<lparr>k_log := k_log st @ [l]\<rparr>"

abbreviation bd_alloc :: "('e, 'g, 'd, 'x, 't) board \<Rightarrow> frame_allocator \<Rightarrow> (u64 option \<times> frame_allocator) run" where
  "bd_alloc bd \<equiv> allocate_frame (bd_phys bd) (bd_memory bd)"

definition active_table :: "('e, 'g, 'd) kernel_state \<Rightarrow> u64" where
  "active_table st = cr3 (kern (os_machine (k_os st)))"


section \<open>Phases\<close>

definition boot_memory ::
  "('e, 'g, 'd, 'x, 't) board \<Rightarrow> boot_info \<Rightarrow> ('e, 'g, 'd) kernel_state \<Rightarrow> ('e, 'g, 'd) kernel_state run" where
  "boot_memory bd bi st =
     run_bind (va_new (bd_mapper bd) (bi_physical_memory_offset bi)) (\<lambda>off.
     let st = st\<lparr>k_phys_mem_offset := Some off\<rparr>;
         tables = (p_tables (os_space (k_os st)), frame_allocator_new bi);
         st = writeln (Stage ''KERNEL_REACHED'') st;
         st = writeln (Ramdisk_line (bi_ramdisk_addr bi) (bi_ramdisk_size bi)) st;
         st = writeln (Stage ''PAGING_INIT'') st in
     run_bind (init_heap (bd_mapper bd) (bd_alloc bd) (active_table st) (tables, k_heap st)) (\<lambda>(mapped, tables, heap).
     if \<not> mapped then Panic
     else
       let st = writeln (Stage ''HEAP_INIT'') (st\<lparr>k_heap := heap\<rparr>) in
       run_bind (init_kernel_stack_region (bd_mapper bd) (bd_alloc bd) (active_table st) tables) (\<lambda>tables.
       let st = writeln (Stage ''KSTACK_REGION_INIT'') st in
       Done (st\<lparr>k_os := set_tables tables (k_os st)\<rparr>))))"

definition boot_arch ::
  "('e, 'g, 'd, 'x, 't) board \<Rightarrow> u64 \<Rightarrow> ('e, 'g, 'd) kernel_state \<Rightarrow> ('e, 'g, 'd) kernel_state run" where
  "boot_arch bd off st =
     run_bind (gdt_init (va_add (bd_mapper bd)) (bd_gdt bd) (bd_double_fault_stack bd) (bd_per_cpu bd) (k_arch st)) (\<lambda>a.
     run_bind (interrupts_init (va_new (bd_mapper bd)) (va_add (bd_mapper bd)) (bd_lapic bd) off a) (\<lambda>a.
     run_bind (syscall_init (va_new (bd_mapper bd)) (bd_syscall_entry bd) a) (\<lambda>a.
     let m = (os_machine (k_os st))\<lparr>gs_kernel := (a_gs_base a = bd_per_cpu bd)\<rparr>;
         st = writeln (Stage ''ARCH_INIT'') (st\<lparr>k_arch := a, k_os := (k_os st)\<lparr>os_machine := m\<rparr>\<rparr>) in
     run_bind (va_new (bd_mapper bd) 0xffffffff80000000) (\<lambda>kernel_addr.
     Done (writeln (Kernel_addr_line (mp_translate (bd_mapper bd) (active_table st) (p_tables (os_space (k_os st))) kernel_addr)) st)))))"

definition boot_devices ::
  "('e, 'g, 'd, 'x, 't) board \<Rightarrow> boot_info \<Rightarrow> u64 \<Rightarrow> ('e, 'g, 'd) kernel_state \<Rightarrow> ('e, 'g, 'd) kernel_state run option" where
  "boot_devices bd bi off st =
     (case k_files st of (v, t, scr) \<Rightarrow>
      wait_bind (Some (video_init (bi_framebuffer bi) scr)) (\<lambda>scr.
      let st = writeln (Stage ''VIDEO_INIT'') (st\<lparr>k_files := (v, t, scr)\<rparr>) in
      wait_bind (pci_init (bd_pci bd) (bd_io bd) (va_add (bd_mapper bd)) off (k_disks st)) (\<lambda>(found, disks).
      let st = writeln (Stage ''PCI_INIT'') (st\<lparr>k_disks := disks\<rparr>);
          st = writeln (Stage ''ACPI_INIT'')
            (st\<lparr>k_acpi := acpi_init (bd_from_rsdp bd) (bd_platform_info bd) (bi_rsdp_addr bi) (k_acpi st)\<rparr>) in
      wait_bind (smp_init (bd_io bd) (k_acpi st) (bd_tsc bd) (bd_ready bd) (k_smp st) (dk_device (k_disks st))) (\<lambda>(s, d).
      Some (Done (writeln (Stage ''SMP_INIT'') (st\<lparr>k_smp := s, k_disks := (k_disks st)\<lparr>dk_device := d\<rparr>\<rparr>)))))))"

text \<open>\<open>alloc::vec![0u8; n]\<close>, and the reading of a whole file: nothing if it cannot be opened, otherwise its size and the bytes read.\<close>

definition zeroed_vec :: "nat \<Rightarrow> u8 list run" where
  "zeroed_vec n = (if n \<le> vec_limit then Done (replicate n 0) else Panic)"

definition read_file :: "rstr \<Rightarrow> files \<Rightarrow> ((u64 \<times> u8 list option) option \<times> files) run" where
  "read_file name s = (case s of (v, t, scr) \<Rightarrow> case vfs_open name v of
       (None, v) \<Rightarrow> Done (None, (v, t, scr))
     | (Some fd, v) \<Rightarrow>
         run_bind (run_the (vfs_stat name v)) (\<lambda>stat.
         run_bind (zeroed_vec (unat (fs_size stat))) (\<lambda>buf.
         run_bind (vfs_read fd buf (v, t, scr)) (\<lambda>((len, buf), s).
         Done (Some (fs_size stat, map_option (\<lambda>n. take n buf) len), s)))))"

definition boot_files ::
  "('e, 'g, 'd, 'x, 't) board \<Rightarrow> boot_info \<Rightarrow> ('e, 'g, 'd) kernel_state \<Rightarrow> ('e, 'g, 'd) kernel_state run" where
  "boot_files bd bi st = (case k_files st of (v, t, scr) \<Rightarrow>
     run_bind (init_from_ramdisk (bd_memory bd) (bi_ramdisk_addr bi) (bi_ramdisk_size bi) v) (\<lambda>v.
     let st = writeln (Stage ''VFS_INIT'') st in
     run_bind (read_file (ascii ''font.psf'') (v, t, scr)) (\<lambda>(r, v, t, scr).
     case r of
       Some (_, Some font_data) \<Rightarrow>
         run_bind (init_console font_data scr) (\<lambda>scr. Done (writeln (Stage ''CONSOLE_INIT'') (st\<lparr>k_files := (v, t, scr)\<rparr>)))
     | _ \<Rightarrow> Done (st\<lparr>k_files := (v, t, scr)\<rparr>))))"

text \<open>\<open>Process::new_from_elf(...).expect(...)\<close> and \<open>add_task(Task::new_user(...))\<close>.\<close>

definition start_process ::
  "('e, 'g, 'd, 'x, 't) board \<Rightarrow> u64 \<Rightarrow> u8 list \<Rightarrow> ('e, frame_allocator) os \<Rightarrow> ('e, frame_allocator) os run" where
  "start_process bd pml4 elf w =
     run_bind (new_from_elf (bd_entry bd) (bd_mapper bd) (bd_alloc bd) pml4 elf (os_space w)) (\<lambda>(r, sp). case r of
         Inl _ \<Rightarrow> Panic
       | Inr p \<Rightarrow> (case share_process p (w\<lparr>os_space := sp\<rparr>) of
           (c, w) \<Rightarrow> spawn_task (bd_mapper bd) (bd_alloc bd) pml4 (User_task c) w))"

definition start_optional ::
  "('e, 'g, 'd, 'x, 't) board \<Rightarrow> rstr \<Rightarrow> string \<Rightarrow> ('e, 'g, 'd) kernel_state \<Rightarrow> ('e, 'g, 'd) kernel_state run" where
  "start_optional bd name stage st =
     run_bind (read_file name (k_files st)) (\<lambda>(r, s).
     let st = st\<lparr>k_files := s\<rparr> in
     case r of
       Some (_, Some elf) \<Rightarrow>
         run_bind (start_process bd (active_table st) elf (k_os st)) (\<lambda>w. Done (writeln (Stage stage) (st\<lparr>k_os := w\<rparr>)))
     | _ \<Rightarrow> Done st)"

definition boot_programs ::
  "('e, 'g, 'd, 'x, 't) board \<Rightarrow> ('e, 'g, 'd) kernel_state \<Rightarrow> ('e, 'g, 'd) kernel_state run" where
  "boot_programs bd st =
     (let st = writeln (Stage ''INIT_LOAD'') st in
      run_bind (read_file (ascii ''init'') (k_files st)) (\<lambda>(r, s).
      let st = st\<lparr>k_files := s\<rparr> in
      case r of
        None \<Rightarrow> Done (writeln (Stage ''INIT_NOT_FOUND'') st)
      | Some (sz, data) \<Rightarrow>
          let st = writeln (Init_size_line sz) st in
          (case data of
             None \<Rightarrow> Done st
           | Some elf \<Rightarrow>
               let st = writeln (Stage ''INIT_READ_DONE'') st in
               run_bind (start_process bd (active_table st) elf (k_os st)) (\<lambda>w.
               run_bind (start_optional bd (ascii ''shell'') ''SHELL_READY'' (st\<lparr>k_os := w\<rparr>)) (\<lambda>st.
               run_bind (start_optional bd (ascii ''fault-tester'') ''FAULT_TESTER_READY'' st) (\<lambda>st.
               Done (writeln (Stage ''INIT_READY'') st)))))))"

definition boot_tasks ::
  "('e, 'g, 'd, 'x, 't) board \<Rightarrow> ('e, 'g, 'd) kernel_state \<Rightarrow> ('e, 'g, 'd) kernel_state run" where
  "boot_tasks bd st =
     run_bind (run_fold (spawn_task (bd_mapper bd) (bd_alloc bd) (active_table st))
       [Kernel_task (bd_heartbeat bd), Kernel_task (bd_worker bd), Kernel_task (bd_idle bd)] (k_os st)) (\<lambda>w.
     Done (st\<lparr>k_os := w\<rparr>))"

text \<open>\<open>interrupts::enable()\<close> and \<open>start_scheduling()\<close>.\<close>

definition boot_dispatch :: "('e, 'g, 'd) kernel_state \<Rightarrow> ('e, 'g, 'd) kernel_state run" where
  "boot_dispatch st =
     (let m = os_machine (k_os st);
          m = m\<lparr>rflags := rflags m OR 0x200\<rparr>;
          st = writeln (Stage ''SCHED_START'') (writeln (Stage ''INTR_ENABLED'') st) in
      run_bind (first_dispatch m) (\<lambda>m. Done (st\<lparr>k_os := (k_os st)\<lparr>os_machine := m\<rparr>\<rparr>)))"

definition early_boot ::
  "('e, 'g, 'd, 'x, 't) board \<Rightarrow> boot_info \<Rightarrow> ('e, 'g, 'd) kernel_state \<Rightarrow> ('e, 'g, 'd) kernel_state run option" where
  "early_boot bd bi st =
     (let st = st\<lparr>k_serial := serial_init (k_serial st)\<rparr> in
      case validate_boot_info bi of
        Inl e \<Rightarrow> Some Panic
      | Inr _ \<Rightarrow>
          wait_bind (Some (boot_memory bd bi st)) (\<lambda>st.
          wait_bind (Some (run_the (k_phys_mem_offset st))) (\<lambda>off.
          wait_bind (Some (boot_arch bd off st)) (\<lambda>st.
          wait_bind (boot_devices bd bi off st) (\<lambda>st.
          wait_bind (Some (boot_files bd bi st)) (\<lambda>st.
          wait_bind (Some (boot_programs bd st)) (\<lambda>st.
          wait_bind (Some (boot_tasks bd st)) (\<lambda>st.
          Some (boot_dispatch st)))))))))"


section \<open>The kernel's own tasks\<close>

text \<open>The first thing the heartbeat task does, and one round of each task's loop: the new counter and what is printed.\<close>

datatype task_line = Vfs_text rstr | Vfs_missing | Heartbeat_line u64 | Worker_line

definition heartbeat_start :: "files \<Rightarrow> (task_line list \<times> files) run" where
  "heartbeat_start s = (case s of (v, t, scr) \<Rightarrow> case vfs_open (ascii ''initramfs.txt'') v of
       (None, v) \<Rightarrow> Done ([Vfs_missing], (v, t, scr))
     | (Some fd, v) \<Rightarrow> run_bind (vfs_read fd (replicate 64 0) (v, t, scr)) (\<lambda>((len, buf), s). Done (case len of
           None \<Rightarrow> []
         | Some n \<Rightarrow> [Vfs_text (case from_utf8 (take n buf) of Some c \<Rightarrow> c | None \<Rightarrow> ascii ''INVALID UTF-8'')], s)))"

definition heartbeat_round :: "u64 \<Rightarrow> u64 \<times> task_line list" where
  "heartbeat_round counter = (let counter = counter + 1 in (counter, if counter mod 64 = 0 then [Heartbeat_line counter] else []))"

definition worker_round :: "u64 \<Rightarrow> u64 \<times> task_line list" where
  "worker_round counter = (let counter = counter + 1 in (counter, if counter mod 256 = 0 then [Worker_line] else []))"


section \<open>Leaving the emulator\<close>

text \<open>\<^verbatim>\<open>kernel/src/bin/turnix-kernel-image.rs\<close>: a value is written to the exit device; the panic handler writes the failure value.\<close>

definition qemu_exit_success :: u32 where "qemu_exit_success = 0x10"
definition qemu_exit_failure :: u32 where "qemu_exit_failure = 0x11"

definition kernel_image_exit :: "boot_outcome run \<Rightarrow> u32" where
  "kernel_image_exit r = (case r of
       Done ExitSuccess \<Rightarrow> qemu_exit_success
     | Done ExitFailure \<Rightarrow> qemu_exit_failure
     | Panic \<Rightarrow> qemu_exit_failure)"

end
