(* ===== verification/Boot_Props.thy ===== *)
theory Boot_Props
  imports Boot
begin

text \<open>
  What \<open>early_boot\<close> achieves: it refuses boot information that is not valid, and from the ramdisk the build tool writes it starts
  \<open>init\<close> in user mode with the other programs and the kernel's tasks waiting behind it.
\<close>


section \<open>Reading files\<close>

definition free_files :: "vfs \<Rightarrow> nat" where
  "free_files v = length (filter Option.is_none (open_files v))"

lemma position_free: "0 < length (filter Option.is_none xs) \<Longrightarrow> \<exists>j<length xs. position Option.is_none xs = Some j \<and> xs ! j = None"
proof (induction xs)
  case (Cons x xs)
  then show ?case by (cases x) fastforce+
qed simp

lemma take_slot:
  "j < length xs \<Longrightarrow> xs ! j = None \<Longrightarrow> length (filter Option.is_none (xs[j := Some x])) = length (filter Option.is_none xs) - 1"
proof (induction xs arbitrary: j)
  case (Cons y ys)
  show ?case
  proof (cases j)
    case (Suc i)
    then have "ys ! i = None" "i < length ys" using Cons.prems by simp_all
    then have "0 < length (filter Option.is_none ys)" by (metis Option.is_none_simps(1) filter_False length_greater_0_conv nth_mem filter_empty_conv)
    with Suc Cons show ?thesis by (cases y) auto
  qed (use Cons in simp)
qed simp

lemma read_file_data:
  assumes e: "find_entry name v = Some e" "ve_data e = Some d" and name: "name \<noteq> ascii ''tty''" and d: "length d \<le> vec_limit"
    and room: "Suc n \<le> free_files v"
  shows "\<exists>v'. read_file name (v, t, scr) = Done (Some (of_nat (length d), Some d), v', t, scr)
    \<and> vfs_entries v' = vfs_entries v \<and> n \<le> free_files v'"
proof -
  let ?fd = "\<lambda>k. \<lparr>fd_name = name, fd_file_type = ve_file_type e, fd_offset = k\<rparr>"
  obtain j where j: "position Option.is_none (open_files v) = Some j" "j < length (open_files v)" "open_files v ! j = None"
  proof -
    have "0 < length (filter Option.is_none (open_files v))" using room unfolding free_files_def by linarith
    from position_free[OF this] show ?thesis using that by blast
  qed
  have "open_entries name (vfs_entries v) (open_files v) \<noteq> None"
    using e(1) j(1) by (auto simp: open_entries_None find_entry_def find_Some_iff)
  then obtain fs where o: "open_entries name (vfs_entries v) (open_files v) = Some (j, fs)"
    using open_entries_Some j(1) by fastforce
  with open_entries_Some[OF this] e(1) have fs: "fs = (open_files v)[j := Some (?fd 0)]" by (auto simp: find_entry_def)
  let ?v = "v\<lparr>open_files := fs\<rparr>"
  have find: "find_entry name ?v = Some e" using e(1) by (simp add: find_entry_def)
  have len: "unat (of_nat (length d) :: u64) = length d" using d of_nat_inverse[of "length d", where 'a = 64] by (simp add: vec_limit_def)
  have op: "vfs_open name v = (Some j, ?v)" by (simp add: vfs_open_def o)
  have st: "vfs_stat name ?v = Some \<lparr>fs_size = of_nat (length d), fs_file_type = ve_file_type e\<rparr>" using find e(2) by (simp add: vfs_stat_def)
  have at: "fs ! j = Some (?fd 0)" "j < length fs" using fs j(2) by simp_all
  define v' where "v' = (if d = [] then ?v else set_offset j (?fd 0) (of_nat (length d)) ?v)"
  have rd: "vfs_read j (replicate (length d) 0) (?v, t, scr) = Done ((Some (length d), d), v', t, scr)"
  proof (cases "d = []")
    case True
    then show ?thesis using at find e(2) name by (simp add: vfs_read_def v'_def)
  next
    case False
    have "add_or_panic 0 (of_nat (length d) :: u64) = Done (of_nat (length d))" using len unat_u64_limit[of "of_nat (length d)"] by (simp add: add_or_panic_def)
    then show ?thesis using False at find e(2) name by (simp add: vfs_read_def v'_def copy_at_def sub_slice_def Let_def)
  qed
  have "vfs_entries v' = vfs_entries v" by (simp add: v'_def set_offset_def)
  moreover have "n \<le> free_files v'"
    using take_slot[OF j(2,3)] room fs by (auto simp: free_files_def v'_def set_offset_def)
  moreover have "read_file name (v, t, scr) = Done (Some (of_nat (length d), Some d), v', t, scr)"
    using d by (simp add: read_file_def op st len zeroed_vec_def rd)
  ultimately show ?thesis by blast
qed


section \<open>Starting tasks\<close>

definition start_context :: "u64 \<Rightarrow> u64 \<Rightarrow> u64 \<Rightarrow> u64 \<Rightarrow> cpu_context" where
  "start_context vss vsp vcs entry =
    \<lparr>c_gprs = \<lparr>rax = 0, rbx = 0, rcx = 0, rdx = 0, rbp = 0, rsi = 0, rdi = 0, r8 = 0, r9 = 0, r10 = 0,
       r11 = 0, r12 = 0, r13 = 0, r14 = 0, r15 = 0\<rparr>,
     c_rip = entry, c_cs = vcs, c_rflags = 0x202, c_rsp = vsp, c_ss = vss\<rparr>"

abbreviation user_context :: "u64 \<Rightarrow> u64 \<Rightarrow> cpu_context" where
  "user_context entry sp \<equiv> start_context 0x23 sp 0x2b entry"

abbreviation kernel_context :: "u64 \<Rightarrow> u64 \<Rightarrow> cpu_context" where
  "kernel_context entry stack \<equiv> start_context 0x10 stack 0x08 entry"

text \<open>Before the first dispatch: the tasks created so far, by number, with the context each starts with and its address space.\<close>

definition started :: "(cpu_context \<times> u64) list \<Rightarrow> ('e, 's) os \<Rightarrow> bool" where
  "started xs w \<longleftrightarrow> ready_inv (os_machine w) \<and> current_task (sched (kern (os_machine w))) = None \<and> gs_kernel (os_machine w)
     \<and> next_id w = Suc (length xs) \<and> map task_id (tasks (sched (kern (os_machine w)))) = [1..<Suc (length xs)]
     \<and> map (\<lambda>t. (frame_at (slots_of (os_machine w)) (stack_ptr t), process_table w (task_process t))) (tasks (sched (kern (os_machine w)))) = xs
     \<and> (\<forall>t\<in>set (tasks (sched (kern (os_machine w)))). task_process t < os_procs w)"

lemma new_frame_context:
  "new_kernel_frame stop entry mem = (p, mem') \<Longrightarrow> frame_at mem' p = kernel_context entry stop"
  "new_user_frame stop proc mem = (p, mem') \<Longrightarrow> frame_at mem' p = user_context (entry_point proc) (proc_stack_top proc)"
  using write_frame_context[of stop "0x10" stop "0x08" entry mem] write_frame_context[of stop "0x23" "proc_stack_top proc" "0x2b" "entry_point proc" mem]
  by (simp_all add: new_kernel_frame_def new_user_frame_def start_context_def)

lemma spawn_started:
  assumes st: "started xs w" "length xs < 1000" and run: "spawn_task mp al kp nt w = Done w'"
    and nt: "case nt of User_task c \<Rightarrow> c < os_procs w | Kernel_task _ \<Rightarrow> True"
  shows "\<exists>ctx p. started (xs @ [(ctx, p)]) w' \<and> cr3 (kern (os_machine w')) = cr3 (kern (os_machine w)) \<and> (case nt of
      Kernel_task entry \<Rightarrow> p = cr3 (kern (os_machine w)) \<and> (\<exists>stop. stack_top_virt (Suc (length xs)) = Done stop \<and> ctx = kernel_context entry stop)
    | User_task c \<Rightarrow> p = process_table w c
        \<and> ctx = user_context (entry_point (proc_heap (kern (os_machine w)) c)) (proc_stack_top (proc_heap (kern (os_machine w)) c)))"
proof -
  from run obtain t w1 where c: "create_task mp al kp nt w = Done (t, w1)" "queue_task t w1 = Done w'"
    by (auto simp: spawn_task_def run_bind_eq_Done)
  from create_task_form[OF c(1)] obtain mem ts cell proc procs where f: "w1 = created w ts mem cell proc procs" "task_id t = next_id w"
    "task_process t = cell" "stack_top_virt (next_id w) = Done (kernel_stack_top t)"
    "(\<exists>entry. nt = Kernel_task entry \<and> new_kernel_frame (kernel_stack_top t) entry (slots_of (os_machine w)) = (stack_ptr t, mem)
          \<and> cell = os_procs w \<and> procs = os_procs w + 1 \<and> proc = kernel_process (cr3 (kern (os_machine w))))
       \<or> nt = User_task cell \<and> proc = proc_heap (kern (os_machine w)) cell \<and> procs = os_procs w
          \<and> new_user_frame (kernel_stack_top t) proc (slots_of (os_machine w)) = (stack_ptr t, mem)" by blast
  note s = spawn_task_spawns[OF c]
  let ?m = "os_machine w" and ?m' = "os_machine w'"
  have slots: "slots_of ?m' = mem" using s(1) f(1) c(2) by (auto simp: queue_task_def run_bind_eq_Done created_def)
  note r = spawn_ready[OF _ s(1)]
  have heap: "process_table w' x = process_table w x" if "x < os_procs w" for x
    using f(1,5) s(6) that by (auto simp: created_def add_thread_def)
  have new: "process_table w' cell = pml4_frame proc" using f(1) s(6) by (simp add: created_def add_thread_def)
  have pr: "os_procs w' = procs" "cell < procs" "os_procs w \<le> procs"
    using s(5) f(1,5) nt by (auto simp: created_def) (metis os.select_convs(3) os.surjective os.update_convs(2))+
  have fr: "frame_at (slots_of ?m') (stack_ptr x) = frame_at (slots_of ?m) (stack_ptr x)" if "x \<in> set (tasks (sched (kern ?m)))" for x
    using r(3) st(1) that by (simp add: started_def)
  have id: "next_id w = Suc (length xs)" "next_id w' = Suc (Suc (length xs))" using st f(1) s(7) by (auto simp: started_def created_def)
  have ctx: "frame_at mem (stack_ptr t) = (case nt of Kernel_task entry \<Rightarrow> kernel_context entry (kernel_stack_top t)
      | User_task c \<Rightarrow> user_context (entry_point (proc_heap (kern ?m) c)) (proc_stack_top (proc_heap (kern ?m) c)))"
    using f(5) new_frame_context by auto
  have "started (xs @ [(frame_at mem (stack_ptr t), pml4_frame proc)]) w'"
    using st(1) r(1) s(2-4) f(2,3) id pr fr slots heap new by (auto simp: started_def less_le_trans)
  moreover have "cr3 (kern ?m') = cr3 (kern ?m)" using s(8) f(1) by (simp add: created_def)
  ultimately show ?thesis using f(4,5) id(1) ctx
    by (intro exI[of _ "frame_at mem (stack_ptr t)"] exI[of _ "pml4_frame proc"]) (auto simp: kernel_process_def)
qed


text \<open>The context a program starts with, according to its file.\<close>

definition program_context :: "('e, 's) mapper \<Rightarrow> u8 list \<Rightarrow> cpu_context \<Rightarrow> bool" where
  "program_context mp elf ctx \<longleftrightarrow> (\<exists>h entry sp. parse_header elf = Done (Inr h) \<and> va_new mp (eh_entry h) = Done entry
     \<and> run_bind (va_new mp 0x700000000000) (\<lambda>a. va_add mp a 0x8000) = Done sp \<and> ctx = user_context entry sp)"

lemma new_from_elf_context:
  assumes "new_from_elf ops mp al kp elf sp = Done (Inr p, sp')"
  shows "program_context mp elf (user_context (entry_point p) (proc_stack_top p))"
proof -
  from assms obtain h where h: "parse_header elf = Done (Inr h)"
  proof -
    obtain r where r: "parse_header elf = Done r" using assms unfolding new_from_elf_def run_bind_eq_Done by auto
    show ?thesis using assms that unfolding new_from_elf_def r run_bind_simps by (cases r) auto
  qed
  from assms have "(\<exists>s. va_new mp 0x700000000000 = Done s \<and> va_add mp s 0x8000 = Done (proc_stack_top p)) \<and> va_new mp (eh_entry h) = Done (entry_point p)"
    unfolding new_from_elf_def h run_bind_simps sum.case
    by (auto simp: run_bind_eq_Done Let_def process_id_new_def split: sum.split_asm) (metis old.sum.exhaust old.unit.exhaust)+
  with h show ?thesis by (auto simp: program_context_def)
qed

lemma share_started:
  assumes "started xs w"
  shows "started xs (snd (share_process p (w\<lparr>os_space := sp\<rparr>)))"
proof -
  let ?w = "snd (share_process p (w\<lparr>os_space := sp\<rparr>))"
  have m: "os_machine ?w = with_heap ((proc_heap (kern (os_machine w)))(os_procs w := p)) (os_machine w)" "os_procs ?w = Suc (os_procs w)"
    by (simp_all add: share_process_def with_heap_def Let_def)
  have "process_table ?w (task_process t) = process_table w (task_process t)" if "t \<in> set (tasks (sched (kern (os_machine w))))" for t
    using assms that by (auto simp: m(1) with_heap_def started_def)
  moreover have "next_id ?w = next_id w" "gs_kernel (os_machine ?w) = gs_kernel (os_machine w)" by (simp_all add: m(1) with_heap_def)
  moreover have "map (\<lambda>t. (frame_at (slots_of (os_machine w)) (stack_ptr t), process_table w (task_process t))) (tasks (sched (kern (os_machine w)))) = xs"
    using assms by (simp add: started_def)
  ultimately show ?thesis using assms unfolding started_def m ready_with_heap by (auto intro: less_SucI)
qed

lemma start_process_started:
  assumes st: "started xs w" "length xs < 1000" and run: "start_process bd kp elf w = Done w'"
  shows "\<exists>ctx p. program_context (bd_mapper bd) elf ctx \<and> started (xs @ [(ctx, p)]) w' \<and> cr3 (kern (os_machine w')) = cr3 (kern (os_machine w))"
proof -
  from run obtain r sp where r: "new_from_elf (bd_entry bd) (bd_mapper bd) (bd_alloc bd) kp elf (os_space w) = Done (r, sp)"
    "(case r of Inl _ \<Rightarrow> Panic | Inr p \<Rightarrow> (case share_process p (w\<lparr>os_space := sp\<rparr>) of
        (c, w) \<Rightarrow> spawn_task (bd_mapper bd) (bd_alloc bd) kp (User_task c) w)) = Done w'"
    unfolding start_process_def run_bind_eq_Done by auto
  from r obtain p where e: "new_from_elf (bd_entry bd) (bd_mapper bd) (bd_alloc bd) kp elf (os_space w) = Done (Inr p, sp)"
    "spawn_task (bd_mapper bd) (bd_alloc bd) kp (User_task (os_procs w)) (snd (share_process p (w\<lparr>os_space := sp\<rparr>))) = Done w'"
    by (cases r) (auto simp: share_process_def Let_def)
  let ?w = "snd (share_process p (w\<lparr>os_space := sp\<rparr>))"
  have w: "os_procs ?w = Suc (os_procs w)" "proc_heap (kern (os_machine ?w)) (os_procs w) = p" "cr3 (kern (os_machine ?w)) = cr3 (kern (os_machine w))"
    by (simp_all add: share_process_def Let_def)
  then obtain ctx q where "started (xs @ [(ctx, q)]) w'" "cr3 (kern (os_machine w')) = cr3 (kern (os_machine w))"
    "ctx = user_context (entry_point p) (proc_stack_top p)"
    using spawn_started[OF share_started[OF st(1)] st(2) e(2)] by auto
  with new_from_elf_context[OF e(1)] show ?thesis by blast
qed


section \<open>The phases\<close>

fun stages :: "boot_line list \<Rightarrow> string list" where
  "stages [] = []"
| "stages (Stage s # ls) = s # stages ls"
| "stages (_ # ls) = stages ls"

lemma stages_append [simp]: "stages (xs @ ys) = stages xs @ stages ys"
  by (induction xs rule: stages.induct) simp_all

lemma writeln_simps [simp]:
  "k_os (writeln l st) = k_os st" "k_files (writeln l st) = k_files st" "k_log (writeln l st) = k_log st @ [l]"
  "k_phys_mem_offset (writeln l st) = k_phys_mem_offset st" "active_table (writeln l st) = active_table st"
  "active_table (st\<lparr>k_files := f\<rparr>) = active_table st"
  by (simp_all add: writeln_def active_table_def)

lemma boot_memory_phase:
  assumes "boot_memory bd bi st = Done st'"
  shows "os_machine (k_os st') = os_machine (k_os st)" "os_procs (k_os st') = os_procs (k_os st)" "k_files st' = k_files st"
    "stages (k_log st') = stages (k_log st) @ [''KERNEL_REACHED'', ''PAGING_INIT'', ''HEAP_INIT'', ''KSTACK_REGION_INIT'']"
  using assms by (auto simp: boot_memory_def run_bind_eq_Done Let_def set_tables_def split: if_splits)

lemma boot_arch_phase:
  assumes "boot_arch bd off st = Done st'"
  shows "\<exists>g. os_machine (k_os st') = (os_machine (k_os st))\<lparr>gs_kernel := g\<rparr>" "gs_kernel (os_machine (k_os st'))"
    "os_procs (k_os st') = os_procs (k_os st)" "k_files st' = k_files st" "stages (k_log st') = stages (k_log st) @ [''ARCH_INIT'']"
proof -
  from assms obtain a1 a2 a3 where a:
    "gdt_init (va_add (bd_mapper bd)) (bd_gdt bd) (bd_double_fault_stack bd) (bd_per_cpu bd) (k_arch st) = Done a1"
    "interrupts_init (va_new (bd_mapper bd)) (va_add (bd_mapper bd)) (bd_lapic bd) off a1 = Done a2"
    "syscall_init (va_new (bd_mapper bd)) (bd_syscall_entry bd) a2 = Done a3"
    and k: "k_os st' = (k_os st)\<lparr>os_machine := (os_machine (k_os st))\<lparr>gs_kernel := (a_gs_base a3 = bd_per_cpu bd)\<rparr>\<rparr>"
      "k_files st' = k_files st" "stages (k_log st') = stages (k_log st) @ [''ARCH_INIT'']"
    by (auto simp: boot_arch_def run_bind_eq_Done Let_def)
  have "a_gs_base a1 = bd_per_cpu bd" using a(1) by (auto simp: gdt_init_def load_segments_of_def run_bind_eq_Done)
  moreover have "a_gs_base a2 = a_gs_base a1" using a(2)
    by (auto simp: interrupts_init_def init_idt_def get_base_addr_def lapic_initialize_def start_timer_def lapic_write_def lapic_read_def
        route_irq_def ioapic_write_def mmio_write_def run_bind_eq_Done Let_def)
  moreover have "a_gs_base a3 = a_gs_base a2" using a(3) by (auto simp: syscall_init_def run_bind_eq_Done Let_def)
  ultimately show "\<exists>g. os_machine (k_os st') = (os_machine (k_os st))\<lparr>gs_kernel := g\<rparr>" "gs_kernel (os_machine (k_os st'))"
    "os_procs (k_os st') = os_procs (k_os st)" "k_files st' = k_files st" "stages (k_log st') = stages (k_log st) @ [''ARCH_INIT'']"
    using k by auto
qed

lemma boot_devices_phase:
  assumes "boot_devices bd bi off st = Some (Done st')"
  shows "k_os st' = k_os st" "\<exists>scr. k_files st' = (fst (k_files st), fst (snd (k_files st)), scr)"
    "stages (k_log st') = stages (k_log st) @ [''VIDEO_INIT'', ''PCI_INIT'', ''ACPI_INIT'', ''SMP_INIT'']"
  using assms by (auto simp: boot_devices_def wait_bind_Done Let_def split: prod.splits)

text \<open>A file with these bytes is on the disk.\<close>

definition on_disk :: "rstr \<Rightarrow> u8 list \<Rightarrow> vfs \<Rightarrow> bool" where
  "on_disk name d v \<longleftrightarrow> (\<exists>e. find_entry name v = Some e \<and> ve_data e = Some d) \<and> name \<noteq> ascii ''tty'' \<and> length d \<le> vec_limit"

lemma on_disk_entries: "vfs_entries v' = vfs_entries v \<Longrightarrow> on_disk name d v' = on_disk name d v"
  by (simp add: on_disk_def find_entry_def)

lemma read_on_disk:
  assumes "on_disk name d v" "Suc n \<le> free_files v"
  shows "\<exists>v'. read_file name (v, t, scr) = Done (Some (of_nat (length d), Some d), v', t, scr)
    \<and> n \<le> free_files v' \<and> (\<forall>name d. on_disk name d v' = on_disk name d v)"
proof -
  from assms(1) obtain e where e: "find_entry name v = Some e" "ve_data e = Some d" "name \<noteq> ascii ''tty''" "length d \<le> vec_limit"
    by (auto simp: on_disk_def)
  from read_file_data[OF e assms(2)] obtain v' where v': "read_file name (v, t, scr) = Done (Some (of_nat (length d), Some d), v', t, scr)"
    "vfs_entries v' = vfs_entries v" "n \<le> free_files v'" by blast
  then show ?thesis using on_disk_entries[OF v'(2)] by blast
qed

lemma length_le_concat: "x \<in> set xs \<Longrightarrow> length (f x) \<le> length (concat (map f xs))"
  by (induction xs) auto

lemma initramfs_nonempty: "0 < length (initramfs ib sb fb)"
proof -
  have "0 < length (file_block f)" for f by (cases f) (simp add: file_block_def add_file_def)
  then show ?thesis unfolding initramfs_def add_file_block by (simp del: length_greater_0_conv)
qed

lemma initramfs_vfs:
  assumes "length (initramfs ib sb fb) + 72 \<le> vec_limit" and "addr \<noteq> 0"
    and "read_mem mem addr (length (initramfs ib sb fb)) = initramfs ib sb fb"
  obtains v where "init_from_ramdisk mem addr (of_nat (length (initramfs ib sb fb))) vfs_new = Done v" "free_files v = 16"
    "on_disk (ascii ''init'') ib v" "on_disk (ascii ''shell'') sb v" "on_disk (ascii ''fault-tester'') fb v"
    "on_disk (ascii ''font.psf'') create_minimal_psf2_font v"
proof -
  let ?fs = "[(ascii ''initramfs.txt'', ascii ''Hello from Initramfs!\<newline>This is a kernel experiment.\<newline>''),
    (ascii ''init'', ib), (ascii ''shell'', sb), (ascii ''fault-tester'', fb),
    (ascii ''font.psf'', create_minimal_psf2_font)]"
  let ?v = "(init_defaults vfs_new)\<lparr>vfs_entries := vfs_entries (init_defaults vfs_new) @ map file_entry ?fs\<rparr>"
  have i: "initramfs ib sb fb = concat (map file_block ?fs)" by (simp add: initramfs_def add_file_block)
  have g: "\<forall>f\<in>set ?fs. good_name (fst f)" by (simp add: good_name_def ascii_def from_utf8_ascii_bytes)
  have "length (initramfs ib sb fb) + 72 < usize_limit" using assms(1) by (simp add: vec_limit_def)
  then have 1: "init_from_ramdisk mem addr (of_nat (length (initramfs ib sb fb))) vfs_new = Done ?v"
    using init_blocks[OF g] assms(2,3) unfolding i by simp
  have free: "free_files ?v = 16" by (simp add: free_files_def init_defaults_def vfs_new_def MAX_OPEN_FILES_def filter_replicate)
  have len: "length d \<le> vec_limit" if "(n, d) \<in> set ?fs" for n d
  proof -
    have "length (file_block (n, d)) \<le> length (initramfs ib sb fb)" unfolding i by (rule length_le_concat[OF that])
    moreover have "length d \<le> length (file_block (n, d))" by (simp add: file_block_def add_file_def)
    ultimately show ?thesis using assms(1) by linarith
  qed
  have find: "find_entry (ascii ''init'') ?v = Some (file_entry (ascii ''init'', ib))"
    "find_entry (ascii ''shell'') ?v = Some (file_entry (ascii ''shell'', sb))"
    "find_entry (ascii ''fault-tester'') ?v = Some (file_entry (ascii ''fault-tester'', fb))"
    "find_entry (ascii ''font.psf'') ?v = Some (file_entry (ascii ''font.psf'', create_minimal_psf2_font))"
    by (simp_all add: find_entry_def file_entry_def init_defaults_def vfs_new_def ascii_def)
  have name: "ascii ''init'' \<noteq> ascii ''tty''" "ascii ''shell'' \<noteq> ascii ''tty''" "ascii ''fault-tester'' \<noteq> ascii ''tty''" "ascii ''font.psf'' \<noteq> ascii ''tty''"
    by (simp_all add: ascii_def)
  have disk: "on_disk n d ?v" if "(n, d) \<in> set ?fs" "find_entry n ?v = Some (file_entry (n, d))" "n \<noteq> ascii ''tty''" for n d
    using len[OF that(1)] that(2,3) by (simp add: on_disk_def file_entry_def)
  show ?thesis
    using that[OF 1 free disk[OF _ find(1) name(1)] disk[OF _ find(2) name(2)] disk[OF _ find(3) name(3)] disk[OF _ find(4) name(4)]] by simp
qed

lemma boot_files_phase:
  assumes "fst (k_files st) = vfs_new" and "bi_ramdisk_addr bi \<noteq> 0"
    and "bi_ramdisk_size bi = of_nat (length (initramfs ib sb fb))" and "length (initramfs ib sb fb) + 72 \<le> vec_limit"
    and "read_mem (bd_memory bd) (bi_ramdisk_addr bi) (length (initramfs ib sb fb)) = initramfs ib sb fb"
  obtains st' v t scr where "boot_files bd bi st = Done st'" "k_os st' = k_os st"
    "stages (k_log st') = stages (k_log st) @ [''VFS_INIT'', ''CONSOLE_INIT'']" "k_files st' = (v, t, scr)"
    "scr_console scr = Some (text_console_new default_font)" "3 \<le> free_files v"
    "on_disk (ascii ''init'') ib v" "on_disk (ascii ''shell'') sb v" "on_disk (ascii ''fault-tester'') fb v"
proof -
  obtain v t scr where k: "k_files st = (v, t, scr)" by (cases "k_files st")
  then have v: "v = vfs_new" using assms(1) by simp
  obtain v1 where v1: "init_from_ramdisk (bd_memory bd) (bi_ramdisk_addr bi) (of_nat (length (initramfs ib sb fb))) vfs_new = Done v1" "free_files v1 = 16"
    "on_disk (ascii ''init'') ib v1" "on_disk (ascii ''shell'') sb v1" "on_disk (ascii ''fault-tester'') fb v1"
    "on_disk (ascii ''font.psf'') create_minimal_psf2_font v1"
    by (rule initramfs_vfs[OF assms(4,2,5)])
  obtain v2 where v2: "read_file (ascii ''font.psf'') (v1, t, scr) = Done (Some (of_nat (length create_minimal_psf2_font), Some create_minimal_psf2_font), v2, t, scr)"
    "3 \<le> free_files v2" "\<forall>name d. on_disk name d v2 = on_disk name d v1"
    using read_on_disk[OF v1(6), of 3 t scr] v1(2) by auto
  let ?st = "writeln (Stage ''CONSOLE_INIT'') ((writeln (Stage ''VFS_INIT'') st)\<lparr>k_files := (v2, t, scr\<lparr>scr_console := Some (text_console_new default_font)\<rparr>)\<rparr>)"
  have "boot_files bd bi st = Done ?st"
    by (simp add: boot_files_def k v assms(3) v1(1) v2(1) init_console_def font_parses Let_def)
  then show ?thesis by (rule that[of ?st v2 t "scr\<lparr>scr_console := Some (text_console_new default_font)\<rparr>"]) (use v1(3-5) v2(2,3) in simp_all)
qed

lemma start_optional_phase:
  assumes "start_optional bd name stage st = Done st'" and "k_files st = (v, t, scr)" and "on_disk name d v" and "Suc n \<le> free_files v"
    and "started xs (k_os st)" and "length xs < 1000"
  shows "\<exists>v' ctx p. k_files st' = (v', t, scr) \<and> n \<le> free_files v' \<and> (\<forall>name d. on_disk name d v' = on_disk name d v)
    \<and> program_context (bd_mapper bd) d ctx \<and> started (xs @ [(ctx, p)]) (k_os st') \<and> active_table st' = active_table st
    \<and> stages (k_log st') = stages (k_log st) @ [stage]"
proof -
  obtain v' where v': "read_file name (v, t, scr) = Done (Some (of_nat (length d), Some d), v', t, scr)"
    "n \<le> free_files v'" "\<forall>name d. on_disk name d v' = on_disk name d v"
    using read_on_disk[OF assms(3,4), of t scr] by blast
  from assms(1) obtain w where w: "start_process bd (active_table st) d (k_os st) = Done w"
    "st' = writeln (Stage stage) (st\<lparr>k_files := (v', t, scr), k_os := w\<rparr>)"
    by (auto simp: start_optional_def assms(2) v'(1) run_bind_eq_Done Let_def active_table_def)
  from start_process_started[OF assms(5,6) w(1)] v'(2,3) show ?thesis by (fastforce simp: w(2) active_table_def)
qed

lemma boot_programs_phase:
  assumes run: "boot_programs bd st = Done st'" and files: "k_files st = (v, t, scr)" "3 \<le> free_files v"
    and disk: "on_disk (ascii ''init'') ib v" "on_disk (ascii ''shell'') sb v" "on_disk (ascii ''fault-tester'') fb v"
    and st: "started [] (k_os st)"
  shows "\<exists>ci cs cf pi ps pf v'. program_context (bd_mapper bd) ib ci \<and> program_context (bd_mapper bd) sb cs \<and> program_context (bd_mapper bd) fb cf
    \<and> started [(ci, pi), (cs, ps), (cf, pf)] (k_os st') \<and> active_table st' = active_table st \<and> k_files st' = (v', t, scr)
    \<and> stages (k_log st') = stages (k_log st) @ [''INIT_LOAD'', ''INIT_READ_DONE'', ''SHELL_READY'', ''FAULT_TESTER_READY'', ''INIT_READY'']"
proof -
  obtain v1 where v1: "read_file (ascii ''init'') (v, t, scr) = Done (Some (of_nat (length ib), Some ib), v1, t, scr)"
    "2 \<le> free_files v1" "\<forall>name d. on_disk name d v1 = on_disk name d v"
    using read_on_disk[OF disk(1), of 2 t scr] files(2) by auto
  let ?st = "writeln (Stage ''INIT_READ_DONE'') (writeln (Init_size_line (of_nat (length ib))) ((writeln (Stage ''INIT_LOAD'') st)\<lparr>k_files := (v1, t, scr)\<rparr>))"
  from run obtain w st2 st3 where r: "start_process bd (active_table ?st) ib (k_os ?st) = Done w"
    "start_optional bd (ascii ''shell'') ''SHELL_READY'' (?st\<lparr>k_os := w\<rparr>) = Done st2"
    "start_optional bd (ascii ''fault-tester'') ''FAULT_TESTER_READY'' st2 = Done st3" "st' = writeln (Stage ''INIT_READY'') st3"
    by (auto simp: boot_programs_def files(1) v1(1) run_bind_eq_Done Let_def)
  obtain ci pi where 1: "program_context (bd_mapper bd) ib ci" "started [(ci, pi)] w" "cr3 (kern (os_machine w)) = active_table st"
    using start_process_started[OF _ _ r(1), of "[]"] st by (auto simp: active_table_def)
  have d1: "on_disk (ascii ''shell'') sb v1" using v1(3) disk by simp
  obtain v2 cs ps where 2: "k_files st2 = (v2, t, scr)" "1 \<le> free_files v2" "\<forall>name d. on_disk name d v2 = on_disk name d v1"
    "program_context (bd_mapper bd) sb cs" "started ([(ci, pi)] @ [(cs, ps)]) (k_os st2)" "active_table st2 = active_table (?st\<lparr>k_os := w\<rparr>)"
    "stages (k_log st2) = stages (k_log (?st\<lparr>k_os := w\<rparr>)) @ [''SHELL_READY'']"
    using start_optional_phase[OF r(2) _ d1, of t scr 1 "[(ci, pi)]"] v1(2) 1(2) by auto
  have d2: "on_disk (ascii ''fault-tester'') fb v2" using 2(3) v1(3) disk by simp
  obtain v3 cf pf where 3: "k_files st3 = (v3, t, scr)" "program_context (bd_mapper bd) fb cf"
    "started (([(ci, pi)] @ [(cs, ps)]) @ [(cf, pf)]) (k_os st3)" "active_table st3 = active_table st2"
    "stages (k_log st3) = stages (k_log st2) @ [''FAULT_TESTER_READY'']"
    using start_optional_phase[OF r(3) 2(1) d2 _ 2(5), of 0] 2(2) by auto
  have "active_table st' = active_table st" using 3(4) 2(6) 1(3) r(4) by (simp add: active_table_def)
  with 1 2 3 show ?thesis by (intro exI[of _ ci] exI[of _ cs] exI[of _ cf] exI[of _ pi] exI[of _ ps] exI[of _ pf] exI[of _ v3]) (simp add: r(4))
qed

lemma boot_tasks_phase:
  assumes run: "boot_tasks bd st = Done st'" and st: "started [x, y, z] (k_os st)"
  shows "started [x, y, z, (kernel_context (bd_heartbeat bd) 0xFFFFFE0000031000, active_table st),
      (kernel_context (bd_worker bd) 0xFFFFFE000003B000, active_table st), (kernel_context (bd_idle bd) 0xFFFFFE0000045000, active_table st)] (k_os st')"
    "k_files st' = k_files st" "k_log st' = k_log st"
proof -
  let ?spawn = "spawn_task (bd_mapper bd) (bd_alloc bd) (active_table st)"
  from run obtain w1 w2 w3 where w: "?spawn (Kernel_task (bd_heartbeat bd)) (k_os st) = Done w1" "?spawn (Kernel_task (bd_worker bd)) w1 = Done w2"
    "?spawn (Kernel_task (bd_idle bd)) w2 = Done w3" "st' = st\<lparr>k_os := w3\<rparr>"
    by (auto simp: boot_tasks_def run_bind_eq_Done)
  have top: "stack_top_virt (Suc (Suc (Suc (Suc 0)))) = Done 0xFFFFFE0000031000" "stack_top_virt (Suc (Suc (Suc (Suc (Suc 0))))) = Done 0xFFFFFE000003B000"
    "stack_top_virt (Suc (Suc (Suc (Suc (Suc (Suc 0)))))) = Done 0xFFFFFE0000045000"
    by (simp_all add: stack_top_virt_def mul_or_panic_def add_or_panic_def KERNEL_STACK_REGION_BASE_def STACK_SIZE_def STACK_STRIDE_def)
  let ?k = "\<lambda>e s. (kernel_context e s, active_table st)"
  have 1: "started ([x, y, z] @ [?k (bd_heartbeat bd) 0xFFFFFE0000031000]) w1 \<and> cr3 (kern (os_machine w1)) = active_table st"
    using spawn_started[OF st _ w(1)] top(1) by (auto simp: active_table_def)
  have 2: "started (([x, y, z] @ [?k (bd_heartbeat bd) 0xFFFFFE0000031000]) @ [?k (bd_worker bd) 0xFFFFFE000003B000]) w2 \<and> cr3 (kern (os_machine w2)) = active_table st"
    using spawn_started[OF conjunct1[OF 1] _ w(2)] top(2) 1 by auto
  have "started ((([x, y, z] @ [?k (bd_heartbeat bd) 0xFFFFFE0000031000]) @ [?k (bd_worker bd) 0xFFFFFE000003B000]) @ [?k (bd_idle bd) 0xFFFFFE0000045000]) w3"
    using spawn_started[OF conjunct1[OF 2] _ w(3)] top(3) 2 by auto
  then show "started [x, y, z, (kernel_context (bd_heartbeat bd) 0xFFFFFE0000031000, active_table st),
      (kernel_context (bd_worker bd) 0xFFFFFE000003B000, active_table st), (kernel_context (bd_idle bd) 0xFFFFFE0000045000, active_table st)] (k_os st')"
    "k_files st' = k_files st" "k_log st' = k_log st" by (simp_all add: w(4))
qed

text \<open>What waits in the queue, and what runs.\<close>

definition queued :: "machine \<Rightarrow> (nat \<times> cpu_context \<times> u64) list" where
  "queued m = map (\<lambda>t. (task_id t, frame_at (slots_of m) (stack_ptr t), pml4_frame (proc_heap (kern m) (task_process t)))) (tasks (sched (kern m)))"

definition running :: "machine \<Rightarrow> (nat \<times> cpu_context \<times> u64) option" where
  "running m = map_option (\<lambda>t. (task_id t, context_of m, cr3 (kern m))) (current_task (sched (kern m)))"

lemma started_queued: "started xs w \<Longrightarrow> queued (os_machine w) = zip [1..<Suc (length xs)] xs"
proof -
  assume s: "started xs w"
  let ?ts = "tasks (sched (kern (os_machine w)))"
  let ?g = "\<lambda>t. (frame_at (slots_of (os_machine w)) (stack_ptr t), process_table w (task_process t))"
  have "queued (os_machine w) = zip (map task_id ?ts) (map ?g ?ts)" unfolding queued_def by (induction ?ts) (simp_all add: zip_map_map map_zip_map2 zip_same_conv_map)
  with s show ?thesis by (simp add: started_def)
qed

lemma boot_dispatch_phase:
  assumes run: "boot_dispatch st = Done st'" and st: "started (x # xs) (k_os st)"
  shows "switch_inv (os_machine (k_os st'))" "running (os_machine (k_os st')) = Some (1, x)"
    "queued (os_machine (k_os st')) = zip [2..<Suc (Suc (length xs))] xs" "k_files st' = k_files st"
    "stages (k_log st') = stages (k_log st) @ [''INTR_ENABLED'', ''SCHED_START'']"
proof -
  let ?start = "os_machine (k_os st)"
  let ?m = "?start\<lparr>rflags := rflags ?start OR 0x200\<rparr>"
  from run obtain m' where m': "first_dispatch ?m = Done m'"
    "st' = (writeln (Stage ''SCHED_START'') (writeln (Stage ''INTR_ENABLED'') st))\<lparr>k_os := (k_os st)\<lparr>os_machine := m'\<rparr>\<rparr>"
    by (auto simp: boot_dispatch_def run_bind_eq_Done Let_def)
  have "ready_inv ?m" "current_task (sched (kern ?m)) = None" "gs_kernel ?m" using st by (auto simp: started_def ready_inv_def)
  from first_dispatch_inv[OF this m'(1)] obtain t ts where d: "tasks (sched (kern ?start)) = t # ts" "switch_inv m'"
    "context_of m' = frame_at (slots_of ?start) (stack_ptr t)" "current_task (sched (kern m')) = Some (t\<lparr>task_state_of := Running\<rparr>)"
    "tasks (sched (kern m')) = ts" "cr3 (kern m') = pml4_frame (proc_heap (kern ?start) (task_process t))" "proc_heap (kern m') = proc_heap (kern ?start)" by auto
  have sl: "slots_of m' = slots_of ?start" using m'(1) restore_context(4) by (auto simp: first_dispatch_def run_bind_eq_Done)
  have up: "[1..<Suc (length (x # xs))] = 1 # [2..<Suc (Suc (length xs))]" by (simp add: upt_conv_Cons numeral_2_eq_2 del: upt_Suc)
  have q: "queued ?start = (1, x) # zip [2..<Suc (Suc (length xs))] xs" using started_queued[OF st] unfolding up by (simp only: zip_Cons_Cons)
  then show "running (os_machine (k_os st')) = Some (1, x)" "queued (os_machine (k_os st')) = zip [2..<Suc (Suc (length xs))] xs"
    using d sl by (auto simp: queued_def running_def m'(2))
  show "switch_inv (os_machine (k_os st'))" "k_files st' = k_files st" "stages (k_log st') = stages (k_log st) @ [''INTR_ENABLED'', ''SCHED_START'']"
    using d(2) by (simp_all add: m'(2))
qed



section \<open>From the boot loader to user mode\<close>

text \<open>C38: Booting from the ramdisk the build tool writes.  When \<open>early_boot\<close> hands over, the boot information was valid; task 1
  runs, in user mode with the address space of \<open>init\<close>, at the entry point its file names with the fresh stack and all
  registers zero; the shell, the fault tester and the kernel's three tasks wait behind it in this order as tasks 2 to 6, each with the context it
  starts with on a kernel stack of its own; the invariant of context switching holds, interrupts will be on in every task; the console
  has the font of the ramdisk; and the stages were passed in the documented order.\<close>

theorem boots_into_init:
  assumes "early_boot bd bi st = Some (Done st')" and "kernel_initial (kern (os_machine (k_os st)))" and "fst (k_files st) = vfs_new"
    and "bi_ramdisk_size bi = of_nat (length (initramfs ib sb fb))" and "length (initramfs ib sb fb) + 72 \<le> vec_limit"
    and "read_mem (bd_memory bd) (bi_ramdisk_addr bi) (length (initramfs ib sb fb)) = initramfs ib sb fb"
  shows "validate_boot_info bi = Inr () \<and> switch_inv (os_machine (k_os st'))
    \<and> (\<exists>ci cs cf pi ps pf. program_context (bd_mapper bd) ib ci \<and> program_context (bd_mapper bd) sb cs \<and> program_context (bd_mapper bd) fb cf
        \<and> running (os_machine (k_os st')) = Some (1, ci, pi)
        \<and> queued (os_machine (k_os st')) = [(2, cs, ps), (3, cf, pf), (4, kernel_context (bd_heartbeat bd) 0xFFFFFE0000031000, active_table st),
            (5, kernel_context (bd_worker bd) 0xFFFFFE000003B000, active_table st), (6, kernel_context (bd_idle bd) 0xFFFFFE0000045000, active_table st)])
    \<and> scr_console (snd (snd (k_files st'))) = Some (text_console_new default_font)
    \<and> stages (k_log st') = stages (k_log st) @ [''KERNEL_REACHED'', ''PAGING_INIT'', ''HEAP_INIT'', ''KSTACK_REGION_INIT'', ''ARCH_INIT'',
        ''VIDEO_INIT'', ''PCI_INIT'', ''ACPI_INIT'', ''SMP_INIT'', ''VFS_INIT'', ''CONSOLE_INIT'', ''INIT_LOAD'', ''INIT_READ_DONE'',
        ''SHELL_READY'', ''FAULT_TESTER_READY'', ''INIT_READY'', ''INTR_ENABLED'', ''SCHED_START'']"
proof -
  have val: "validate_boot_info bi = Inr ()" using assms(1) by (cases "validate_boot_info bi") (auto simp: early_boot_def)
  let ?entered = "st\<lparr>k_serial := serial_init (k_serial st)\<rparr>"
  from assms(1) obtain s1 off s2 s3 s4 s5 s6 where r: "boot_memory bd bi ?entered = Done s1" "boot_arch bd off s1 = Done s2"
    "boot_devices bd bi off s2 = Some (Done s3)" "boot_files bd bi s3 = Done s4" "boot_programs bd s4 = Done s5" "boot_tasks bd s5 = Done s6"
    "boot_dispatch s6 = Done st'"
    by (auto simp: early_boot_def val wait_bind_Done Let_def)
  note 1 = boot_memory_phase[OF r(1)] and 2 = boot_arch_phase[OF r(2)] and 3 = boot_devices_phase[OF r(3)]
  have vfs: "fst (k_files s3) = vfs_new" using 3(2) 2(4) 1(3) assms(3) by auto
  have "unat (of_nat (length (initramfs ib sb fb)) :: u64) = length (initramfs ib sb fb)"
    using assms(5) by (intro unat_of_nat_u64) (simp add: vec_limit_def)
  then have pos: "0 < bi_ramdisk_size bi" using initramfs_nonempty[of ib sb fb] unfolding assms(4) word_less_nat_alt by simp
  then have addr: "bi_ramdisk_addr bi \<noteq> 0" using val by (auto simp: validate_boot_info_def split: if_splits)
  obtain v t scr where 4: "k_os s4 = k_os s3" "stages (k_log s4) = stages (k_log s3) @ [''VFS_INIT'', ''CONSOLE_INIT'']"
    and k: "k_files s4 = (v, t, scr)" "scr_console scr = Some (text_console_new default_font)" "3 \<le> free_files v"
    "on_disk (ascii ''init'') ib v" "on_disk (ascii ''shell'') sb v" "on_disk (ascii ''fault-tester'') fb v"
    by (rule boot_files_phase[OF vfs addr assms(4-6)]) (use r(4) in auto)
  obtain g where m: "os_machine (k_os s4) = (os_machine (k_os st))\<lparr>gs_kernel := g\<rparr>" using 4(1) 3(1) 2(1) 1(1) by auto
  have gs: "gs_kernel (os_machine (k_os s4))" using 4(1) 3(1) 2(2) by simp
  have "started [] (k_os s4)" unfolding started_def
    using initial_inv[OF assms(2)] assms(2) gs by (simp add: m ready_inv_def kernel_initial_def scheduler_new_def)
  with k obtain ci cs cf pi ps pf v' where 5: "program_context (bd_mapper bd) ib ci" "program_context (bd_mapper bd) sb cs" "program_context (bd_mapper bd) fb cf"
    "started [(ci, pi), (cs, ps), (cf, pf)] (k_os s5)" "active_table s5 = active_table s4" "k_files s5 = (v', t, scr)"
    "stages (k_log s5) = stages (k_log s4) @ [''INIT_LOAD'', ''INIT_READ_DONE'', ''SHELL_READY'', ''FAULT_TESTER_READY'', ''INIT_READY'']"
    using boot_programs_phase[OF r(5)] by blast
  have at: "active_table s5 = active_table st" using 5(5) by (simp add: active_table_def m)
  note 6 = boot_tasks_phase[OF r(6) 5(4), unfolded at]
  note 7 = boot_dispatch_phase[OF r(7) 6(1)]
  have q: "queued (os_machine (k_os st')) = [(2, cs, ps), (3, cf, pf), (4, kernel_context (bd_heartbeat bd) 0xFFFFFE0000031000, active_table st),
     (5, kernel_context (bd_worker bd) 0xFFFFFE000003B000, active_table st), (6, kernel_context (bd_idle bd) 0xFFFFFE0000045000, active_table st)]"
    using 7(3) by (simp add: upt_conv_Cons)
  have c: "scr_console (snd (snd (k_files st'))) = Some (text_console_new default_font)" using 7(4) 6(2) 5(6) k(2) by simp
  have l: "stages (k_log st') = stages (k_log st) @ [''KERNEL_REACHED'', ''PAGING_INIT'', ''HEAP_INIT'', ''KSTACK_REGION_INIT'', ''ARCH_INIT'',
        ''VIDEO_INIT'', ''PCI_INIT'', ''ACPI_INIT'', ''SMP_INIT'', ''VFS_INIT'', ''CONSOLE_INIT'', ''INIT_LOAD'', ''INIT_READ_DONE'',
        ''SHELL_READY'', ''FAULT_TESTER_READY'', ''INIT_READY'', ''INTR_ENABLED'', ''SCHED_START'']"
    using 7(5) 6(3) 5(7) 4(2) 3(3) 2(5) 1(4) by simp
  show ?thesis using val 7(1,2) 5(1-3) q c l by blast
qed


text \<open>A machine for the witness: tables with one entry per page, no devices, and a ramdisk whose three programs have no segments.\<close>

definition flat_mapper :: "(u64 option, frame_allocator) mapper" where
  "flat_mapper = share_mapper\<lparr>
     mp_translate := (\<lambda>pml4 t v. map_option (\<lambda>f. f + page_off v) (t pml4 (unat v div 4096))),
     mp_map_to := (\<lambda>pml4 page frame flags (t, s). Done (True, write_entry pml4 (unat page div 4096) (Some frame) t, s))\<rparr>"

lemma flat_sel [simp]:
  "mp_map_to flat_mapper pml4 page frame flags w = Done (True, write_entry pml4 (unat page div 4096) (Some frame) (fst w), snd w)"
  "va_new flat_mapper a = Done a" "va_add flat_mapper a n = Done (a + n)" "va_sub flat_mapper a n = Done (a - n)"
  "page_of flat_mapper = page_base" "page_range flat_mapper = page_range share_mapper"
  by (cases w) (simp_all add: flat_mapper_def share_mapper_def)

lemma flat_page:
  assumes "can_take al (Suc k) (snd w)"
  shows "\<exists>w'. map_kernel_page flat_mapper al pml4 fl page w = Done w' \<and> can_take al k (snd w')"
    "\<exists>w'. map_stack_page flat_mapper al pml4 q page w = Done w' \<and> can_take al k (snd w')"
    "\<exists>w'. map_user_page flat_mapper al pml4 fl page w = Done w' \<and> can_take al k (snd w')"
proof -
  obtain f s where a: "al (snd w) = Done (Some f, s)" "can_take al k s" using assms by (auto simp: can_take_Suc simp del: can_take.simps)
  then show "\<exists>w'. map_kernel_page flat_mapper al pml4 fl page w = Done w' \<and> can_take al k (snd w')"
    "\<exists>w'. map_stack_page flat_mapper al pml4 q page w = Done w' \<and> can_take al k (snd w')"
    by (auto simp: map_kernel_page_def map_stack_page_def)
  have "can_take al k (snd w)" using can_take_le[OF assms] by simp
  with a show "\<exists>w'. map_user_page flat_mapper al pml4 fl page w = Done w' \<and> can_take al k (snd w')"
    by (cases w) (auto simp: map_user_page_def)
qed

lemma flat_pages:
  assumes step: "\<And>page w k. can_take al (Suc k) (snd w) \<Longrightarrow> \<exists>w'. f page w = Done w' \<and> can_take al k (snd w')"
  shows "can_take al (length pages + k) (snd w) \<Longrightarrow> \<exists>w'. run_fold f pages w = Done w' \<and> can_take al k (snd w')"
proof (induction pages arbitrary: w)
  case (Cons page pages)
  from Cons.prems have "can_take al (Suc (length pages + k)) (snd w)" by simp
  from step[OF this, of page] obtain w1 where "f page w = Done w1" "can_take al (length pages + k) (snd w1)" by blast
  with Cons.IH show ?case by simp
qed simp

lemma flat_heap_pages:
  "can_take al (length pages + k) (snd w) \<Longrightarrow> \<exists>w'. map_heap_pages flat_mapper al pml4 pages w = Done (True, w') \<and> can_take al k (snd w')"
proof (induction pages arbitrary: w)
  case (Cons page pages)
  then obtain f s where "al (snd w) = Done (Some f, s)" "can_take al (length pages + k) s" by (auto simp: can_take_Suc simp del: can_take.simps)
  with Cons.IH show ?case by simp
qed simp

lemma flat_spawn:
  assumes "can_take al (8 + k) (p_alloc (os_space w))" "next_id w \<le> 1000" "task_count (sched (kern (os_machine w))) < 1000"
  shows "\<exists>w'. spawn_task flat_mapper al pml4 nt w = Done w' \<and> can_take al k (p_alloc (os_space w')) \<and> next_id w' = Suc (next_id w)
    \<and> task_count (sched (kern (os_machine w'))) = Suc (task_count (sched (kern (os_machine w))))"
proof -
  have n: "next_id w \<le> 13421771" using assms(2) by simp
  obtain start stop where st: "stack_start_virt (next_id w) = Done start" "add_or_panic start STACK_SIZE = Done stop"
    "unat start = 0xFFFFFE0000001000 + next_id w * 40960" "unat stop = 0xFFFFFE0000009000 + next_id w * 40960" by (rule stack_bounds[OF n])
  obtain pages where pg: "stack_pages flat_mapper start stop = Done pages" "length pages = 8"
    using stack_pages_set[OF share_laws n st(3,4)] by (auto simp: stack_pages_def)
  have cap: "can_take al (length pages + k) (snd (os_tables w))" using assms(1) pg(2) by simp
  have "\<exists>t w'. create_task flat_mapper al pml4 nt w = Done (t, w') \<and> can_take al k (p_alloc (os_space w')) \<and> next_id w' = Suc (next_id w)
      \<and> sched (kern (os_machine w')) = sched (kern (os_machine w))"
  proof (cases nt)
    case (Kernel_task entry)
    obtain ts where ts: "run_fold (map_kernel_page flat_mapper al pml4 (PRESENT OR WRITABLE)) pages (os_tables w) = Done ts" "can_take al k (snd ts)"
      using flat_pages[of al "map_kernel_page flat_mapper al pml4 (PRESENT OR WRITABLE)", OF flat_page(1) cap] by blast
    obtain sp mem where f: "new_kernel_frame stop entry (slots_of (os_machine w)) = (sp, mem)" by (cases "new_kernel_frame stop entry (slots_of (os_machine w))")
    show ?thesis using task_new_run[OF st(1,2) pg(1) ts(1) f] ts(2) assms(2) Kernel_task by (simp add: create_task_def created_def)
  next
    case (User_task c)
    obtain ts where ts: "run_fold (map_stack_page flat_mapper al pml4 (process_table w c)) pages (os_tables w) = Done ts" "can_take al k (snd ts)"
      using flat_pages[of al "map_stack_page flat_mapper al pml4 (process_table w c)", OF flat_page(2) cap] by blast
    obtain sp mem where f: "new_user_frame stop (proc_heap (kern (os_machine w)) c) (slots_of (os_machine w)) = (sp, mem)"
      by (cases "new_user_frame stop (proc_heap (kern (os_machine w)) c) (slots_of (os_machine w))")
    show ?thesis using task_new_user_run[OF st(1,2) pg(1) ts(1) f] ts(2) assms(2) User_task by (simp add: create_task_def created_def)
  qed
  then show ?thesis using assms(3) by (auto simp: spawn_task_def queue_task_def add_task_def usize_add_def)
qed

definition demo_init :: "u8 list" where
  "demo_init = [0x7F, 0x45, 0x4C, 0x46, 2, 1, 1, 0] @ [0, 0, 0, 0, 0, 0, 0, 0] @ [2, 0, 62, 0, 1, 0, 0, 0]
     @ [0, 0, 0x40, 0, 0, 0, 0, 0] @ [64, 0, 0, 0, 0, 0, 0, 0] @ [0, 0, 0, 0, 0, 0, 0, 0]
     @ [0, 0, 0, 0, 64, 0, 56, 0] @ [0, 0, 0, 0, 0, 0, 0, 0]"

lemma demo_init_parses: "parse_header demo_init
  = Done (Inr \<lparr>eh_entry = 0x400000, program_header_offset = 64, program_header_entry_size = 56, program_header_count = 0\<rparr>)"
proof -
  have l: "length demo_init < usize_limit" by (simp add: demo_init_def)
  have c: "ELF_MAGIC = [0x7F, 0x45, 0x4C, 0x46]" "ELF_CLASS_64 = 2" "ELF_DATA_LITTLE_ENDIAN = 1" "ELF_TYPE_EXEC = 2"
    "ELF_TYPE_DYN = 3" "ELF_MACHINE_X86_64 = 62"
    by (simp_all add: ELF_MAGIC_def ELF_CLASS_64_def ELF_DATA_LITTLE_ENDIAN_def ELF_TYPE_EXEC_def ELF_TYPE_DYN_def ELF_MACHINE_X86_64_def)
  show ?thesis unfolding parse_header_eq[OF l] c by (simp add: demo_init_def sub_slice_def le_u16_def le_u64_def)
qed

definition demo_board :: "(u64 option, descriptor list, unit, unit, unit) board" where
  "demo_board = \<lparr>bd_entry = share_entry, bd_mapper = flat_mapper, bd_phys = x86_phys,
     bd_memory = write_mem 0xffff900000000000 (initramfs demo_init demo_init demo_init) demo_map_memory,
     bd_gdt = build_gdt list_append 0x6000 [], bd_double_fault_stack = 0x8000, bd_per_cpu = 0x9000, bd_syscall_entry = 0xffffffff80001000,
     bd_lapic = (\<lambda>_ _. 0), bd_pci = (\<lambda>_. 0xFFFFFFFF), bd_io = \<lparr>rd = (\<lambda>_ d. (0, d)), wr = (\<lambda>_ _ d. d)\<rparr>,
     bd_from_rsdp = (\<lambda>_. Inl ()), bd_platform_info = (\<lambda>_. Inl ()), bd_tsc = (\<lambda>_. 0), bd_ready = (\<lambda>_. 0),
     bd_heartbeat = 0xffffffff80002000, bd_worker = 0xffffffff80003000, bd_idle = 0xffffffff80004000\<rparr>"

lemma flat_start_process:
  assumes "bd_mapper bd = flat_mapper" "can_take (bd_alloc bd) (17 + k) (p_alloc (os_space w))" "next_id w \<le> 1000"
    "task_count (sched (kern (os_machine w))) < 1000"
  shows "\<exists>w'. start_process bd pml4 demo_init w = Done w' \<and> can_take (bd_alloc bd) k (p_alloc (os_space w')) \<and> next_id w' = Suc (next_id w)
    \<and> task_count (sched (kern (os_machine w'))) = Suc (task_count (sched (kern (os_machine w))))"
proof -
  let ?al = "bd_alloc bd" and ?sp = "os_space w"
  obtain q t s where q: "create_process_pml4 (bd_entry bd) ?al pml4 (p_tables ?sp, p_alloc ?sp) = Done (q, t, s)" "can_take ?al (16 + k) s"
  proof -
    have "can_take ?al (Suc (16 + k)) (p_alloc ?sp)" using assms(2) by simp
    from iffD1[OF can_take_Suc this] obtain f s where "?al (p_alloc ?sp) = Done (Some f, s)" "can_take ?al (16 + k) s" by blast
    then show ?thesis using that by (simp add: create_process_pml4_def Let_def del: upt_rec_numeral can_take.simps)
  qed
  let ?pages = "page_range share_mapper (page_base 0x700000000000) (page_base 0x700000007FFF)"
  have "length ?pages = 8" by (simp add: page_base_def)
  then have cap: "can_take ?al (length ?pages + (8 + k)) (snd (t, s))" using q(2) by (simp del: can_take.simps add: add.commute)
  obtain t' s' where r: "run_fold (map_user_page flat_mapper ?al q (PRESENT OR USER_ACCESSIBLE OR WRITABLE)) ?pages (t, s) = Done (t', s')"
    "can_take ?al (8 + k) s'"
    using flat_pages[of ?al "map_user_page flat_mapper ?al q (PRESENT OR USER_ACCESSIBLE OR WRITABLE)", OF flat_page(3) cap] by auto
  obtain p sp where e: "new_from_elf (bd_entry bd) flat_mapper ?al pml4 demo_init ?sp = Done (Inr p, sp)" "p_alloc sp = s'"
    using q(1) r(1) by (simp add: new_from_elf_def demo_init_parses map_user_region_def process_id_new_def Let_def)
  obtain w1 where sh: "share_process p (w\<lparr>os_space := sp\<rparr>) = (os_procs w, w1)" and w: "p_alloc (os_space w1) = s'" "next_id w1 = next_id w"
    "sched (kern (os_machine w1)) = sched (kern (os_machine w))"
    using e(2) by (simp add: share_process_def Let_def)
  from flat_spawn[of ?al k w1 pml4 "User_task (os_procs w)", unfolded w, OF r(2) assms(3,4)] show ?thesis
    by (simp add: start_process_def assms(1) e(1) sh)
qed

definition demo_handoff :: boot_info where
  "demo_handoff = (boot_info_uefi ABI_VERSION)\<lparr>bi_memory_map := bi_memory_map demo_boot_info, bi_kernel_image_base := 0xffffffff80000000,
     bi_kernel_image_size := 0x100000, bi_physical_memory_offset := 0xffff800000000000, bi_ramdisk_addr := 0xffff900000000000,
     bi_ramdisk_size := of_nat (length (initramfs demo_init demo_init demo_init))\<rparr>"

definition demo_kernel_state :: "(u64 option, descriptor list, unit) kernel_state" where
  "demo_kernel_state = \<lparr>k_os = demo_os, k_heap = fsb_new,
     k_arch = \<lparr>a_gdtr = None, a_cs = 0, a_ds = 0, a_es = 0, a_ss = 0, a_tr = 0, a_ist0 = 0, a_gs_base = 0, a_kernel_gs_base = 0,
       a_idt_loaded = False, a_pics_disabled = False, a_apic_base_msr = 0xFEE00900, a_star = 0, a_lstar = 0, a_sfmask = 0, a_efer = 0,
       a_mmio = [], a_lapic = 0, a_ioapic = 0\<rparr>,
     k_disks = \<lparr>dk_device = (), dk_controller = None, dk_ports = []\<rparr>, k_acpi = acpi_new, k_smp = smp_new,
     k_files = (vfs_new, tty_new, \<lparr>scr_fb = None, scr_console = None, scr_vram = (\<lambda>_. 0)\<rparr>),
     k_phys_mem_offset = None, k_serial = \<lparr>ser_reads = 0, ser_outs = []\<rparr>, k_log = []\<rparr>"

lemma demo_ramdisk_length: "length (initramfs demo_init demo_init demo_init) = 4731"
  using length_glyphs[of 256] by (simp add: initramfs_def add_file_block ascii_def font_eq demo_init_def del: length_concat)

lemma demo_board_frames: "allocate_frame x86_phys (bd_memory demo_board) (demo_fa n) = allocate_frame x86_phys demo_map_memory (demo_fa n)"
proof -
  let ?img = "initramfs demo_init demo_init demo_init" and ?mm = "bi_memory_map demo_boot_info"
  have out: "write_mem 0xffff900000000000 ?img demo_map_memory a = demo_map_memory a" if "unat a < 0x10000" for a
    using that by (subst write_mem_range) (simp_all add: demo_ramdisk_length)
  have g: "mm_get (bd_memory demo_board) ?mm i = mm_get demo_map_memory ?mm i" for i
  proof (cases "i < 2")
    case True
    have "read_mem (bd_memory demo_board) (0x7000 + of_nat j) n = read_mem demo_map_memory (0x7000 + of_nat j) n" if "j + n \<le> 80" for j n
    proof -
      have "unat (0x7000 + of_nat j + of_nat x :: u64) < 0x10000" if "x < n" for x
        using of_nat_inverse[of "0x7000 + j + x", where 'a = 64] that \<open>j + n \<le> 80\<close> by simp
      then show ?thesis by (auto simp: read_mem_def demo_board_def out)
    qed
    from this[of 0 4] this[of 4 4] this[of 8 8] this[of 16 8] this[of 24 8] this[of 32 8]
      this[of 40 4] this[of 44 4] this[of 48 8] this[of 56 8] this[of 64 8] this[of 72 8] True
    show ?thesis by (cases "i = 0") (auto simp: mm_get_def demo_boot_info_def boot_info_uefi_def entry_count_def usize_checked_mul_def read_descriptor_def less_2_cases_iff)
  qed (simp add: mm_get_def demo_boot_info_def boot_info_uefi_def entry_count_def)
  have "frame_loop (bd_memory demo_board) fa i = frame_loop demo_map_memory fa i" if "fa_memory_map fa = ?mm" for fa i
    using that
  proof (induction "bd_memory demo_board" fa i rule: frame_loop.induct)
    case (1 fa i)
    then show ?case by (subst (1 2) frame_loop.simps) (auto simp: mm_next_def g Let_def split: option.splits intro!: run_bind_cong)
  qed
  then show ?thesis by (simp add: allocate_frame_def allocate_physical_frame_def)
qed

abbreviation board_alloc :: "frame_allocator \<Rightarrow> (u64 option \<times> frame_allocator) run" where
  "board_alloc \<equiv> allocate_frame x86_phys (bd_memory demo_board)"

lemma board_sel [simp]:
  "bd_entry demo_board = share_entry" "bd_mapper demo_board = flat_mapper" "bd_phys demo_board = x86_phys" "bd_pci demo_board = (\<lambda>_. 0xFFFFFFFF)"
  "bd_per_cpu demo_board = 0x9000" "bd_heartbeat demo_board = 0xffffffff80002000" "bd_worker demo_board = 0xffffffff80003000"
  "bd_idle demo_board = 0xffffffff80004000"
  by (simp_all add: demo_board_def)

lemma board_can_take:
  "0x200000 \<le> n \<Longrightarrow> 4096 dvd unat n \<Longrightarrow> unat n + 4096 * k \<le> 0x280000 \<Longrightarrow> can_take board_alloc k (demo_fa n)"
proof (induction k arbitrary: n)
  case (Suc k)
  have u: "unat (n + 0x1000) = unat n + 4096" using Suc.prems(3) unat_add_no_wrap[of n "0x1000"] by simp
  have "n < 0x280000" using Suc.prems(3) by (simp add: word_less_nat_alt)
  note d = demo_frame[OF Suc.prems(1) this Suc.prems(2)]
  have "can_take board_alloc k (demo_fa (n + 0x1000))"
    using Suc.prems u by (intro Suc.IH) (simp_all add: word_le_nat_alt)
  with d show ?case by (simp add: demo_board_frames)
qed simp

lemma board_first: "can_take board_alloc (Suc 100) (frame_allocator_new demo_handoff)"
proof -
  have f: "frame_allocator_new demo_handoff = demo_fa 0x100000" by (simp add: frame_allocator_new_def demo_handoff_def LOW_MEMORY_CUTOFF_def)
  have a: "board_alloc (demo_fa 0x100000) = Done (Some 0x200000, demo_fa 0x201000)" unfolding demo_board_frames
    by (simp add: allocate_frame_def demo_alloc frame_align_up_def checked_add_def PAGE_SIZE_def max_def x86_phys_def)
  have "can_take board_alloc 100 (demo_fa 0x201000)" by (rule board_can_take) simp_all
  with a show ?thesis unfolding f can_take_Suc by blast
qed

lemma board_memory:
  "\<exists>st'. boot_memory demo_board demo_handoff st = Done st' \<and> k_phys_mem_offset st' = Some 0xffff800000000000 \<and> k_arch st' = k_arch st
    \<and> k_disks st' = k_disks st \<and> k_acpi st' = k_acpi st \<and> k_smp st' = k_smp st \<and> can_take board_alloc 75 (p_alloc (os_space (k_os st')))" if "k_heap st = fsb_new" for st
proof -
  let ?t = "p_tables (os_space (k_os st))"
  have v: "bi_physical_memory_offset demo_handoff = 0xffff800000000000" by (simp add: demo_handoff_def)
  let ?pages = "page_range share_mapper (page_base HEAP_START) (page_base (HEAP_START + HEAP_SIZE - 1))"
  have "length ?pages = 25" by (simp add: HEAP_START_def HEAP_SIZE_def page_base_def)
  then have "can_take board_alloc (length ?pages + 76) (snd (?t, frame_allocator_new demo_handoff))" using board_first by (simp del: can_take.simps)
  from flat_heap_pages[OF this, of "active_table st"] obtain w1 where w1: "map_heap_pages flat_mapper board_alloc (active_table st) ?pages (?t, frame_allocator_new demo_handoff) = Done (True, w1)"
    "can_take board_alloc (Suc 75) (snd w1)" by auto
  obtain h where h: "fsb_init (unat HEAP_START) (unat HEAP_SIZE) fsb_new = Done h"
    using fsb_init_inv[of "unat HEAP_START" "unat HEAP_SIZE"] by (auto simp: HEAP_START_def HEAP_SIZE_def)
  have ih: "init_heap flat_mapper board_alloc (active_table st) ((?t, frame_allocator_new demo_handoff), fsb_new) = Done (True, w1, h)"
    using w1(1) h by (simp add: init_heap_def)
  obtain w2 where w2: "init_kernel_stack_region flat_mapper board_alloc (active_table st) w1 = Done w2" "can_take board_alloc 75 (snd w2)"
  proof -
    from iffD1[OF can_take_Suc w1(2)] obtain f s where a: "board_alloc (snd w1) = Done (Some f, s)" "can_take board_alloc 75 s" by blast
    have "can_take board_alloc 75 (snd w1)" by (rule can_take_le[OF w1(2)]) simp
    with a show ?thesis using that[of w1] that[of "(write_entry (active_table st) (unat (page_base KERNEL_STACK_REGION_BASE) div 4096) (Some f) (fst w1), s)"]
      by (cases "mp_translate flat_mapper (active_table st) (fst w1) (page_base KERNEL_STACK_REGION_BASE)")
         (simp_all add: init_kernel_stack_region_def Let_def del: can_take.simps)
  qed
  show ?thesis unfolding boot_memory_def v flat_sel board_sel run_bind_simps Let_def active_table_def[symmetric]
    using that ih w2 by (simp add: writeln_def active_table_def set_tables_def del: can_take.simps)
qed

lemma board_arch:
  assumes "k_arch st = k_arch demo_kernel_state"
  shows "\<exists>st'. boot_arch demo_board 0xffff800000000000 st = Done st' \<and> os_space (k_os st') = os_space (k_os st)
    \<and> k_disks st' = k_disks st \<and> k_acpi st' = k_acpi st \<and> k_smp st' = k_smp st"
proof -
  obtain a1 where a1: "gdt_init (va_add flat_mapper) (bd_gdt demo_board) (bd_double_fault_stack demo_board) 0x9000 (k_arch demo_kernel_state) = Done a1"
    "a_apic_base_msr a1 = 0xFEE00900" by (simp add: gdt_init_def load_segments_of_def demo_kernel_state_def)
  have "\<exists>a2. interrupts_init (va_new flat_mapper) (va_add flat_mapper) (bd_lapic demo_board) 0xffff800000000000 a1 = Done a2"
    by (simp add: interrupts_init_def init_idt_def get_base_addr_def a1(2) lapic_initialize_def start_timer_def lapic_write_def lapic_read_def
        add_or_panic_def Let_def)
  then obtain a2 where "interrupts_init (va_new flat_mapper) (va_add flat_mapper) (bd_lapic demo_board) 0xffff800000000000 a1 = Done a2" by blast
  moreover have "\<exists>a3. syscall_init (va_new flat_mapper) (bd_syscall_entry demo_board) a2 = Done a3" by (simp add: syscall_init_def Let_def)
  ultimately show ?thesis using a1(1) assms by (auto simp: boot_arch_def Let_def writeln_def)
qed

lemma wait_fold_same: "(\<And>x. f x s = Some (Done s)) \<Longrightarrow> wait_fold f xs s = Some (Done s)"
  by (induction xs) simp_all

lemma board_devices:
  assumes "k_acpi st = acpi_new"
  shows "\<exists>st'. boot_devices demo_board demo_handoff off st = Some (Done st') \<and> k_os st' = k_os st"
proof -
  have b: "bfb_addr (bi_framebuffer demo_handoff) = 0" "bi_rsdp_addr demo_handoff = 0" by (simp_all add: demo_handoff_def boot_info_uefi_def)
  have "get_vendor_id (\<lambda>_. 0xFFFFFFFF) bus slot 0 = 0xFFFF" for bus slot by (simp add: get_vendor_id_def pci_config_read_word_def)
  then have "scan_slot (\<lambda>_. 0xFFFFFFFF) io va off bs s = Some (Done s)" for io :: "unit mmio" and va off bs s by (cases bs) (simp add: scan_slot_def)
  then have p: "pci_init (\<lambda>_. 0xFFFFFFFF) (bd_io demo_board) va off d = Some (Done ([], d))" for va off d
    unfolding pci_init_def enumerate_pci_def by (rule wait_fold_same)
  show ?thesis using assms b p
    by (cases "k_files st") (simp add: boot_devices_def video_init_def acpi_init_def smp_init_def acpi_new_def Let_def writeln_def)
qed

lemma dispatch_returns:
  assumes "started (x # xs) w"
  shows "\<exists>m'. first_dispatch ((os_machine w)\<lparr>rflags := r\<rparr>) = Done m'"
proof -
  let ?k = "kern (os_machine w)"
  obtain t ts where t: "tasks (sched ?k) = t # ts" using assms by (cases "tasks (sched ?k)") (auto simp: started_def)
  then have "stack_ok t" "saved_ok t" using assms by (auto simp: started_def ready_inv_def)
  then have "stack_ptr t \<noteq> 0" using stack_ok_top[of t] by (auto simp: saved_ok_def)
  then show ?thesis using t by (simp add: first_dispatch_def start_scheduling_def pop_front_def Let_def)
qed

lemma board_programs:
  assumes files: "k_files st = (v, t, scr)" "3 \<le> free_files v" "on_disk (ascii ''init'') demo_init v" "on_disk (ascii ''shell'') demo_init v"
      "on_disk (ascii ''fault-tester'') demo_init v"
    and os: "can_take board_alloc 75 (p_alloc (os_space (k_os st)))" "next_id (k_os st) = 1" "task_count (sched (kern (os_machine (k_os st)))) = 0"
  shows "\<exists>st' st''. boot_programs demo_board st = Done st' \<and> boot_tasks demo_board st' = Done st''"
proof -
  have opt: "\<exists>st' v'. start_optional demo_board name stage st = Done st' \<and> k_files st' = (v', t, scr) \<and> n \<le> free_files v'
      \<and> (\<forall>name d. on_disk name d v' = on_disk name d v) \<and> can_take board_alloc k (p_alloc (os_space (k_os st'))) \<and> next_id (k_os st') = Suc (next_id (k_os st))
      \<and> task_count (sched (kern (os_machine (k_os st')))) = Suc (task_count (sched (kern (os_machine (k_os st)))))"
    if "k_files st = (v, t, scr)" "on_disk name demo_init v" "Suc n \<le> free_files v" "can_take board_alloc (17 + k) (p_alloc (os_space (k_os st)))"
      "next_id (k_os st) \<le> 1000" "task_count (sched (kern (os_machine (k_os st)))) < 1000" for st name stage n k v
  proof -
    note pr = that
    obtain v' where v': "read_file name (v, t, scr) = Done (Some (of_nat (length demo_init), Some demo_init), v', t, scr)"
      "n \<le> free_files v'" "\<forall>name d. on_disk name d v' = on_disk name d v" using read_on_disk[OF pr(2,3), of t scr] by blast
    obtain w where "start_process demo_board (active_table st) demo_init (k_os st) = Done w" "can_take board_alloc k (p_alloc (os_space w))"
      "next_id w = Suc (next_id (k_os st))" "task_count (sched (kern (os_machine w))) = Suc (task_count (sched (kern (os_machine (k_os st)))))"
      using flat_start_process[of demo_board k "k_os st" "active_table st"] pr(4-6) by auto
    then show ?thesis using pr(1) v' by (simp add: start_optional_def active_table_def writeln_def del: can_take.simps)
  qed
  obtain v1 where v1: "read_file (ascii ''init'') (v, t, scr) = Done (Some (of_nat (length demo_init), Some demo_init), v1, t, scr)"
    "2 \<le> free_files v1" "\<forall>name d. on_disk name d v1 = on_disk name d v"
    using read_on_disk[OF files(3), of 2 t scr] files(2) by auto
  obtain w where w: "start_process demo_board (active_table st) demo_init (k_os st) = Done w" "can_take board_alloc 58 (p_alloc (os_space w))"
    "next_id w = 2" "task_count (sched (kern (os_machine w))) = 1"
    using flat_start_process[of demo_board 58 "k_os st" "active_table st"] os by auto
  let ?st = "(writeln (Stage ''INIT_READ_DONE'') (writeln (Init_size_line (of_nat (length demo_init)))
    ((writeln (Stage ''INIT_LOAD'') st)\<lparr>k_files := (v1, t, scr)\<rparr>)))\<lparr>k_os := w\<rparr>"
  obtain st2 v2 where s2: "start_optional demo_board (ascii ''shell'') ''SHELL_READY'' ?st = Done st2" "k_files st2 = (v2, t, scr)" "1 \<le> free_files v2"
    "\<forall>name d. on_disk name d v2 = on_disk name d v1" "can_take board_alloc 41 (p_alloc (os_space (k_os st2)))" "next_id (k_os st2) = 3"
    "task_count (sched (kern (os_machine (k_os st2)))) = 2"
    using opt[of ?st v1 "ascii ''shell''" 1 41 "''SHELL_READY''"] files(4) v1(2,3) w(2-4) by auto
  obtain st3 where s3: "start_optional demo_board (ascii ''fault-tester'') ''FAULT_TESTER_READY'' st2 = Done st3"
    "can_take board_alloc (8 + 16) (p_alloc (os_space (k_os st3)))" "next_id (k_os st3) = 4" "task_count (sched (kern (os_machine (k_os st3)))) = 3"
    using opt[of st2 v2 "ascii ''fault-tester''" 0 24 "''FAULT_TESTER_READY''"] files(5) v1(3) s2(2-7) by auto
  have p: "boot_programs demo_board st = Done (writeln (Stage ''INIT_READY'') st3)"
    by (simp add: boot_programs_def files(1) v1(1) w(1) s2(1) s3(1) Let_def)
  let ?spawn = "spawn_task flat_mapper board_alloc (active_table st3)"
  obtain w1 where w1: "?spawn (Kernel_task 0xffffffff80002000) (k_os st3) = Done w1" "can_take board_alloc (8 + 8) (p_alloc (os_space w1))"
    "next_id w1 = 5" "task_count (sched (kern (os_machine w1))) = 4"
    using flat_spawn[OF s3(2), of "active_table st3" "Kernel_task 0xffffffff80002000"] s3(3,4) by auto
  obtain w2 where w2: "?spawn (Kernel_task 0xffffffff80003000) w1 = Done w2" "can_take board_alloc (8 + 0) (p_alloc (os_space w2))"
    "next_id w2 = 6" "task_count (sched (kern (os_machine w2))) = 5"
    using flat_spawn[OF w1(2), of "active_table st3" "Kernel_task 0xffffffff80003000"] w1(3,4) by auto
  obtain w3 where "?spawn (Kernel_task 0xffffffff80004000) w2 = Done w3"
    using flat_spawn[OF w2(2), of "active_table st3" "Kernel_task 0xffffffff80004000"] w2(3,4) by auto
  with p w1(1) w2(1) show ?thesis by (simp add: boot_tasks_def)
qed

lemma demo_early_boot: "\<exists>st'. early_boot demo_board demo_handoff demo_kernel_state = Some (Done st')"
proof -
  let ?st = "demo_kernel_state\<lparr>k_serial := serial_init (k_serial demo_kernel_state)\<rparr>" and ?img = "initramfs demo_init demo_init demo_init"
  have val: "validate_boot_info demo_handoff = Inr ()"
    by (simp add: validate_boot_info_def demo_handoff_def demo_boot_info_def boot_info_uefi_def ABI_VERSION_def demo_ramdisk_length)
  have "k_heap ?st = fsb_new" by (simp add: demo_kernel_state_def)
  from board_memory[OF this] obtain s1 where 1: "boot_memory demo_board demo_handoff ?st = Done s1" "k_phys_mem_offset s1 = Some 0xffff800000000000"
    "k_arch s1 = k_arch demo_kernel_state" "k_acpi s1 = acpi_new" "can_take board_alloc 75 (p_alloc (os_space (k_os s1)))" by (auto simp: demo_kernel_state_def)
  note m1 = boot_memory_phase[OF 1(1)]
  from board_arch[OF 1(3)] obtain s2 where 2: "boot_arch demo_board 0xffff800000000000 s1 = Done s2" "os_space (k_os s2) = os_space (k_os s1)"
    "k_acpi s2 = acpi_new" using 1(4) by auto
  note m2 = boot_arch_phase[OF 2(1)]
  from board_devices[OF 2(3)] obtain s3 where 3: "boot_devices demo_board demo_handoff 0xffff800000000000 s2 = Some (Done s3)" "k_os s3 = k_os s2" by blast
  note m3 = boot_devices_phase[OF 3(1)]
  have vfs: "fst (k_files s3) = vfs_new" using m3(2) m2(4) m1(3) by (auto simp: demo_kernel_state_def)
  have b: "bi_ramdisk_addr demo_handoff \<noteq> 0" "bi_ramdisk_size demo_handoff = of_nat (length ?img)" "length ?img + 72 \<le> vec_limit"
    "read_mem (bd_memory demo_board) (bi_ramdisk_addr demo_handoff) (length ?img) = ?img"
    using read_write_mem[of ?img "0xffff900000000000"] by (simp_all add: demo_handoff_def demo_board_def demo_ramdisk_length vec_limit_def)
  obtain s4 v t scr where 4: "boot_files demo_board demo_handoff s3 = Done s4" "k_os s4 = k_os s3" "k_files s4 = (v, t, scr)" "3 \<le> free_files v"
    "on_disk (ascii ''init'') demo_init v" "on_disk (ascii ''shell'') demo_init v" "on_disk (ascii ''fault-tester'') demo_init v"
    by (rule boot_files_phase[OF vfs b]) blast
  obtain g where m: "os_machine (k_os s4) = (os_machine (k_os demo_kernel_state))\<lparr>gs_kernel := g\<rparr>" using 4(2) m3(1) m2(1) m1(1) by auto
  have i: "kernel_initial (kern (os_machine (k_os s4)))" by (simp add: m demo_kernel_state_def demo_os_def kernel_initial_def)
  have st: "started [] (k_os s4)" unfolding started_def using initial_inv[OF i] i 4(2) m3(1) m2(2)
    by (simp add: ready_inv_def kernel_initial_def scheduler_new_def)
  have os: "can_take board_alloc 75 (p_alloc (os_space (k_os s4)))" "next_id (k_os s4) = 1" "task_count (sched (kern (os_machine (k_os s4)))) = 0"
    using 1(5) 2(2) 3(2) 4(2) i by (simp_all add: kernel_initial_def scheduler_new_def del: can_take.simps)
  obtain s5 s6 where 5: "boot_programs demo_board s4 = Done s5" "boot_tasks demo_board s5 = Done s6" using board_programs[OF 4(3-7) os] by blast
  obtain ci cs cf pi ps pf where "started [(ci, pi), (cs, ps), (cf, pf)] (k_os s5)" using boot_programs_phase[OF 5(1) 4(3-7) st] by blast
  from dispatch_returns[OF boot_tasks_phase(1)[OF 5(2) this], of "rflags (os_machine (k_os s6)) OR 0x200"]
  obtain m' where "first_dispatch ((os_machine (k_os s6))\<lparr>rflags := rflags (os_machine (k_os s6)) OR 0x200\<rparr>) = Done m'" by blast
  then have "\<exists>s7. boot_dispatch s6 = Done s7" by (simp add: boot_dispatch_def Let_def)
  with val 1(1,2) 2(1) 3(1) 4(1) 5 show ?thesis by (auto simp: early_boot_def)
qed

theorem boots_into_init_witness:
  "\<exists>st' pi. early_boot demo_board demo_handoff demo_kernel_state = Some (Done st')
    \<and> running (os_machine (k_os st')) = Some (1, user_context 0x400000 0x700000008000, pi)
    \<and> map fst (queued (os_machine (k_os st'))) = [2, 3, 4, 5, 6] \<and> last (stages (k_log st')) = ''SCHED_START''"
proof -
  let ?img = "initramfs demo_init demo_init demo_init"
  obtain st' where r: "early_boot demo_board demo_handoff demo_kernel_state = Some (Done st')" using demo_early_boot by blast
  have i: "kernel_initial (kern (os_machine (k_os demo_kernel_state)))" by (simp add: demo_kernel_state_def demo_os_def kernel_initial_def)
  have v: "fst (k_files demo_kernel_state) = vfs_new" by (simp add: demo_kernel_state_def)
  have b: "bi_ramdisk_size demo_handoff = of_nat (length ?img)" "length ?img + 72 \<le> vec_limit"
    "read_mem (bd_memory demo_board) (bi_ramdisk_addr demo_handoff) (length ?img) = ?img"
    using read_write_mem[of ?img "0xffff900000000000"] by (simp_all add: demo_handoff_def demo_board_def demo_ramdisk_length vec_limit_def)
  have ctx: "ci = user_context 0x400000 0x700000008000" if "program_context (bd_mapper demo_board) demo_init ci" for ci
    using that by (auto simp: program_context_def demo_init_parses)
  note f = boots_into_init[OF r i v b]
  from f obtain ci pi where ci: "program_context (bd_mapper demo_board) demo_init ci" "running (os_machine (k_os st')) = Some (1, ci, pi)"
    "map fst (queued (os_machine (k_os st'))) = [2, 3, 4, 5, 6]" by (elim conjE exE) simp
  have "last (stages (k_log st')) = ''SCHED_START''" using f by (elim conjE) simp
  moreover have "running (os_machine (k_os st')) = Some (1, user_context 0x400000 0x700000008000, pi)" using ci(2) ctx[OF ci(1)] by simp
  ultimately show ?thesis using r ci(3) by (intro exI[of _ st'] exI[of _ pi]) simp
qed

end
