(* ===== verification/Loader_Main.thy ===== *)
theory Loader_Main
  imports Loader_Elf Boot
begin

text \<open>
  The boot loader's program (\<^verbatim>\<open>boot/uefi-loader/src/main.rs\<close>): it loads the kernel and the ramdisk, builds the page tables the
  kernel starts with, and fills in the boot information.  The firmware is a record of what its calls return, page allocations numbered
  by the place of the call; page tables and the bytes of memory are kept apart, as in the model of the kernel's address spaces.
\<close>

unbundle bit_operations_syntax

definition PHYSICAL_MEMORY_OFFSET :: u64 where "PHYSICAL_MEMORY_OFFSET = 0xffff800000000000"
definition RAMDISK_VIRTUAL_BASE :: u64 where "RAMDISK_VIRTUAL_BASE = 0xffff900000000000"
definition HUGE_PAGE :: u64 where "HUGE_PAGE = 0x80"


section \<open>Page tables\<close>

text \<open>\<open>ScratchAllocator\<close>: the next free address of the scratch pages.\<close>

definition scratch_alloc :: "phys_ops \<Rightarrow> u64 \<Rightarrow> (u64 \<times> u64) run" where
  "scratch_alloc po s =
     run_bind (add_or_panic s 4096) (\<lambda>s'. run_bind (pa_new po s) (\<lambda>a. Done (containing_frame po a, s')))"

definition map_image_page ::
  "('e, u64) mapper \<Rightarrow> phys_ops \<Rightarrow> u64 \<Rightarrow> u64 \<Rightarrow> u64 \<Rightarrow> nat \<Rightarrow> 'e tables \<times> u64 \<Rightarrow> ('e tables \<times> u64) run" where
  "map_image_page mp po pml4 virtual_base physical_base i w =
     run_bind (mul_or_panic (of_nat i) 4096) (\<lambda>off.
     run_bind (add_or_panic virtual_base off) (\<lambda>v. run_bind (va_new mp v) (\<lambda>v.
     run_bind (add_or_panic physical_base off) (\<lambda>p. run_bind (pa_new po p) (\<lambda>p.
     run_bind (mp_map_to mp pml4 (page_of mp v) (containing_frame po p) (PRESENT OR WRITABLE) w) (\<lambda>(mapped, w).
     if mapped then Done w else Panic))))))"

text \<open>What the crate offers for pages of two megabytes.\<close>

record 'e huge_ops =
  page_2m :: "u64 \<Rightarrow> u64"
  frame_2m :: "u64 \<Rightarrow> u64"
  set_addr :: "u64 \<Rightarrow> u64 \<Rightarrow> 'e"

text \<open>The table an entry leads to, made first if the entry is unused.\<close>

definition ensure_table ::
  "'e entry_ops \<Rightarrow> phys_ops \<Rightarrow> u64 \<Rightarrow> nat \<Rightarrow> 'e tables \<times> u64 \<Rightarrow> (u64 \<times> 'e tables \<times> u64) run" where
  "ensure_table ops po f i w =
     run_bind
       (if is_unused ops (fst w f i) then
          run_bind (scratch_alloc po (snd w)) (\<lambda>(new_frame, s).
          Done ((write_entry f i (set_frame ops new_frame (PRESENT OR WRITABLE)) (fst w))(new_frame := (\<lambda>_. zero_entry ops)), s))
        else Done w) (\<lambda>(t, s).
     run_bind (run_the (entry_frame ops (t f i))) (\<lambda>g. Done (g, t, s)))"

definition map_2mib ::
  "'e entry_ops \<Rightarrow> 'e huge_ops \<Rightarrow> ('e, u64) mapper \<Rightarrow> phys_ops \<Rightarrow> u64 \<Rightarrow> nat \<Rightarrow> 'e tables \<times> u64 \<Rightarrow> ('e tables \<times> u64) run" where
  "map_2mib ops ho mp po pml4 i w =
     run_bind (mul_or_panic (of_nat i) (2 * 1024 * 1024)) (\<lambda>off.
     run_bind (add_or_panic PHYSICAL_MEMORY_OFFSET off) (\<lambda>addr. run_bind (va_new mp addr) (\<lambda>v. run_bind (pa_new po off) (\<lambda>p.
     let page = page_2m ho v; frame = frame_2m ho p in
     run_bind (ensure_table ops po pml4 (p_index mp 4 page) w) (\<lambda>(pdpt, w).
     run_bind (ensure_table ops po pdpt (p_index mp 3 page) w) (\<lambda>(pd, t, s).
     Done (write_entry pd (p_index mp 2 page) (set_addr ho frame (PRESENT OR WRITABLE OR HUGE_PAGE)) t, s)))))))"

definition setup_mappings ::
  "'e entry_ops \<Rightarrow> 'e huge_ops \<Rightarrow> ('e, u64) mapper \<Rightarrow> phys_ops \<Rightarrow> u64 \<Rightarrow> u64 \<Rightarrow> u64 \<Rightarrow> loaded_kernel \<Rightarrow> u64 \<Rightarrow> u64 \<Rightarrow> 'e tables \<Rightarrow> 'e tables run" where
  "setup_mappings ops ho mp po old_pml4 pml4 scratchpad_phys loaded ramdisk_phys ramdisk_size t =
     (let t = fold (\<lambda>i t. write_entry pml4 i (t old_pml4 i) t) [0..<256] t in
      run_bind (add_or_panic scratchpad_phys 4096) (\<lambda>s.
      run_bind (run_fold (map_image_page mp po pml4 (lk_virtual_base loaded) (lk_physical_base loaded))
        [0..<div_ceil_4096 (lk_image_size loaded)] (t, s)) (\<lambda>w.
      run_bind (if 0 < ramdisk_size then run_fold (map_image_page mp po pml4 RAMDISK_VIRTUAL_BASE ramdisk_phys)
          [0..<div_ceil_4096 ramdisk_size] w
        else Done w) (\<lambda>w.
      run_bind (run_fold (map_2mib ops ho mp po pml4) [0..<4096 div 2] w) (\<lambda>(t, s). Done t)))))"


section \<open>The program\<close>

datatype pixel_format = Rgb | Bgr | Other_format

record gop =
  g_addr :: u64
  g_size :: u64
  g_width :: nat
  g_height :: nat
  g_stride :: nat
  g_format :: pixel_format

record firmware_map =
  fm_bytes :: "u8 list"
  fm_map_size :: nat
  fm_desc_size :: nat
  fm_desc_version :: u32

record firmware =
  fw_kernel_file :: "u8 list option"
  fw_ramdisk_file :: "u8 list option"
  fw_allocate_pages :: "nat \<Rightarrow> nat \<Rightarrow> u64 + u64"
  fw_map_size :: "nat option"
  fw_gop :: "gop option"
  fw_final_map :: firmware_map
  fw_cr3 :: u64

definition expect_ok :: "'e + 'a \<Rightarrow> 'a run" where
  "expect_ok r = (case r of Inl _ \<Rightarrow> Panic | Inr x \<Rightarrow> Done x)"

definition load_ramdisk :: "firmware \<Rightarrow> memory \<Rightarrow> (u64 \<times> u64 \<times> memory) run" where
  "load_ramdisk fw mem =
     (let ramdisk_bytes = (case fw_ramdisk_file fw of Some bs \<Rightarrow> bs | None \<Rightarrow> []) in
      if ramdisk_bytes = [] then Done (0, 0, mem)
      else
        let sz = of_nat (length ramdisk_bytes) in
        run_bind (expect_ok (fw_allocate_pages fw 1 (div_ceil_4096 sz))) (\<lambda>phys_addr.
        Done (phys_addr, sz, write_mem phys_addr ramdisk_bytes mem)))"

definition boot_info_of :: "loaded_kernel \<Rightarrow> u64 \<Rightarrow> u64 \<Rightarrow> firmware_map \<Rightarrow> gop \<Rightarrow> boot_info" where
  "boot_info_of loaded ramdisk_size map_buffer fm g =
     (let b = boot_info_uefi ABI_VERSION in
      b\<lparr>bi_flags := bi_flags b OR BOOT_FLAG_BOOT_SERVICES_EXITED,
        bi_kernel_image_base := lk_virtual_base loaded, bi_kernel_image_size := lk_image_size loaded,
        bi_physical_memory_offset := PHYSICAL_MEMORY_OFFSET,
        bi_ramdisk_addr := (if 0 < ramdisk_size then RAMDISK_VIRTUAL_BASE else 0), bi_ramdisk_size := ramdisk_size,
        bi_memory_map := \<lparr>mm_descriptors = map_buffer, mm_map_size = fm_map_size fm, mm_desc_size = fm_desc_size fm,
          mm_desc_version = fm_desc_version fm\<rparr>,
        bi_framebuffer := \<lparr>bfb_addr = g_addr g, bfb_size = g_size g, bfb_width = of_nat (g_width g), bfb_height = of_nat (g_height g),
          bfb_pitch = of_nat (g_stride g), bfb_format = (case g_format g of Bgr \<Rightarrow> 0 | Rgb \<Rightarrow> 1 | Other_format \<Rightarrow> 0)\<rparr>,
        bi_rsdp_addr := 0\<rparr>)"

text \<open>What the kernel is entered with.\<close>

record 'e handover =
  h_entry_point :: u64
  h_boot_info_ptr :: u64
  h_boot_info :: boot_info
  h_cr3 :: u64
  h_tables :: "'e tables"
  h_memory :: memory

definition uefi_main ::
  "firmware \<Rightarrow> 'e entry_ops \<Rightarrow> 'e huge_ops \<Rightarrow> ('e, u64) mapper \<Rightarrow> phys_ops \<Rightarrow> 'e tables \<Rightarrow> memory \<Rightarrow> 'e handover run" where
  "uefi_main fw ops ho mp po t mem =
     run_bind (run_the (fw_kernel_file fw)) (\<lambda>kernel_bytes.
     run_bind (load_kernel (fw_allocate_pages fw 0) kernel_bytes mem) (\<lambda>(r, mem).
     run_bind (expect_ok r) (\<lambda>loaded.
     run_bind (load_ramdisk fw mem) (\<lambda>(ramdisk_phys, ramdisk_size, mem).
     run_bind (expect_ok (fw_allocate_pages fw 2 1)) (\<lambda>boot_info_ptr.
     run_bind (expect_ok (fw_allocate_pages fw 3 256)) (\<lambda>scratchpad_phys.
     run_bind (run_the (fw_map_size fw)) (\<lambda>map_size.
     run_bind (expect_ok (fw_allocate_pages fw 4 ((map_size + 4095) div 4096 + 1))) (\<lambda>map_buffer.
     let pml4 = scratchpad_phys; t = t(pml4 := (\<lambda>_. zero_entry ops)) in
     run_bind (setup_mappings ops ho mp po (fw_cr3 fw) pml4 scratchpad_phys loaded ramdisk_phys ramdisk_size t) (\<lambda>t.
     run_bind (run_the (fw_gop fw)) (\<lambda>g.
     let fm = fw_final_map fw; mem = write_mem map_buffer (take (fm_map_size fm) (fm_bytes fm)) mem in
     Done \<lparr>h_entry_point = lk_entry_point loaded, h_boot_info_ptr = boot_info_ptr,
       h_boot_info = boot_info_of loaded ramdisk_size map_buffer fm g, h_cr3 = pml4, h_tables = t, h_memory = mem\<rparr>))))))))))"


section \<open>The window on physical memory\<close>

text \<open>What the libraries document: entries for tables, the indices of an address, and addresses that are already aligned or canonical.\<close>

definition window_laws :: "'e entry_ops \<Rightarrow> 'e huge_ops \<Rightarrow> ('e, u64) mapper \<Rightarrow> phys_ops \<Rightarrow> bool" where
  "window_laws ops ho mp po \<longleftrightarrow>
     is_unused ops (zero_entry ops)
     \<and> (\<forall>f. phys_frame f \<longrightarrow> \<not> is_unused ops (set_frame ops f (PRESENT OR WRITABLE)) \<and> entry_frame ops (set_frame ops f (PRESENT OR WRITABLE)) = Some f)
     \<and> (\<forall>l v. p_index mp l v = unat v div 2 ^ (12 + 9 * (l - 1)) mod 512)
     \<and> (\<forall>v. 0xffff800000000000 \<le> unat v \<longrightarrow> va_new mp v = Done v)
     \<and> (\<forall>p. unat p < 2 ^ 52 \<longrightarrow> pa_new po p = Done p) \<and> (\<forall>p. 4096 dvd unat p \<longrightarrow> containing_frame po p = p)
     \<and> (\<forall>v. 0x200000 dvd unat v \<longrightarrow> page_2m ho v = v \<and> frame_2m ho v = v)"

lemma window_lawsD:
  assumes "window_laws ops ho mp po"
  shows "is_unused ops (zero_entry ops)" "\<And>f. phys_frame f \<Longrightarrow> \<not> is_unused ops (set_frame ops f (PRESENT OR WRITABLE))"
    "\<And>f. phys_frame f \<Longrightarrow> entry_frame ops (set_frame ops f (PRESENT OR WRITABLE)) = Some f"
    "\<And>l v. p_index mp l v = unat v div 2 ^ (12 + 9 * (l - 1)) mod 512"
    "\<And>v. 0xffff800000000000 \<le> unat v \<Longrightarrow> va_new mp v = Done v" "\<And>p. unat p < 2 ^ 52 \<Longrightarrow> pa_new po p = Done p"
    "\<And>p. 4096 dvd unat p \<Longrightarrow> containing_frame po p = p" "\<And>v. 0x200000 dvd unat v \<Longrightarrow> page_2m ho v = v" "\<And>v. 0x200000 dvd unat v \<Longrightarrow> frame_2m ho v = v"
  using assms unfolding window_laws_def by blast+

text \<open>The tables after the first \<open>n\<close> pages: one table of the third level and one of the second level per gigabyte begun.\<close>

definition pd_frame :: "u64 \<Rightarrow> nat \<Rightarrow> u64" where
  "pd_frame s j = s + of_nat (4096 * (1 + j))"

definition pds :: "nat \<Rightarrow> nat" where
  "pds n = (n + 511) div 512"

definition scratch_after :: "u64 \<Rightarrow> nat \<Rightarrow> u64" where
  "scratch_after s n = s + of_nat (if n = 0 then 0 else 4096 * (1 + pds n))"

definition window ::
  "'e entry_ops \<Rightarrow> 'e huge_ops \<Rightarrow> u64 \<Rightarrow> u64 \<Rightarrow> 'e tables \<Rightarrow> nat \<Rightarrow> 'e tables \<Rightarrow> bool" where
  "window ops ho pml4 s t n t' \<longleftrightarrow>
     (if n = 0 then t' = t
      else t' pml4 = (t pml4)(256 := set_frame ops s (PRESENT OR WRITABLE))
        \<and> t' s = (\<lambda>j. if j < pds n then set_frame ops (pd_frame s j) (PRESENT OR WRITABLE) else zero_entry ops)
        \<and> (\<forall>j<pds n. t' (pd_frame s j) = (\<lambda>k. if k < 512 \<and> 512 * j + k < n
              then set_addr ho (of_nat (512 * j + k) * 0x200000) (PRESENT OR WRITABLE OR HUGE_PAGE) else zero_entry ops))
        \<and> (\<forall>f. f \<noteq> pml4 \<longrightarrow> f \<noteq> s \<longrightarrow> (\<forall>j<pds n. f \<noteq> pd_frame s j) \<longrightarrow> t' f = t f))"

lemma window_index:
  assumes "n < 2048"
  shows "mul_or_panic (of_nat n) (2 * 1024 * 1024) = Done (of_nat n * 0x200000 :: u64)" "unat (of_nat n * 0x200000 :: u64) = n * 0x200000"
    "add_or_panic PHYSICAL_MEMORY_OFFSET (of_nat n * 0x200000) = Done (PHYSICAL_MEMORY_OFFSET + of_nat n * 0x200000)"
    "unat (PHYSICAL_MEMORY_OFFSET + of_nat n * 0x200000) = 0xffff800000000000 + n * 0x200000"
proof -
  have n: "unat (of_nat n :: u64) = n" using of_nat_inverse[of n, where 'a = 64] assms by simp
  show 1: "mul_or_panic (of_nat n) (2 * 1024 * 1024) = Done (of_nat n * 0x200000 :: u64)" using assms n by (simp add: mul_or_panic_def)
  show u: "unat (of_nat n * 0x200000 :: u64) = n * 0x200000" using mul_or_panic_Done[OF 1] n by simp
  show 2: "add_or_panic PHYSICAL_MEMORY_OFFSET (of_nat n * 0x200000) = Done (PHYSICAL_MEMORY_OFFSET + of_nat n * 0x200000)"
    using assms u by (simp add: add_or_panic_def PHYSICAL_MEMORY_OFFSET_def)
  show "unat (PHYSICAL_MEMORY_OFFSET + of_nat n * 0x200000) = 0xffff800000000000 + n * 0x200000"
    using add_or_panic_Done[OF 2] u by (simp add: PHYSICAL_MEMORY_OFFSET_def)
qed

lemma window_indices:
  assumes "window_laws ops ho mp po" "n < 2048" "unat v = 0xffff800000000000 + n * 0x200000 + r" "r < 0x200000"
  shows "p_index mp 4 v = 256" "p_index mp 3 v = n div 512" "p_index mp 2 v = n mod 512"
proof -
  have d: "unat v div 2 ^ 21 = 0x7FFFC000000 + n"
  proof -
    have "unat v = (0x7FFFC000000 + n) * 2 ^ 21 + r" using assms(3) by simp
    then show ?thesis using assms(4) by (simp only: div_mult_self3) simp
  qed
  have "unat v div 2 ^ 30 = unat v div 2 ^ 21 div 512" "unat v div 2 ^ 39 = unat v div 2 ^ 21 div 0x40000"
    by (simp_all add: div_mult2_eq[symmetric])
  then have e: "unat v div 2 ^ 30 = (0x7FFFC000000 + n) div 512" "unat v div 2 ^ 39 = (0x7FFFC000000 + n) div 0x40000" unfolding d by simp_all
  have "(0x7FFFC000000 + n) div 512 = 0x3FFFE0000 + n div 512" "(0x7FFFC000000 + n) div 0x40000 = 0x1FFFF00"
    using assms(2) by simp_all
  moreover have "(512 * 0x3FFFE0000 + n) mod 512 = n mod 512" "(512 * 0x1FFFF00 + n div 512) mod 512 = n div 512 mod 512"
    by (rule mod_mult_self4)+
  moreover have "n div 512 < 512" using assms(2) by simp
  ultimately show "p_index mp 4 v = 256" "p_index mp 3 v = n div 512" "p_index mp 2 v = n mod 512"
    using window_lawsD(4)[OF assms(1)] assms(2) d e by simp_all
qed

lemma ensure_new:
  assumes "window_laws ops ho mp po" "is_unused ops (fst w f i)" "4096 dvd unat (snd w)" "unat (snd w) + 4096 < 2 ^ 52" "f \<noteq> snd w"
  shows "ensure_table ops po f i w = Done (snd w,
    (write_entry f i (set_frame ops (snd w) (PRESENT OR WRITABLE)) (fst w))(snd w := (\<lambda>_. zero_entry ops)), snd w + 4096)"
proof -
  have "add_or_panic (snd w) 4096 = Done (snd w + 4096)" using assms(4) by (simp add: add_or_panic_def)
  moreover have "pa_new po (snd w) = Done (snd w)" using assms(4) by (intro window_lawsD(6)[OF assms(1)]) simp
  ultimately have "scratch_alloc po (snd w) = Done (snd w, snd w + 4096)"
    using window_lawsD(7)[OF assms(1,3)] by (simp add: scratch_alloc_def)
  then show ?thesis using assms(2-5) window_lawsD(3)[OF assms(1), of "snd w"] by (simp add: ensure_table_def write_entry_def phys_frame_def)
qed

lemma ensure_old:
  "\<not> is_unused ops (fst w f i) \<Longrightarrow> entry_frame ops (fst w f i) = Some g \<Longrightarrow> ensure_table ops po f i w = Done (g, w)"
  by (cases w) (simp add: ensure_table_def)

lemma pd_frames:
  assumes "4096 dvd unat s" "unat s + 4096 * 5 < 2 ^ 52" "j < 4"
  shows "unat (pd_frame s j) = unat s + 4096 * (1 + j)" "4096 dvd unat (pd_frame s j)"
proof -
  have "unat (of_nat (4096 * (1 + j)) :: u64) = 4096 * (1 + j)" using assms(3) by (intro of_nat_inverse[OF refl]) simp
  then show u: "unat (pd_frame s j) = unat s + 4096 * (1 + j)"
    using unat_add_no_wrap[of s "of_nat (4096 * (1 + j))"] assms(2,3) by (simp add: pd_frame_def)
  show "4096 dvd unat (pd_frame s j)" unfolding u using assms(1) by simp
qed

lemma pd_frames_differ:
  assumes "4096 dvd unat s" "unat s + 4096 * 5 < 2 ^ 52"
  shows "j < 4 \<Longrightarrow> pd_frame s j \<noteq> s" "j < 4 \<Longrightarrow> k < 4 \<Longrightarrow> pd_frame s j = pd_frame s k \<longleftrightarrow> j = k"
proof -
  show "j < 4 \<Longrightarrow> pd_frame s j \<noteq> s"
  proof
    assume j: "j < 4" "pd_frame s j = s"
    have "unat (pd_frame s j) = unat s + 4096 * (1 + j)" by (rule pd_frames(1)[OF assms j(1)])
    then show False unfolding j(2) by simp
  qed
  show "pd_frame s j = pd_frame s k \<longleftrightarrow> j = k" if jk: "j < 4" "k < 4"
  proof
    assume "pd_frame s j = pd_frame s k"
    then have "unat s + 4096 * (1 + j) = unat s + 4096 * (1 + k)" using pd_frames(1)[OF assms jk(1)] pd_frames(1)[OF assms jk(2)] by metis
    then show "j = k" by simp
  qed simp
qed

lemma window_step:
  assumes laws: "window_laws ops ho mp po" and s: "4096 dvd unat s" "unat s + 4096 * 5 < 2 ^ 52"
    and pml4: "pml4 \<noteq> s" "\<And>j. j < 4 \<Longrightarrow> pml4 \<noteq> pd_frame s j" and unused: "is_unused ops (t pml4 256)"
    and inv: "window ops ho pml4 s t n t'" and n: "n < 2048"
  shows "\<exists>t''. map_2mib ops ho mp po pml4 n (t', scratch_after s n) = Done (t'', scratch_after s (Suc n)) \<and> window ops ho pml4 s t (Suc n) t''"
proof -
  let ?j = "n div 512" and ?k = "n mod 512" and ?fl = "PRESENT OR WRITABLE"
  let ?e = "set_addr ho (of_nat n * 0x200000) (PRESENT OR WRITABLE OR HUGE_PAGE)"
  note ix = window_index[OF n]
  have j: "?j < 4" using n by simp
  note d = pd_frames_differ[OF s] and f = pd_frames[OF s j]
  have v: "va_new mp (PHYSICAL_MEMORY_OFFSET + of_nat n * 0x200000) = Done (PHYSICAL_MEMORY_OFFSET + of_nat n * 0x200000)"
    "pa_new po (of_nat n * 0x200000) = Done (of_nat n * 0x200000)"
    "page_2m ho (PHYSICAL_MEMORY_OFFSET + of_nat n * 0x200000) = PHYSICAL_MEMORY_OFFSET + of_nat n * 0x200000"
    "frame_2m ho (of_nat n * 0x200000) = of_nat n * 0x200000"
    using n by (auto intro!: window_lawsD(5,6,8,9)[OF laws] simp: ix(2,4))
  have p: "p_index mp 4 (PHYSICAL_MEMORY_OFFSET + of_nat n * 0x200000) = 256" "p_index mp 3 (PHYSICAL_MEMORY_OFFSET + of_nat n * 0x200000) = ?j"
    "p_index mp 2 (PHYSICAL_MEMORY_OFFSET + of_nat n * 0x200000) = ?k"
    using window_indices[OF laws n, of _ 0] ix(4) by simp_all
  have run: "map_2mib ops ho mp po pml4 n w = run_bind (ensure_table ops po pml4 256 w) (\<lambda>(pdpt, w).
     run_bind (ensure_table ops po pdpt ?j w) (\<lambda>(pd, t, s). Done (write_entry pd ?k ?e t, s)))" for w
    by (simp add: map_2mib_def ix(1)[simplified] ix(3) v p Let_def)
  have ps: "phys_frame s" and pf: "phys_frame (pd_frame s ?j)" using s f j by (simp_all add: phys_frame_def)
  have nj: "n = 512 * ?j + ?k" by simp
  have next_pds: "pds (Suc n) = Suc ?j" by (simp add: pds_def)
  consider "n = 0" | "0 < n" "?k = 0" | "0 < n" "?k \<noteq> 0" by blast
  then show ?thesis
  proof cases
    case 1
    have z: "?j = 0" "?k = 0" "scratch_after s n = s" "t' = t" using 1 inv by (simp_all add: scratch_after_def window_def)
    let ?t1 = "(write_entry pml4 256 (set_frame ops s ?fl) t)(s := (\<lambda>_. zero_entry ops))"
    let ?t2 = "(write_entry s 0 (set_frame ops (pd_frame s 0) ?fl) ?t1)(pd_frame s 0 := (\<lambda>_. zero_entry ops))"
    have s1: "s + 4096 = pd_frame s 0" by (simp add: pd_frame_def)
    have 1: "ensure_table ops po pml4 256 (t, s) = Done (s, ?t1, s + 4096)"
      using ensure_new[OF laws, of "(t, s)" pml4 256] unused s pml4(1) by simp
    have 2: "ensure_table ops po s 0 (?t1, s + 4096) = Done (pd_frame s 0, ?t2, pd_frame s 0 + 4096)"
      using ensure_new[OF laws, of "(?t1, s + 4096)" s 0] window_lawsD(1)[OF laws] f s(2) d(1)[of 0] z(1) unfolding s1 by auto
    have "map_2mib ops ho mp po pml4 n (t', scratch_after s n) = Done (write_entry (pd_frame s 0) 0 ?e ?t2, pd_frame s 0 + 4096)"
      unfolding run z using 1 2 by simp
    moreover have "pd_frame s 0 + 4096 = scratch_after s (Suc n)" using \<open>n = 0\<close> by (simp add: scratch_after_def pds_def pd_frame_def)
    moreover have "window ops ho pml4 s t (Suc n) (write_entry (pd_frame s 0) 0 ?e ?t2)"
      unfolding window_def next_pds using z \<open>n = 0\<close> pml4 d(1)[of 0] by (auto simp: write_entry_def)
    ultimately show ?thesis by auto
  next
    case 2
    have z: "pds n = ?j" using 2(2) by (simp add: pds_def div_plus_div_distrib_dvd_left mod_0_imp_dvd)
    note t' = inv[unfolded window_def z if_not_P[OF gr_implies_not0[OF 2(1)]]]
    let ?t2 = "(write_entry s ?j (set_frame ops (pd_frame s ?j) ?fl) t')(pd_frame s ?j := (\<lambda>_. zero_entry ops))"
    have sc: "scratch_after s n = pd_frame s ?j" "scratch_after s (Suc n) = pd_frame s ?j + 4096"
      using 2(1) z next_pds by (simp_all add: scratch_after_def pd_frame_def)
    have 1: "ensure_table ops po pml4 256 (t', pd_frame s ?j) = Done (s, t', pd_frame s ?j)"
      using t' window_lawsD(2,3)[OF laws ps] by (intro ensure_old) simp_all
    have "ensure_table ops po s ?j (t', pd_frame s ?j) = Done (pd_frame s ?j, ?t2, pd_frame s ?j + 4096)"
      using ensure_new[OF laws, of "(t', pd_frame s ?j)" s ?j] t' window_lawsD(1)[OF laws] f s(2) j d(1)[OF j] by auto
    then have "map_2mib ops ho mp po pml4 n (t', scratch_after s n) = Done (write_entry (pd_frame s ?j) ?k ?e ?t2, scratch_after s (Suc n))"
      unfolding run sc 1 by simp
    moreover have "window ops ho pml4 s t (Suc n) (write_entry (pd_frame s ?j) ?k ?e ?t2)"
      unfolding window_def next_pds if_not_P[OF nat.simps(3)]
    proof (intro conjI allI impI)
      show "write_entry (pd_frame s ?j) ?k ?e ?t2 pml4 = (t pml4)(256 := set_frame ops s ?fl)"
        using t' pml4 j by (auto simp: write_entry_def)
      show "write_entry (pd_frame s ?j) ?k ?e ?t2 s = (\<lambda>i. if i < Suc ?j then set_frame ops (pd_frame s i) ?fl else zero_entry ops)"
        using t' d(1)[OF j] by (auto simp: write_entry_def less_Suc_eq)
      fix i assume i: "i < Suc ?j"
      show "write_entry (pd_frame s ?j) ?k ?e ?t2 (pd_frame s i) = (\<lambda>k. if k < 512 \<and> 512 * i + k < Suc n
          then set_addr ho (of_nat (512 * i + k) * 0x200000) (PRESENT OR WRITABLE OR HUGE_PAGE) else zero_entry ops)"
      proof (cases "i = ?j")
        case True
        show ?thesis unfolding True using 2(2) nj by (auto simp: write_entry_def)
      next
        case False
        then have "i < ?j" "pd_frame s i \<noteq> pd_frame s ?j" "pd_frame s i \<noteq> s" using i d j by auto
        moreover have "512 * i + k < n" if "k < 512" for k using \<open>i < ?j\<close> that nj by linarith
        ultimately show ?thesis using t' by (auto simp: write_entry_def)
      qed
    next
      fix g assume "g \<noteq> pml4" "g \<noteq> s" "\<forall>i<Suc ?j. g \<noteq> pd_frame s i"
      then show "write_entry (pd_frame s ?j) ?k ?e ?t2 g = t g" using t' by (simp add: write_entry_def)
    qed
    ultimately show ?thesis by blast
  next
    case 3
    have "n + 511 = 512 * Suc ?j + (?k - 1)" using mult_div_mod_eq[of 512 n] 3(2) by simp
    moreover have "?k - 1 < 512" using mod_less_divisor[of 512 n] by linarith
    ultimately have z: "pds n = Suc ?j" unfolding pds_def by simp
    note t' = inv[unfolded window_def z if_not_P[OF gr_implies_not0[OF 3(1)]]]
    have sc: "scratch_after s (Suc n) = scratch_after s n" using 3(1) z next_pds by (simp add: scratch_after_def)
    have 1: "ensure_table ops po pml4 256 (t', scratch_after s n) = Done (s, t', scratch_after s n)"
      using t' window_lawsD(2,3)[OF laws ps] by (intro ensure_old) simp_all
    have 2: "ensure_table ops po s ?j (t', scratch_after s n) = Done (pd_frame s ?j, t', scratch_after s n)"
      using t' window_lawsD(2,3)[OF laws pf] by (intro ensure_old) simp_all
    have "map_2mib ops ho mp po pml4 n (t', scratch_after s n) = Done (write_entry (pd_frame s ?j) ?k ?e t', scratch_after s (Suc n))"
      unfolding run sc 1 by (simp add: 2)
    moreover have "window ops ho pml4 s t (Suc n) (write_entry (pd_frame s ?j) ?k ?e t')"
      unfolding window_def next_pds if_not_P[OF nat.simps(3)]
    proof (intro conjI allI impI)
      show "write_entry (pd_frame s ?j) ?k ?e t' pml4 = (t pml4)(256 := set_frame ops s ?fl)"
        using t' pml4 j by (auto simp: write_entry_def)
      show "write_entry (pd_frame s ?j) ?k ?e t' s = (\<lambda>i. if i < Suc ?j then set_frame ops (pd_frame s i) ?fl else zero_entry ops)"
        using t' d(1)[OF j] by (auto simp: write_entry_def)
      fix i assume i: "i < Suc ?j"
      show "write_entry (pd_frame s ?j) ?k ?e t' (pd_frame s i) = (\<lambda>k. if k < 512 \<and> 512 * i + k < Suc n
          then set_addr ho (of_nat (512 * i + k) * 0x200000) (PRESENT OR WRITABLE OR HUGE_PAGE) else zero_entry ops)"
      proof (cases "i = ?j")
        case True
        have "512 * ?j + k < Suc n \<longleftrightarrow> 512 * ?j + k < n \<or> k = ?k" for k using nj by linarith
        moreover have "?k < 512" "512 * ?j + ?k = n" using nj by simp_all
        ultimately show ?thesis unfolding True using t' by (auto simp: write_entry_def fun_eq_iff simp del: of_nat_add of_nat_mult)
      next
        case False
        then have "i < ?j" "pd_frame s i \<noteq> pd_frame s ?j" using i d j by auto
        moreover have "512 * i + k < n" if "k < 512" for k using \<open>i < ?j\<close> that nj by linarith
        ultimately show ?thesis using t' by (auto simp: write_entry_def)
      qed
    next
      fix g assume "g \<noteq> pml4" "g \<noteq> s" "\<forall>i<Suc ?j. g \<noteq> pd_frame s i"
      then show "write_entry (pd_frame s ?j) ?k ?e t' g = t g" using t' by (simp add: write_entry_def)
    qed
    ultimately show ?thesis by blast
  qed
qed

lemma map_window:
  assumes "window_laws ops ho mp po" "4096 dvd unat s" "unat s + 4096 * 5 < 2 ^ 52" "pml4 \<noteq> s" "\<And>j. j < 4 \<Longrightarrow> pml4 \<noteq> pd_frame s j"
    "is_unused ops (t pml4 256)"
  shows "n \<le> 2048 \<Longrightarrow> \<exists>t'. run_fold (map_2mib ops ho mp po pml4) [0..<n] (t, s) = Done (t', scratch_after s n) \<and> window ops ho pml4 s t n t'"
proof (induction n)
  case 0
  then show ?case by (simp add: scratch_after_def window_def)
next
  case (Suc n)
  then obtain t' where t': "run_fold (map_2mib ops ho mp po pml4) [0..<n] (t, s) = Done (t', scratch_after s n)" "window ops ho pml4 s t n t'" by auto
  from window_step[OF assms t'(2)] Suc.prems t'(1) show ?case by (auto simp: run_fold_append)
qed

text \<open>The entry for a page of two megabytes that the processor finds for an address.\<close>

definition find_huge :: "'e entry_ops \<Rightarrow> ('e, 's) mapper \<Rightarrow> u64 \<Rightarrow> 'e tables \<Rightarrow> u64 \<Rightarrow> 'e option" where
  "find_huge ops mp pml4 t v = (case entry_frame ops (t pml4 (p_index mp 4 v)) of
       None \<Rightarrow> None
     | Some pdpt \<Rightarrow> (case entry_frame ops (t pdpt (p_index mp 3 v)) of None \<Rightarrow> None | Some pd \<Rightarrow> Some (t pd (p_index mp 2 v))))"

text \<open>C39: The kernel's view of physical memory.  The loop that maps the first four gigabytes at \<open>PHYSICAL_MEMORY_OFFSET\<close> returns;
  then for every physical address below four gigabytes the processor finds a present, writable two-megabyte page that starts at the
  address rounded down to two megabytes; it took five scratch pages for tables, changed only them and one entry of the top-level table.\<close>

theorem physical_window_complete:
  assumes "window_laws ops ho mp po" and "4096 dvd unat s" and "unat s + 4096 * 5 < 2 ^ 52"
    and "pml4 \<noteq> s" and "\<forall>j<4. pml4 \<noteq> pd_frame s j" and "is_unused ops (t pml4 256)"
  shows "\<exists>t'. run_fold (map_2mib ops ho mp po pml4) [0..<2048] (t, s) = Done (t', s + 0x5000)
    \<and> (\<forall>p. unat p < 0x100000000 \<longrightarrow> find_huge ops mp pml4 t' (PHYSICAL_MEMORY_OFFSET + p)
          = Some (set_addr ho (p AND NOT 0x1FFFFF) (PRESENT OR WRITABLE OR HUGE_PAGE)))
    \<and> (\<forall>i. i \<noteq> 256 \<longrightarrow> t' pml4 i = t pml4 i) \<and> (\<forall>f. f \<noteq> pml4 \<longrightarrow> \<not> unat (f - s) < 0x5000 \<longrightarrow> t' f = t f)"
proof -
  obtain t' where t': "run_fold (map_2mib ops ho mp po pml4) [0..<2048] (t, s) = Done (t', scratch_after s 2048)" "window ops ho pml4 s t 2048 t'"
    using map_window[of ops ho mp po s pml4 t 2048, OF assms(1-4)] assms(5,6) by auto
  have pds: "pds 2048 = 4" by (simp add: pds_def)
  note w = t'(2)[unfolded window_def pds, simplified]
  have find: "find_huge ops mp pml4 t' (PHYSICAL_MEMORY_OFFSET + p) = Some (set_addr ho (p AND NOT 0x1FFFFF) (PRESENT OR WRITABLE OR HUGE_PAGE))"
    if p: "unat p < 0x100000000" for p
  proof -
    let ?n = "unat p div 0x200000" and ?r = "unat p mod 0x200000"
    have n: "?n < 2048" "?n div 512 < 4" using p by simp_all
    have "unat (PHYSICAL_MEMORY_OFFSET + p) = 0xffff800000000000 + unat p"
      using p unat_add_no_wrap[of PHYSICAL_MEMORY_OFFSET p] by (simp add: PHYSICAL_MEMORY_OFFSET_def)
    then have u: "unat (PHYSICAL_MEMORY_OFFSET + p) = 0xffff800000000000 + ?n * 0x200000 + ?r" by simp
    note i = window_indices[OF assms(1) n(1) u]
    have "512 * (?n div 512) + ?n mod 512 = ?n" by simp
    moreover have "of_nat ?n * 0x200000 = p AND NOT 0x1FFFFF"
      using unat_and_not_mask[of 21 p] window_index(2)[OF n(1)] by (simp add: word_unat_eq_iff)
    moreover have "phys_frame s" "phys_frame (pd_frame s (?n div 512))" using pd_frames[OF assms(2,3) n(2)] assms(2,3) n(2) by (simp_all add: phys_frame_def)
    ultimately show ?thesis using w n window_lawsD(3)[OF assms(1)] by (simp add: find_huge_def i)
  qed
  have frame: "t' f = t f" if f: "f \<noteq> pml4" "\<not> unat (f - s) < 0x5000" for f
  proof -
    have "f \<noteq> pd_frame s j" if "j < 4" for j
    proof
      assume "f = pd_frame s j"
      then have "f - s = of_nat (4096 * (1 + j))" by (simp add: pd_frame_def)
      moreover have "unat (of_nat (4096 * (1 + j)) :: u64) = 4096 * (1 + j)" using that by (intro of_nat_inverse[OF refl]) simp
      ultimately show False using f(2) that by simp
    qed
    moreover have "f \<noteq> s" using f(2) by auto
    ultimately show ?thesis using w f(1) by blast
  qed
  have "scratch_after s 2048 = s + 0x5000" by (simp add: scratch_after_def pds)
  then show ?thesis using t'(1) find w frame by (intro exI[of _ t']) simp
qed

text \<open>The processor's entries and indices, for the witness.\<close>

definition x86_huge :: "u64 huge_ops" where
  "x86_huge = \<lparr>page_2m = (\<lambda>v. v AND NOT 0x1FFFFF), frame_2m = (\<lambda>p. p AND NOT 0x1FFFFF), set_addr = (\<lambda>a fl. a OR fl)\<rparr>"

definition index_mapper :: "(u64, u64) mapper" where
  "index_mapper = \<lparr>mp_translate = (\<lambda>_ _ _. None), mp_map_to = (\<lambda>_ _ _ _ w. Done (False, w)),
     va_new = (\<lambda>v. if 0x800000000000 \<le> v \<and> v < 0xffff800000000000 then Panic else Done v), va_add = (\<lambda>a n. Done (a + n)), va_sub = (\<lambda>a n. Done (a - n)),
     page_of = page_base, page_range = (\<lambda>a b. []), p_index = (\<lambda>l v. unat v div 2 ^ (12 + 9 * (l - 1)) mod 512)\<rparr>"

lemma x86_window_laws: "window_laws x86_entry x86_huge index_mapper x86_phys"
proof -
  have entry: "\<not> is_unused x86_entry (set_frame x86_entry f (PRESENT OR WRITABLE)) \<and> entry_frame x86_entry (set_frame x86_entry f (PRESENT OR WRITABLE)) = Some f"
    if f: "phys_frame f" for f
  proof -
    have low: "f AND 0xFFF = 0" using f by (simp add: phys_frame_def and_fff_zero)
    then have "f AND x = 0" if "0xFFF AND x = x" for x
      using that by (metis (no_types, lifting) and.assoc and_zero_eq bit.conj_zero_left)
    then have "f AND 1 = 0" "f AND 0x80 = 0" "f AND 3 = 0" by simp_all
    moreover have "(f OR 3) AND 0x000FFFFFFFFFF000 = f" using phys_frame_mask(1)[OF f] by (simp add: bit.conj_disj_distrib2)
    ultimately show ?thesis
      by (auto simp: x86_entry_def PRESENT_def WRITABLE_def bit.conj_disj_distrib2 or_eq_0_iff)
  qed
  have aligned: "v AND NOT 0x1FFFFF = v" if "0x200000 dvd unat v" for v :: u64
    using unat_and_not_mask[of 21 v] that by (simp add: word_unat_eq_iff)
  have "va_new index_mapper v = Done v" if "0xffff800000000000 \<le> unat v" for v
    using that by (simp add: index_mapper_def word_less_nat_alt)
  moreover have "pa_new x86_phys p = Done p" if "unat p < 2 ^ 52" for p using that by (simp add: x86_phys_def word_less_nat_alt)
  moreover have "containing_frame x86_phys p = p" if "4096 dvd unat p" for p
    using page_base_id[OF that] by (simp add: x86_phys_def page_base_def)
  ultimately show ?thesis using entry aligned unfolding window_laws_def
    by (simp add: index_mapper_def x86_huge_def) (simp add: x86_entry_def)
qed

theorem physical_window_complete_witness:
  "\<exists>t'. run_fold (map_2mib x86_entry x86_huge index_mapper x86_phys 0x1000) [0..<2048] (\<lambda>_ _. 0, 0x2000) = Done (t', 0x7000)
    \<and> find_huge x86_entry index_mapper 0x1000 t' (PHYSICAL_MEMORY_OFFSET + 0x12345678) = Some 0x12200083"
proof -
  have "\<forall>j<4. 0x1000 \<noteq> pd_frame 0x2000 j"
  proof (intro allI impI notI)
    fix j :: nat assume j: "j < 4" "0x1000 = pd_frame 0x2000 j"
    then have "unat (0x1000 :: u64) = 0x2000 + 4096 * (1 + j)" using pd_frames(1)[of "0x2000" j] by simp
    then show False by simp
  qed
  from physical_window_complete[OF x86_window_laws _ _ _ this, of "\<lambda>_ _. 0"] obtain t' where
    t': "run_fold (map_2mib x86_entry x86_huge index_mapper x86_phys 0x1000) [0..<2048] (\<lambda>_ _. 0, 0x2000) = Done (t', 0x7000)"
    "find_huge x86_entry index_mapper 0x1000 t' (PHYSICAL_MEMORY_OFFSET + 0x12345678)
      = Some (set_addr x86_huge (0x12345678 AND NOT 0x1FFFFF) (PRESENT OR WRITABLE OR HUGE_PAGE))"
    by (auto simp: x86_entry_def)
  then show ?thesis by (simp add: x86_huge_def PRESENT_def WRITABLE_def HUGE_PAGE_def)
qed



section \<open>What the kernel is given\<close>

definition descriptor_of :: "u8 list \<Rightarrow> boot_memory_descriptor" where
  "descriptor_of bs = \<lparr>bmd_ty = le_u32 (sub_slice 0 4 bs), bmd_reserved = le_u32 (sub_slice 4 8 bs),
     bmd_phys_start = le_u64 (sub_slice 8 16 bs), bmd_virt_start = le_u64 (sub_slice 16 24 bs),
     bmd_page_count = le_u64 (sub_slice 24 32 bs), bmd_att = le_u64 (sub_slice 32 40 bs)\<rparr>"

lemma expect_ok_Done: "expect_ok r = Done x \<longleftrightarrow> r = Inr x"
  by (cases r) (auto simp: expect_ok_def)

lemma measure_base:
  "ld_measure img h is n b e = Done (Inr (n', b', e')) \<Longrightarrow> X \<le> b \<Longrightarrow> \<forall>ph\<in>set (ld_segments img h is). X \<le> lp_virtual_address ph \<Longrightarrow> X \<le> b'"
proof (induction "is" arbitrary: n b e)
  case (Cons i "is")
  obtain r where r: "ld_parse_program_header img h i = Done (Inr r)" using Cons.prems(1) by (auto simp: attempt_run_eq_Inr)
  then have seg: "ld_segment img h i = r" by (simp add: ld_segment_def)
  show ?case
  proof (cases r)
    case None
    then show ?thesis using Cons r seg by (auto simp: attempt_run_def)
  next
    case (Some ph)
    with Cons.prems(1) r obtain n1 e1 where "ld_measure img h is n1 (min b (lp_virtual_address ph)) e1 = Done (Inr (n', b', e'))"
      by (auto simp: attempt_run_eq_Inr run_bind_eq_Done Let_def)
    with Cons.IH Cons.prems(2,3) Some seg show ?thesis by auto
  qed
qed simp

lemma loaded_image:
  assumes run: "load_kernel pages img mem = Done (Inr k, mem')" and len: "length img < usize_limit"
    and h: "ld_parse_header img = Done (Inr h)"
    and seg: "\<forall>ph\<in>set (ld_segments img h [0..<le_program_header_count h]). X \<le> lp_virtual_address ph"
    and some: "\<exists>ph\<in>set (ld_segments img h [0..<le_program_header_count h]). 0 < lp_memory_size ph"
  shows "X \<le> lk_virtual_base k" "lk_image_size k \<noteq> 0" "lk_entry_point k = le_entry_point h"
proof -
  let ?is = "[0..<le_program_header_count h]"
  obtain r where r: "ld_measure img h ?is 0 (- 1) 0 = Done r" "\<forall>n b e. r = Inr (n, b, e) \<longrightarrow> spans img h b e"
    using ld_measure_header[OF len h] by blast
  obtain n b e where m: "r = Inr (n, b, e)" using run r(1) by (cases r) (auto simp: load_kernel_def h)
  have k: "lk_virtual_base k = b" "checked_sub e b = Some (lk_image_size k)" "lk_entry_point k = le_entry_point h"
    using run by (auto simp: load_kernel_def h r(1) m run_bind_eq_Done Let_def split: if_splits option.splits sum.splits)
      (metis old.sum.exhaust old.unit.exhaust)+
  show "lk_entry_point k = le_entry_point h" by (rule k(3))
  have "X \<le> - 1" by (rule word_order.extremum)
  then show "X \<le> lk_virtual_base k" using measure_base[OF r(1)[unfolded m] _ seg] k(1) by simp
  from some obtain ph where ph: "ph \<in> set (ld_segments img h ?is)" "0 < lp_memory_size ph" by blast
  then have "b \<le> lp_virtual_address ph" "unat (lp_virtual_address ph) + lp_memory_size ph \<le> unat e" using r(2) m by (auto simp: spans_def)
  then have "unat b < unat e" using ph(2) by (simp add: word_le_nat_alt)
  then have "e \<noteq> b" by blast
  moreover have "lk_image_size k = e - b" using k(2) by (simp add: checked_sub_def split: if_split_asm)
  ultimately show "lk_image_size k \<noteq> 0" by simp
qed


text \<open>For the witness, a kernel of one segment linked to the upper two gigabytes, a ramdisk of three bytes and a memory map of one
  descriptor; the mapper of the witness accepts every page and leaves the tables as they are.\<close>

definition high_elf :: "u8 list" where
  "high_elf = [0x7F, 0x45, 0x4C, 0x46, 2, 1, 1, 0] @ [0, 0, 0, 0, 0, 0, 0, 0] @ [2, 0, 62, 0, 1, 0, 0, 0]
     @ [0, 0, 0, 0x80, 0xFF, 0xFF, 0xFF, 0xFF] @ [64, 0, 0, 0, 0, 0, 0, 0] @ [0, 0, 0, 0, 0, 0, 0, 0]
     @ [0, 0, 0, 0, 64, 0, 56, 0] @ [1, 0, 0, 0, 0, 0, 0, 0]
     @ [1, 0, 0, 0, 5, 0, 0, 0] @ [120, 0, 0, 0, 0, 0, 0, 0] @ [0, 0, 0, 0x80, 0xFF, 0xFF, 0xFF, 0xFF]
     @ [0, 0, 0x20, 0, 0, 0, 0, 0] @ [2, 0, 0, 0, 0, 0, 0, 0] @ [4, 0, 0, 0, 0, 0, 0, 0]
     @ [0, 0x10, 0, 0, 0, 0, 0, 0] @ [0xAB, 0xCD]"

definition high_header :: ld_elf_header where
  "high_header = \<lparr>le_entry_point = 0xffffffff80000000, le_program_header_offset = 64,
     le_program_header_entry_size = 56, le_program_header_count = 1\<rparr>"

definition high_segment :: ld_program_header where
  "high_segment = \<lparr>lp_file_offset = 120, lp_virtual_address = 0xffffffff80000000, lp_physical_address = 0x200000,
      lp_file_size = 2, lp_memory_size = 4\<rparr>"

definition demo_firmware :: firmware where
  "demo_firmware = \<lparr>fw_kernel_file = Some high_elf, fw_ramdisk_file = Some [1, 2, 3],
     fw_allocate_pages = (\<lambda>k n. if k < 5 then Inr (0x100000 * (of_nat k + 1)) else Inl 9), fw_map_size = Some 40,
     fw_gop = Some \<lparr>g_addr = 0xE0000000, g_size = 0x300000, g_width = 1024, g_height = 768, g_stride = 1024, g_format = Bgr\<rparr>,
     fw_final_map = \<lparr>fm_bytes = demo_descriptor 7 0x200000 128, fm_map_size = 40, fm_desc_size = 40, fm_desc_version = 1\<rparr>,
     fw_cr3 = 0x1000\<rparr>"

definition loader_mapper :: "(u64, u64) mapper" where
  "loader_mapper = index_mapper\<lparr>mp_map_to := (\<lambda>_ _ _ _ w. Done (True, w))\<rparr>"

lemma loader_window_laws: "window_laws x86_entry x86_huge loader_mapper x86_phys"
  using x86_window_laws by (simp add: window_laws_def loader_mapper_def)

lemma high_elf_parses:
  "ld_parse_header high_elf = Done (Inr high_header)" "ld_parse_program_header high_elf high_header 0 = Done (Inr (Some high_segment))"
  by (simp add: ld_parse_header_eq high_elf_def sub_slice_def elf_constants le_u16_def le_u64_def high_header_def)
     (simp add: ld_parse_program_header_eq high_elf_def sub_slice_def elf_constants le_u32_def le_u64_def ld_ph_start_def ld_ph_at_def
        high_header_def high_segment_def)

lemma high_elf_loads: "\<exists>mem'. load_kernel (fw_allocate_pages demo_firmware 0) high_elf mem = Done (Inr \<lparr>lk_entry_point = 0xffffffff80000000,
    lk_virtual_base = 0xffffffff80000000, lk_physical_base = 0x100000, lk_image_size = 4\<rparr>, mem')"
proof -
  have "length high_elf = 122" by (simp add: high_elf_def)
  then show ?thesis
    by (simp add: load_kernel_def high_elf_parses high_header_def[THEN arg_cong, of le_program_header_count]
        high_header_def[THEN arg_cong, of le_entry_point]
        high_segment_def usize_add_def checked_add_def checked_sub_def div_ceil_4096_def demo_firmware_def
        usize_mul_def usize_checked_add_def sub_or_panic_def add_or_panic_def min_absorb2 max_def)
qed

lemma demo_mappings:
  assumes "\<forall>i. t 0x400000 i = 0" "lk_image_size k = 4" "lk_virtual_base k = 0xffffffff80000000" "lk_physical_base k = 0x100000"
  shows "\<exists>t'. setup_mappings x86_entry x86_huge loader_mapper x86_phys 0x1000 0x400000 0x400000 k 0x200000 3 t = Done t'"
proof -
  let ?t = "fold (\<lambda>i t. write_entry 0x400000 i (t 0x1000 i) t) [0..<256] t"
  have "(fold (\<lambda>i t. write_entry 0x400000 i (t 0x1000 i) t) is t') 0x400000 j = t' 0x400000 j" if "j \<notin> set is"
    for "is" j and t' :: "u64 tables" using that by (induction "is" arbitrary: t') (auto simp: write_entry_def)
  from this[of 256 "[0..<256]" t] have "?t 0x400000 256 = 0" using assms(1) by simp
  then have u: "is_unused x86_entry (?t 0x400000 256)" by (simp add: x86_entry_def)
  have pg: "map_image_page loader_mapper x86_phys pml4 0xffffffff80000000 0x100000 0 w = Done w"
    "map_image_page loader_mapper x86_phys pml4 RAMDISK_VIRTUAL_BASE 0x200000 0 w = Done w" for pml4 w
    by (simp_all add: map_image_page_def loader_mapper_def index_mapper_def x86_phys_def mul_or_panic_def add_or_panic_def RAMDISK_VIRTUAL_BASE_def)
  have "0x400000 \<noteq> pd_frame 0x401000 j" if "j < 4" for j
  proof
    assume "0x400000 = pd_frame 0x401000 j"
    then have "unat (0x400000 :: u64) = 0x401000 + 4096 * (1 + j)" using pd_frames(1)[of "0x401000" j] that by simp
    then show False by simp
  qed
  from map_window[of x86_entry x86_huge loader_mapper x86_phys "0x401000" "0x400000" ?t 2048, OF loader_window_laws _ _ _ this u] obtain t' s' where
    w: "run_fold (map_2mib x86_entry x86_huge loader_mapper x86_phys 0x400000) [0..<2048] (?t, 0x401000) = Done (t', s')" by auto
  have c: "[0..<div_ceil_4096 4] = [0]" "[0..<div_ceil_4096 3] = [0]" "add_or_panic 0x400000 4096 = Done (0x401000 :: u64)" "4096 div 2 = (2048 :: nat)"
    by (simp_all add: div_ceil_4096_def add_or_panic_def)
  show ?thesis unfolding setup_mappings_def Let_def assms(2-4) c by (simp add: pg w del: upt_rec_numeral)
qed


end
