(* ===== verification/Spec2Isabelle.thy ===== *)
theory Spec2Isabelle
  imports User_Kernel Context_Switch Loader_Elf Xtask Heap Process_Props Serial Platform Ext2 Security Kernel_Stacks Boot_Props Loader_Main
begin

text \<open>
  A verification library for the turnix operating system (repository NewOS).

  Plan of the library: theories \<open>Prelude\<close>, \<open>Bytes\<close>, \<open>Fifo\<close>, \<open>Descriptors\<close> (shared); \<open>Console\<close>,
  \<open>Console_Screen\<close>, \<open>Tty\<close>, \<open>Vfs\<close>, \<open>Vfs_Spec\<close>, \<open>Vfs_Props\<close> (input, output, files).
\<close>

end
